(* ===== verification/Prelude.thy ===== *)
theory Prelude
  imports Complex_Main "HOL-Library.Word" "HOL-Library.Char_ord" "HOL-Library.List_Lexorder"
begin

text \<open>
  What the component theories share: the type names of the machine integers, the outcome type
  of C++ code that can fault, the bind of that outcome type, characters by code, and the
  lemma collections that carry the component proofs.
\<close>

section \<open>Names for the machine types\<close>

type_synonym u8 = "8 word"
type_synonym u16 = "16 word"
type_synonym u32 = "32 word"
type_synonym u64 = "64 word"
type_synonym bytes = "char list"

section \<open>Outcomes\<close>

text \<open>
  A C++ operation either returns a value or ends in a fault. The undefined behaviours the
  sources can run into are values of this type, next to the exceptions they can throw.
\<close>

datatype fault =
    Null_Stream             \<comment> \<open>a stdio call on the null \<open>FILE *\<close> of a failed \<open>fopen\<close>/\<open>popen\<close>\<close>
  | Buffer_Overflow         \<comment> \<open>\<open>%s\<close> or \<open>strcpy\<close> past the end of a fixed array\<close>
  | Uninit_Read             \<comment> \<open>a value read before anything was written to it\<close>
  | Null_String             \<comment> \<open>a null \<open>char *\<close> used as a string\<close>
  | Out_Of_Range            \<comment> \<open>\<open>std::out_of_range\<close>\<close>
  | Range_Error             \<comment> \<open>\<open>std::range_error\<close>\<close>
  | Runtime_Error           \<comment> \<open>\<open>std::runtime_error\<close>\<close>
  | Json_Error nat          \<comment> \<open>\<open>nlohmann::json\<close> exception with its id\<close>
  | Zmq_Error int           \<comment> \<open>\<open>zmq::error_t\<close> with its errno\<close>
  | Empty_Container         \<comment> \<open>\<open>front\<close>/\<open>back\<close>/\<open>pop\<close> of an empty deque\<close>
  | Diverges                \<comment> \<open>a loop that is never left\<close>
  | Assert_Failed           \<comment> \<open>\<open>assert\<close> in a build without \<open>NDEBUG\<close>\<close>
  | Invalid_Argument        \<comment> \<open>\<open>std::invalid_argument\<close>\<close>
  | Null_Deref              \<comment> \<open>a null pointer dereferenced\<close>
  | Use_After_Free          \<comment> \<open>an object used after its destruction\<close>

type_synonym 'a outcome = "fault + 'a"

definition bindE :: "'a outcome \<Rightarrow> ('a \<Rightarrow> 'b outcome) \<Rightarrow> 'b outcome" where
  "bindE m f = (case m of Inl e \<Rightarrow> Inl e | Inr x \<Rightarrow> f x)"

definition mapE :: "('a \<Rightarrow> 'b) \<Rightarrow> 'a outcome \<Rightarrow> 'b outcome" where
  "mapE f m = (case m of Inl e \<Rightarrow> Inl e | Inr x \<Rightarrow> Inr (f x))"

named_theorems outcome_simps "evaluation of the outcome combinators"
named_theorems cstring_simps "evaluation of the C string and scanner functions"
named_theorems word_arith_simps "unat of the word operations the components use"

lemma bindE_simps [simp, outcome_simps]:
  "bindE (Inl e) f = Inl e"
  "bindE (Inr x) f = f x"
  by (simp_all add: bindE_def)

lemma mapE_simps [simp, outcome_simps]:
  "mapE f (Inl e) = Inl e"
  "mapE f (Inr x) = Inr (f x)"
  by (simp_all add: mapE_def)

lemma bindE_eq_Inr: "bindE m f = Inr y \<longleftrightarrow> (\<exists>x. m = Inr x \<and> f x = Inr y)"
  by (cases m) auto

lemma mapE_eq_Inr: "mapE f m = Inr y \<longleftrightarrow> (\<exists>x. m = Inr x \<and> y = f x)"
  by (cases m) auto

lemma bindE_cong [fundef_cong]:
  "m = m' \<Longrightarrow> (\<And>x. m' = Inr x \<Longrightarrow> f x = g x) \<Longrightarrow> bindE m f = bindE m' g"
  by (cases m') auto

lemma bindE_assoc: "bindE (bindE m f) g = bindE m (\<lambda>x. bindE (f x) g)"
  by (cases m) auto

section \<open>Lists\<close>

lemma takeWhile_append_stop:
  "\<forall>x\<in>set xs. P x \<Longrightarrow> \<not> P y \<Longrightarrow> takeWhile P (xs @ y # ys) = xs"
  by (induction xs) auto

lemma dropWhile_append_stop:
  "\<forall>x\<in>set xs. P x \<Longrightarrow> \<not> P y \<Longrightarrow> dropWhile P (xs @ y # ys) = y # ys"
  by (induction xs) auto

lemma dropWhile_all: "\<forall>x\<in>set xs. P x \<Longrightarrow> dropWhile P (xs @ ys) = dropWhile P ys"
  by (induction xs) auto

lemma takeWhile_all: "\<forall>x\<in>set xs. P x \<Longrightarrow> takeWhile P xs = xs"
  by (induction xs) auto

lemma dropWhile_hd: "xs \<noteq> [] \<Longrightarrow> \<not> P (hd xs) \<Longrightarrow> dropWhile P xs = xs"
  by (cases xs) auto

lemma set_takeWhile_P: "x \<in> set (takeWhile P xs) \<Longrightarrow> P x"
  by (induction xs) (auto split: if_splits)

lemma list_all_upt: "list_all P [a..<b] \<Longrightarrow> a \<le> k \<Longrightarrow> k < b \<Longrightarrow> P k"
  by (simp add: list_all_iff)

section \<open>Words\<close>

lemma unat_bound: "unat (w :: 'a::len word) < 2 ^ LENGTH('a)"
  by (rule unsigned_less)

lemma unat_of_nat_small [word_arith_simps]:
  "n < 2 ^ LENGTH('a::len) \<Longrightarrow> unat (of_nat n :: 'a word) = n"
  by (simp add: unat_of_nat take_bit_nat_eq_self)

lemma unat_plus_small [word_arith_simps]:
  fixes a b :: "'a::len word"
  shows "unat a + unat b < 2 ^ LENGTH('a) \<Longrightarrow> unat (a + b) = unat a + unat b"
  by (simp add: unat_word_ariths)

lemma unat_minus_le [word_arith_simps]:
  fixes a b :: "'a::len word"
  shows "unat b \<le> unat a \<Longrightarrow> unat (a - b) = unat a - unat b"
  by (simp add: unat_sub word_le_nat_alt)

lemma unat_minus_wrap [word_arith_simps]:
  fixes a b :: "'a::len word"
  shows "unat a < unat b \<Longrightarrow> unat (a - b) = 2 ^ LENGTH('a) + unat a - unat b"
  by (simp add: unat_sub_if')

lemma unat_times_small [word_arith_simps]:
  fixes a b :: "'a::len word"
  shows "unat a * unat b < 2 ^ LENGTH('a) \<Longrightarrow> unat (a * b) = unat a * unat b"
  by (simp add: unat_word_ariths)

section \<open>Streams of encoded items\<close>

text \<open>
  The contract of a self-delimiting encoding: \<open>enc\<close> writes a good item, \<open>dec\<close> reads the item back
  and leaves what follows. It makes concatenated items readable one after the other, and it makes
  no item's code a proper prefix of another's.
\<close>

locale stream_codec =
  fixes good :: "'a \<Rightarrow> bool"
    and enc :: "'a \<Rightarrow> 't list"
    and dec :: "'t list \<Rightarrow> ('a \<times> 't list) option"
  assumes dec_enc: "good x \<Longrightarrow> dec (enc x @ rest) = Some (x, rest)"
begin

lemma dec_enc_exact: "good x \<Longrightarrow> dec (enc x) = Some (x, [])"
  using dec_enc [of x "[]"] by simp

lemma enc_cancel: "good x \<Longrightarrow> good y \<Longrightarrow> enc x @ r = enc y @ s \<Longrightarrow> x = y \<and> r = s"
  by (metis dec_enc option.inject prod.inject)

lemma enc_inject: "good x \<Longrightarrow> good y \<Longrightarrow> enc x = enc y \<Longrightarrow> x = y"
  by (metis enc_cancel)

lemma enc_not_Nil: "good x \<Longrightarrow> good y \<Longrightarrow> x \<noteq> y \<Longrightarrow> enc x \<noteq> []"
  by (metis dec_enc option.inject prod.inject append_Nil)

lemma concat_inject:
  assumes "\<forall>x. good x \<longrightarrow> enc x \<noteq> []"
  shows "\<forall>x\<in>set xs. good x \<Longrightarrow> \<forall>y\<in>set ys. good y \<Longrightarrow>
         concat (map enc xs) = concat (map enc ys) \<Longrightarrow> xs = ys"
proof (induction xs arbitrary: ys)
  case Nil
  then show ?case using assms by (cases ys) auto
next
  case (Cons x xs)
  have "enc x \<noteq> []" using assms Cons.prems(1) by simp
  with Cons.prems(3) obtain y zs where ys: "ys = y # zs" by (cases ys) auto
  have "enc x @ concat (map enc xs) = enc y @ concat (map enc zs)" using Cons.prems(3) ys by simp
  moreover have "good x" "good y" using Cons.prems ys by simp_all
  ultimately have "x = y \<and> concat (map enc xs) = concat (map enc zs)" by (metis enc_cancel)
  moreover have "\<forall>x\<in>set xs. good x" "\<forall>y\<in>set zs. good y" using Cons.prems ys by simp_all
  ultimately show ?case using Cons.IH [of zs] ys by metis
qed

end

end
