(* ===== verification/Decimal.thy ===== *)
theory Decimal
  imports Prelude
begin

text \<open>
  Decimal notation of natural numbers: the digits \<open>std::to_string\<close>, \<open>printf\<close> and \<open>fmt\<close>
  produce for an unsigned integer, the value a run of digits denotes, and the round trip
  between the two. Several components print and scan with these.
\<close>

definition digit_char :: "nat \<Rightarrow> char" where
  "digit_char d = char_of (48 + d)"

definition digit_val :: "char \<Rightarrow> nat" where
  "digit_val c = of_char c - 48"

definition is_digit :: "char \<Rightarrow> bool" where
  "is_digit c \<longleftrightarrow> (48::nat) \<le> of_char c \<and> (of_char c :: nat) \<le> 57"

fun dec_str :: "nat \<Rightarrow> string" where
  "dec_str n = (if n < 10 then [digit_char n] else dec_str (n div 10) @ [digit_char (n mod 10)])"

declare dec_str.simps [simp del]

definition dec_val :: "string \<Rightarrow> nat" where
  "dec_val s = foldl (\<lambda>n c. 10 * n + digit_val c) 0 s"

lemma of_char_digit_char: "d < 10 \<Longrightarrow> of_char (digit_char d) = 48 + d"
  by (simp add: digit_char_def of_char_of)

lemma digit_val_char [simp]: "d < 10 \<Longrightarrow> digit_val (digit_char d) = d"
  by (simp add: digit_val_def of_char_digit_char)

lemma is_digit_char [simp]: "d < 10 \<Longrightarrow> is_digit (digit_char d)"
  by (simp add: is_digit_def of_char_digit_char)

lemma digit_val_less: "is_digit c \<Longrightarrow> digit_val c < 10"
  by (auto simp: digit_val_def is_digit_def)

lemma digit_char_val: "is_digit c \<Longrightarrow> digit_char (digit_val c) = c"
proof -
  assume "is_digit c"
  then have "48 + (of_char c - 48) = (of_char c :: nat)"
    by (simp add: is_digit_def)
  then show ?thesis
    by (simp add: digit_char_def digit_val_def)
qed

lemma dec_val_Nil [simp]: "dec_val [] = 0"
  by (simp add: dec_val_def)

lemma dec_val_snoc [simp]: "dec_val (s @ [c]) = 10 * dec_val s + digit_val c"
  by (simp add: dec_val_def)

lemma dec_val_append: "dec_val (s @ t) = dec_val s * 10 ^ length t + dec_val t"
proof (induction t rule: rev_induct)
  case Nil
  then show ?case by simp
next
  case (snoc c t)
  have "dec_val (s @ t @ [c]) = 10 * dec_val (s @ t) + digit_val c"
    using dec_val_snoc [of "s @ t" c] by simp
  with snoc show ?case by (simp add: algebra_simps)
qed

lemma dec_val_Cons: "dec_val (c # t) = digit_val c * 10 ^ length t + dec_val t"
  using dec_val_append [of "[c]" t] by (simp add: dec_val_def)

lemma dec_val_bound: "\<forall>c\<in>set s. is_digit c \<Longrightarrow> dec_val s < 10 ^ length s"
proof (induction s)
  case Nil
  then show ?case by simp
next
  case (Cons c s)
  then have "digit_val c \<le> 9" and "dec_val s < 10 ^ length s"
    using digit_val_less [of c] by auto
  moreover from this have "digit_val c * 10 ^ length s \<le> 9 * 10 ^ length s"
    by (intro mult_right_mono) auto
  ultimately have "digit_val c * 10 ^ length s + dec_val s < 10 * 10 ^ length s"
    by linarith
  then show ?case by (simp add: dec_val_Cons)
qed

lemma dec_str_small [simp]: "n < 10 \<Longrightarrow> dec_str n = [digit_char n]"
  by (simp add: dec_str.simps [of n])

lemma dec_str_large: "\<not> n < 10 \<Longrightarrow> dec_str n = dec_str (n div 10) @ [digit_char (n mod 10)]"
  by (simp add: dec_str.simps [of n])

lemma dec_str_not_Nil [simp]: "dec_str n \<noteq> []"
  by (subst dec_str.simps) simp

lemma dec_str_digits: "c \<in> set (dec_str n) \<Longrightarrow> is_digit c"
proof (induction n rule: dec_str.induct)
  case (1 n)
  then show ?case
    by (cases "n < 10") (auto simp: dec_str_large)
qed

lemma dec_val_dec_str [simp]: "dec_val (dec_str n) = n"
proof (induction n rule: dec_str.induct)
  case (1 n)
  show ?case
  proof (cases "n < 10")
    case True
    then show ?thesis by (simp add: dec_val_def)
  next
    case False
    with "1" show ?thesis by (simp add: dec_str_large)
  qed
qed

lemma dec_str_inj: "dec_str m = dec_str n \<Longrightarrow> m = n"
  by (metis dec_val_dec_str)

lemma dec_str_bound: "10 ^ (length (dec_str n) - 1) \<le> max 1 n \<and> n < 10 ^ length (dec_str n)"
proof (induction n rule: dec_str.induct)
  case (1 n)
  show ?case
  proof (cases "n < 10")
    case True
    then show ?thesis by simp
  next
    case False
    with "1" have IH: "10 ^ (length (dec_str (n div 10)) - 1) \<le> max 1 (n div 10)"
      and IH2: "n div 10 < 10 ^ length (dec_str (n div 10))" by auto
    obtain l where l: "length (dec_str (n div 10)) = Suc l"
      using dec_str_not_Nil [of "n div 10"] by (cases "length (dec_str (n div 10))") auto
    have "10 ^ l \<le> n div 10" using IH l False by auto
    moreover have "n < 10 * 10 ^ Suc l" using IH2 l by simp
    ultimately show ?thesis using False l by (simp add: dec_str_large)
  qed
qed

lemma length_dec_str_le: "n < 10 ^ k \<Longrightarrow> 0 < k \<Longrightarrow> length (dec_str n) \<le> k"
proof (rule ccontr)
  assume n: "n < 10 ^ k" and k: "0 < k" and "\<not> length (dec_str n) \<le> k"
  then have "k \<le> length (dec_str n) - 1" by simp
  then have "(10::nat) ^ k \<le> 10 ^ (length (dec_str n) - 1)"
    by (rule power_increasing) simp
  with dec_str_bound [of n] have "10 ^ k \<le> max 1 n" by linarith
  moreover have "(1::nat) < 10 ^ k" using k one_less_power [of "10::nat" k] by simp
  ultimately show False using n by simp
qed

text \<open>A number of exactly \<open>k\<close> digits, padded on the left with zeros: \<open>%0kd\<close>.\<close>

fun dec_pad :: "nat \<Rightarrow> nat \<Rightarrow> string" where
  "dec_pad 0 n = []"
| "dec_pad (Suc k) n = dec_pad k (n div 10) @ [digit_char (n mod 10)]"

lemma length_dec_pad [simp]: "length (dec_pad k n) = k"
  by (induction k arbitrary: n) auto

lemma dec_pad_digits: "c \<in> set (dec_pad k n) \<Longrightarrow> is_digit c"
  by (induction k arbitrary: n) auto

lemma dec_val_dec_pad: "dec_val (dec_pad k n) = n mod 10 ^ k"
proof (induction k arbitrary: n)
  case 0
  then show ?case by simp
next
  case (Suc k)
  have "n mod (10 * 10 ^ k) = 10 * (n div 10 mod 10 ^ k) + n mod 10"
    by (rule mod_mult2_eq)
  with Suc show ?case by simp
qed

end
