(* ===== verification/Ieee_Double.thy ===== *)
theory Ieee_Double
  imports Prelude Decimal
begin

text \<open>
  IEEE 754 binary64, the type \<open>double\<close> of the sources: finite values as rationals (every
  double is a dyadic rational) with a separate negative zero, infinities and NaN with their
  sign, the arithmetic of the code (\<open>+\<close>, \<open>-\<close>, \<open>/\<close>, conversions from unsigned integers) as
  the exact rational operation followed by round-to-nearest-even, comparisons, and decimal
  output with a fixed number of places. Rounding is stated as an interface (exact on the
  representable numbers and monotone), which the components use through its interpretation.
\<close>

section \<open>Rounding a rational to 53 bits\<close>

fun bit_len :: "nat \<Rightarrow> nat" where
  "bit_len n = (if n = 0 then 0 else Suc (bit_len (n div 2)))"

declare bit_len.simps [simp del]

text \<open>The exponent \<open>e\<close> with \<open>2\<^sup>e \<le> x < 2\<^sup>e\<^sup>+\<^sup>1\<close>, for a positive \<open>x\<close>.\<close>

definition binary_exponent :: "rat \<Rightarrow> int" where
  "binary_exponent x =
     (let (n, d) = quotient_of x;
          l = int (bit_len (nat n)) - int (bit_len (nat d))
      in if 2 powi l \<le> x then l else l - 1)"

definition round_even :: "rat \<Rightarrow> int" where
  "round_even x =
     (let f = \<lfloor>x\<rfloor>; r = x - of_int f
      in if r < 1 / 2 then f
         else if 1 / 2 < r then f + 1
         else if even f then f else f + 1)"

text \<open>The exponent of the last place: 53 significant bits, never below the subnormal \<open>2\<^sup>-\<^sup>1\<^sup>0\<^sup>7\<^sup>4\<close>.\<close>

definition ulp_exponent :: "rat \<Rightarrow> int" where
  "ulp_exponent x = max (binary_exponent \<bar>x\<bar> - 52) (- 1074)"

definition round_rat :: "rat \<Rightarrow> rat" where
  "round_rat x =
     (if x = 0 then 0
      else of_int (round_even (x / 2 powi ulp_exponent x)) * 2 powi ulp_exponent x)"

definition representable :: "rat \<Rightarrow> bool" where
  "representable x \<longleftrightarrow>
     (\<exists>m e. x = of_int m * 2 powi e \<and> \<bar>m\<bar> \<le> 2 ^ 53 \<and> - 1074 \<le> e)"

lemma bit_len_bounds:
  "0 < n \<Longrightarrow> 2 ^ (bit_len n - 1) \<le> n \<and> n < 2 ^ bit_len n \<and> 0 < bit_len n"
proof (induction n rule: bit_len.induct)
  case (1 n)
  show ?case
  proof (cases "n = 1")
    case True
    then show ?thesis by (simp add: bit_len.simps)
  next
    case False
    with 1 have IH: "2 ^ (bit_len (n div 2) - 1) \<le> n div 2" "n div 2 < 2 ^ bit_len (n div 2)"
        "0 < bit_len (n div 2)"
      by (auto simp: div_greater_zero_iff)
    obtain l where l: "bit_len (n div 2) = Suc l"
      using IH(3) gr0_implies_Suc by blast
    from 1 l have "bit_len n = Suc (Suc l)"
      by (simp add: bit_len.simps [of n])
    with IH l show ?thesis by (auto simp: less_mult_imp_div_less)
  qed
qed

lemma binary_exponent_bounds:
  assumes "0 < x"
  shows "2 powi binary_exponent x \<le> x" and "x < 2 powi (binary_exponent x + 1)"
proof -
  obtain n d where q: "quotient_of x = (n, d)" by force
  then have d: "0 < d" and x: "x = of_int n / of_int d"
    using quotient_of_denom_pos quotient_of_div by blast+
  with assms have n: "0 < n" by (simp add: zero_less_divide_iff)
  define a b where "a = bit_len (nat n)" and "b = bit_len (nat d)"
  have "2 ^ (a - 1) \<le> nat n" "nat n < 2 ^ a" "0 < a" "2 ^ (b - 1) \<le> nat d" "nat d < 2 ^ b" "0 < b"
    unfolding a_def b_def using bit_len_bounds [of "nat n"] bit_len_bounds [of "nat d"] n d by auto
  then have ib: "2 ^ (a - 1) \<le> n" "n < 2 ^ a" "2 ^ (b - 1) \<le> d" "d < 2 ^ b" and ab: "0 < a" "0 < b"
    using n d by (auto simp: nat_less_iff le_nat_iff)
  then have "(of_int (2 ^ (a - 1)) :: rat) \<le> of_int n" "of_int n < (of_int (2 ^ a) :: rat)"
      "(of_int (2 ^ (b - 1)) :: rat) \<le> of_int d" "of_int d < (of_int (2 ^ b) :: rat)"
    by (simp_all only: of_int_le_iff of_int_less_iff)
  then have rb: "(2::rat) ^ (a - 1) \<le> of_int n" "of_int n < (2::rat) ^ a"
      "(2::rat) ^ (b - 1) \<le> of_int d" "of_int d < (2::rat) ^ b"
    by simp_all
  have p: "(2::rat) ^ a = 2 * 2 ^ (a - 1)" "(2::rat) ^ b = 2 * 2 ^ (b - 1)"
    using ab by (simp_all flip: power_Suc)
  define l where "l = int a - int b"
  have pl: "(2::rat) powi l = 2 ^ a / 2 ^ b"
    unfolding l_def by (simp add: power_int_diff)
  have dpos: "(0::rat) < of_int d" using d by simp
  have up: "x < 2 powi (l + 1)"
  proof -
    have "of_int n < (2::rat) ^ a" by (rule rb)
    also have "(2::rat) ^ a \<le> (2 ^ a / 2 ^ b * 2) * of_int d"
      using rb(3) p(2) by (simp add: field_simps)
    finally show ?thesis using dpos by (simp add: x pl power_int_add field_simps)
  qed
  have lo: "2 powi (l - 1) < x"
  proof -
    have "(2::rat) ^ (a - 1) / 2 ^ b * of_int d < 2 ^ (a - 1)"
      using rb(4) by (simp add: field_simps)
    also have "\<dots> \<le> of_int n" by (rule rb)
    finally show ?thesis using dpos p(1) by (simp add: x pl power_int_diff field_simps)
  qed
  have e: "binary_exponent x = (if 2 powi l \<le> x then l else l - 1)"
    by (simp add: binary_exponent_def q l_def a_def b_def)
  show "2 powi binary_exponent x \<le> x" "x < 2 powi (binary_exponent x + 1)"
    using up lo by (simp_all add: e)
qed

lemma binary_exponent_mono:
  assumes "0 < x" "x \<le> y"
  shows "binary_exponent x \<le> binary_exponent y"
proof (rule ccontr)
  assume "\<not> ?thesis"
  then have "(2::rat) powi (binary_exponent y + 1) \<le> 2 powi binary_exponent x"
    by (intro power_int_increasing) auto
  with binary_exponent_bounds [of x] binary_exponent_bounds [of y] assms show False by linarith
qed

lemma round_even_of_int [simp]: "round_even (of_int n) = n"
  by (simp add: round_even_def)

lemma round_even_bounds: "\<lfloor>x\<rfloor> \<le> round_even x \<and> round_even x \<le> \<lfloor>x\<rfloor> + 1"
  by (auto simp: round_even_def Let_def)

lemma round_even_mono:
  assumes "x \<le> y"
  shows "round_even x \<le> round_even y"
proof (cases "\<lfloor>x\<rfloor> = \<lfloor>y\<rfloor>")
  case True
  with assms show ?thesis by (auto simp: round_even_def Let_def)
next
  case False
  with assms have "\<lfloor>x\<rfloor> + 1 \<le> \<lfloor>y\<rfloor>" using floor_mono [OF assms] by linarith
  with round_even_bounds [of x] round_even_bounds [of y] show ?thesis by linarith
qed

lemma round_even_minus: "round_even (- x) = - round_even x"
proof (cases "x = of_int \<lfloor>x\<rfloor>")
  case True
  then show ?thesis by (metis of_int_minus round_even_of_int)
next
  case False
  then have "of_int \<lfloor>x\<rfloor> < x" using of_int_floor_le [of x] by (metis order_le_less)
  then have f: "\<lfloor>- x\<rfloor> = - \<lfloor>x\<rfloor> - 1"
    by (intro floor_unique) (auto, linarith+)
  have "x < of_int \<lfloor>x\<rfloor> + 1" by linarith
  then show ?thesis by (auto simp: round_even_def Let_def f)
qed

lemma ulp_exponent_minus [simp]: "ulp_exponent (- x) = ulp_exponent x"
  by (simp add: ulp_exponent_def)

lemma round_rat_minus: "round_rat (- x) = - round_rat x"
  by (simp add: round_rat_def round_even_minus)

lemma round_rat_0 [simp]: "round_rat 0 = 0"
  by (simp add: round_rat_def)

section \<open>Rounding is exact on the representable numbers and monotone\<close>

lemma round_rat_eq:
  "round_rat x = of_int (round_even (x / 2 powi ulp_exponent x)) * 2 powi ulp_exponent x"
  using round_even_of_int [of 0] by (simp add: round_rat_def)

lemma round_rat_upper:
  assumes "x \<le> of_int m * 2 powi ulp_exponent x"
  shows "round_rat x \<le> of_int m * 2 powi ulp_exponent x"
proof -
  have "x / 2 powi ulp_exponent x \<le> of_int m"
    using assms by (simp add: field_simps)
  then have "round_even (x / 2 powi ulp_exponent x) \<le> m"
    using round_even_mono [of _ "of_int m"] by simp
  then show ?thesis by (simp add: round_rat_eq)
qed

lemma round_rat_lower:
  assumes "of_int m * 2 powi ulp_exponent x \<le> x"
  shows "of_int m * 2 powi ulp_exponent x \<le> round_rat x"
  using round_rat_upper [of "- x" "- m"] assms by (simp add: round_rat_minus)

lemma two_powi_multiple:
  assumes "k \<le> e"
  shows "\<exists>m::int. (2::rat) powi e = of_int m * 2 powi k"
proof -
  have "(2::rat) powi e = 2 powi (e - k) * 2 powi k"
    by (simp flip: power_int_add)
  also have "(2::rat) powi (e - k) = of_int (2 ^ nat (e - k))"
    using assms by (simp add: power_int_def)
  finally show ?thesis by blast
qed

lemma representable_multiple:
  assumes "representable x"
  shows "\<exists>m. x = of_int m * 2 powi ulp_exponent x"
proof (cases "x = 0")
  case True
  then show ?thesis by (intro exI [of _ 0]) simp
next
  case False
  obtain m e where x: "x = of_int m * 2 powi e" and m: "\<bar>m\<bar> \<le> 2 ^ 53" and e: "- 1074 \<le> e"
    using assms by (auto simp: representable_def)
  show ?thesis
  proof (cases "ulp_exponent x \<le> e")
    case True
    with two_powi_multiple obtain n :: int where "(2::rat) powi e = of_int n * 2 powi ulp_exponent x"
      by blast
    then have "x = of_int (m * n) * 2 powi ulp_exponent x" using x by simp
    then show ?thesis by blast
  next
    case lt: False
    define b where "b = binary_exponent \<bar>x\<bar>"
    have u: "ulp_exponent x = b - 52" and be: "e + 53 \<le> b"
      using lt e by (auto simp: ulp_exponent_def b_def)
    have "(2::rat) powi (e + 53) \<le> 2 powi b"
      using be by (intro power_int_increasing) auto
    also have "\<dots> \<le> \<bar>x\<bar>" using False binary_exponent_bounds [of "\<bar>x\<bar>"] by (simp add: b_def)
    also have "\<bar>x\<bar> = of_int \<bar>m\<bar> * 2 powi e" by (simp add: x abs_mult)
    finally have "(2::rat) powi (e + 53) \<le> of_int \<bar>m\<bar> * 2 powi e" .
    then have "(2::rat) ^ 53 \<le> of_int \<bar>m\<bar>"
      by (simp add: power_int_add mult.commute)
    then have "(2::int) ^ 53 \<le> \<bar>m\<bar>"
      by (metis of_int_le_iff of_int_numeral of_int_power)
    with m have m53: "\<bar>m\<bar> = 2 ^ 53" by simp
    then have ax: "\<bar>x\<bar> = 2 powi (e + 53)"
      by (simp add: x abs_mult power_int_add)
    have "e + 53 = b"
    proof (rule ccontr)
      assume "e + 53 \<noteq> b"
      with be have "(2::rat) powi (e + 53) < 2 powi b" by (intro power_int_strict_increasing) auto
      with ax binary_exponent_bounds [of "\<bar>x\<bar>"] False show False by (simp add: b_def)
    qed
    then have "2 powi (e + 53) = of_int (2 ^ 52) * (2::rat) powi ulp_exponent x"
      by (simp add: u power_int_diff)
    moreover have "x = sgn x * \<bar>x\<bar>" by (simp add: sgn_mult_abs)
    moreover have "sgn x = of_int (sgn m)" by (simp add: x sgn_mult) (simp add: sgn_if)
    ultimately have "x = of_int (sgn m * 2 ^ 52) * 2 powi ulp_exponent x"
      using ax by (metis mult.assoc of_int_mult)
    then show ?thesis by blast
  qed
qed

lemma round_rat_representable: "representable x \<Longrightarrow> round_rat x = x"
  using representable_multiple [of x]
  by (metis nonzero_mult_div_cancel_right power_int_eq_0_iff round_even_of_int round_rat_eq
      zero_neq_numeral)

lemma representable_round: "representable (round_rat x)"
proof -
  define u where "u = ulp_exponent x"
  have u: "binary_exponent \<bar>x\<bar> - 52 \<le> u" "- 1074 \<le> u" by (simp_all add: u_def ulp_exponent_def)
  have "\<bar>x\<bar> \<le> 2 powi (53 + u)"
  proof (cases "x = 0")
    case False
    then have "\<bar>x\<bar> < 2 powi (binary_exponent \<bar>x\<bar> + 1)" using binary_exponent_bounds [of "\<bar>x\<bar>"] by simp
    also have "(2 :: rat) powi (binary_exponent \<bar>x\<bar> + 1) \<le> 2 powi (53 + u)"
      using u(1) by (intro power_int_increasing) auto
    finally show ?thesis by simp
  qed simp
  then have "\<bar>x / 2 powi u\<bar> \<le> of_int (2 ^ 53)"
    by (simp add: power_int_add abs_divide divide_le_eq)
  then have le: "- of_int (2 ^ 53) \<le> x / 2 powi u" "x / 2 powi u \<le> of_int (2 ^ 53)" by linarith+
  have "\<bar>round_even (x / 2 powi u)\<bar> \<le> 2 ^ 53"
    using round_even_mono [OF le(2)] round_even_mono [OF le(1)] round_even_of_int [of "- (2 ^ 53)"] round_even_of_int [of "2 ^ 53"]
    by simp
  then show ?thesis using u(2) unfolding representable_def round_rat_eq u_def by blast
qed

lemma round_rat_mono_pos:
  assumes "0 < x" "x \<le> y"
  shows "round_rat x \<le> round_rat y"
proof -
  have le: "binary_exponent x \<le> binary_exponent y"
    by (rule binary_exponent_mono) (use assms in auto)
  show ?thesis
  proof (cases "ulp_exponent x = ulp_exponent y")
    case True
    have "x / 2 powi ulp_exponent y \<le> y / 2 powi ulp_exponent y"
      using assms by (simp add: divide_right_mono)
    then have "round_even (x / 2 powi ulp_exponent y) \<le> round_even (y / 2 powi ulp_exponent y)"
      by (rule round_even_mono)
    then show ?thesis by (simp add: round_rat_eq True)
  next
    case False
    define b where "b = binary_exponent y"
    have ux: "ulp_exponent x = max (binary_exponent x - 52) (- 1074)"
      and uy: "ulp_exponent y = max (b - 52) (- 1074)"
      using assms by (simp_all add: ulp_exponent_def b_def)
    with False le have k: "ulp_exponent x \<le> b" "ulp_exponent y \<le> b" "binary_exponent x + 1 \<le> b"
      by (auto simp: b_def)
    obtain m n :: int where m: "(2::rat) powi b = of_int m * 2 powi ulp_exponent x"
      and n: "(2::rat) powi b = of_int n * 2 powi ulp_exponent y"
      using two_powi_multiple k by blast
    have "x < 2 powi (binary_exponent x + 1)" using binary_exponent_bounds assms by blast
    also have "\<dots> \<le> (2::rat) powi b" using k by (intro power_int_increasing) auto
    finally have "round_rat x \<le> 2 powi b" using round_rat_upper [of x m] m by simp
    also have "2 powi b \<le> y" using binary_exponent_bounds [of y] assms by (simp add: b_def)
    then have "2 powi b \<le> round_rat y" using round_rat_lower [of n y] n by simp
    finally show ?thesis .
  qed
qed

lemma round_rat_sign: "x \<le> 0 \<Longrightarrow> round_rat x \<le> 0" "0 \<le> x \<Longrightarrow> 0 \<le> round_rat x"
  using round_rat_upper [of x 0] round_rat_lower [of 0 x] by simp_all

lemma round_rat_mono:
  assumes "x \<le> y"
  shows "round_rat x \<le> round_rat y"
proof -
  consider "0 < x" | "x \<le> 0" "0 \<le> y" | "y < 0" by linarith
  then show ?thesis
  proof cases
    case 1
    with assms show ?thesis by (intro round_rat_mono_pos)
  next
    case 2
    then show ?thesis using round_rat_sign order_trans by blast
  next
    case 3
    with assms have "round_rat (- y) \<le> round_rat (- x)" by (intro round_rat_mono_pos) auto
    then show ?thesis by (simp add: round_rat_minus)
  qed
qed

section \<open>The interface of a rounding\<close>

text \<open>
  What the components rely on: values of the format are fixed points, rounding is monotone.
  From these, a result whose exact value lies between two values of the format stays between
  them after rounding.
\<close>

locale rounding =
  fixes rnd :: "rat \<Rightarrow> rat" and fmt :: "rat \<Rightarrow> bool"
  assumes exact: "fmt x \<Longrightarrow> rnd x = x"
    and mono: "x \<le> y \<Longrightarrow> rnd x \<le> rnd y"
begin

lemma rnd_lower: "fmt a \<Longrightarrow> a \<le> x \<Longrightarrow> a \<le> rnd x"
  using mono [of a x] by (simp add: exact)

lemma rnd_upper: "fmt b \<Longrightarrow> x \<le> b \<Longrightarrow> rnd x \<le> b"
  using mono [of x b] by (simp add: exact)

lemma rnd_between: "fmt a \<Longrightarrow> fmt b \<Longrightarrow> a \<le> x \<Longrightarrow> x \<le> b \<Longrightarrow> a \<le> rnd x \<and> rnd x \<le> b"
  by (simp add: rnd_lower rnd_upper)

lemma rnd_ratio:
  assumes "fmt 0" "fmt 1" "0 \<le> p" "p \<le> q"
  shows "0 \<le> rnd (p / q) \<and> rnd (p / q) \<le> 1"
proof (cases "q = 0")
  case True
  with assms show ?thesis by (simp add: exact)
next
  case False
  with assms have "0 < q" by simp
  with assms have "0 \<le> p / q" "p / q \<le> 1" by simp_all
  then show ?thesis using rnd_between assms by blast
qed

end

interpretation ieee: rounding round_rat representable
  by unfold_locales (simp_all add: round_rat_representable round_rat_mono)

lemma representable_int: "\<bar>m\<bar> \<le> 2 ^ 53 \<Longrightarrow> representable (of_int m)"
  unfolding representable_def by (rule exI [of _ m], rule exI [of _ 0]) simp

lemma representable_nat: "n \<le> 2 ^ 53 \<Longrightarrow> representable (of_nat n)"
  using representable_int [of "int n"] by simp

lemma representable_0 [simp]: "representable 0"
  using representable_int [of 0] by simp

lemma representable_1 [simp]: "representable 1"
  using representable_int [of 1] by simp

lemma representable_minus: "representable x \<Longrightarrow> representable (- x)"
proof -
  assume "representable x"
  then obtain m e where "x = of_int m * 2 powi e" "\<bar>m\<bar> \<le> 2 ^ 53" "- 1074 \<le> e"
    unfolding representable_def by blast
  then have "- x = of_int (- m) * 2 powi e" "\<bar>- m\<bar> \<le> 2 ^ 53" "- 1074 \<le> e" by simp_all
  then show ?thesis unfolding representable_def by blast
qed

lemma round_rat_abs_le:
  assumes "representable b" "\<bar>x\<bar> \<le> b"
  shows "\<bar>round_rat x\<bar> \<le> b"
proof -
  have "- b \<le> x" "x \<le> b" using assms(2) by (simp_all only: abs_le_iff) linarith
  then have "- b \<le> round_rat x" "round_rat x \<le> b"
    using ieee.rnd_lower [OF representable_minus] ieee.rnd_upper assms(1) by blast+
  then show ?thesis by (simp add: abs_le_iff)
qed

lemma representable_scaled:
  "\<bar>m\<bar> \<le> 2 ^ 53 \<Longrightarrow> k \<le> 1074 \<Longrightarrow> representable (of_int m / 2 ^ k)"
  unfolding representable_def
  by (rule exI [of _ m], rule exI [of _ "- int k"]) (simp add: power_int_minus field_simps)

section \<open>Doubles\<close>

datatype double = DFin rat | DNegZero | DInf bool | DNaN bool

text \<open>The flag of \<open>DInf\<close> and \<open>DNaN\<close> is the sign bit.\<close>

definition to_double :: "rat \<Rightarrow> double" where
  "to_double x =
     (let r = round_rat x
      in if 2 ^ 1024 \<le> \<bar>r\<bar> then DInf (x < 0)
         else if r = 0 \<and> x < 0 then DNegZero
         else DFin r)"

fun dsign :: "double \<Rightarrow> bool" where
  "dsign (DFin r) = (r < 0)"
| "dsign DNegZero = True"
| "dsign (DInf s) = s"
| "dsign (DNaN s) = s"

fun dval :: "double \<Rightarrow> rat" where
  "dval (DFin r) = r"
| "dval _ = 0"

fun dfinite :: "double \<Rightarrow> bool" where
  "dfinite (DFin r) = True"
| "dfinite DNegZero = True"
| "dfinite _ = False"

fun disnan :: "double \<Rightarrow> bool" where
  "disnan (DNaN s) = True"
| "disnan _ = False"

text \<open>The NaN of an invalid operation is the \<open>real indefinite\<close> of the x86-64 SSE unit, sign set.\<close>

definition default_nan :: double where
  "default_nan = DNaN True"

fun dneg :: "double \<Rightarrow> double" where
  "dneg (DFin r) = (if r = 0 then DNegZero else DFin (- r))"
| "dneg DNegZero = DFin 0"
| "dneg (DInf s) = DInf (\<not> s)"
| "dneg (DNaN s) = DNaN (\<not> s)"

fun dadd :: "double \<Rightarrow> double \<Rightarrow> double" where
  "dadd (DNaN s) _ = DNaN s"
| "dadd _ (DNaN s) = DNaN s"
| "dadd (DInf s) (DInf t) = (if s = t then DInf s else default_nan)"
| "dadd (DInf s) _ = DInf s"
| "dadd _ (DInf t) = DInf t"
| "dadd DNegZero DNegZero = DNegZero"
| "dadd a b = to_double (dval a + dval b)"

definition dsub :: "double \<Rightarrow> double \<Rightarrow> double" where
  "dsub a b = (case b of DNaN s \<Rightarrow> (case a of DNaN t \<Rightarrow> DNaN t | _ \<Rightarrow> DNaN s) | _ \<Rightarrow> dadd a (dneg b))"

definition signed_zero :: "bool \<Rightarrow> double" where
  "signed_zero s = (if s then DNegZero else DFin 0)"

fun ddiv :: "double \<Rightarrow> double \<Rightarrow> double" where
  "ddiv (DNaN s) _ = DNaN s"
| "ddiv _ (DNaN s) = DNaN s"
| "ddiv (DInf s) (DInf t) = default_nan"
| "ddiv (DInf s) b = DInf (s \<noteq> dsign b)"
| "ddiv a (DInf t) = signed_zero (dsign a \<noteq> t)"
| "ddiv a b =
     (if dval b = 0 then (if dval a = 0 then default_nan else DInf (dsign a \<noteq> dsign b))
      else if dval a = 0 then signed_zero (dsign a \<noteq> dsign b)
      else to_double (dval a / dval b))"

text \<open>Comparison: false as soon as one side is a NaN.\<close>

fun dless :: "double \<Rightarrow> double \<Rightarrow> bool" where
  "dless (DNaN _) _ = False"
| "dless _ (DNaN _) = False"
| "dless (DInf s) (DInf t) = (s \<and> \<not> t)"
| "dless (DInf s) _ = s"
| "dless _ (DInf t) = (\<not> t)"
| "dless a b = (dval a < dval b)"

definition double_of_nat :: "nat \<Rightarrow> double" where
  "double_of_nat n = to_double (of_nat n)"

lemma to_double_exact: "representable x \<Longrightarrow> \<bar>x\<bar> < 2 ^ 1024 \<Longrightarrow> to_double x = DFin x"
  by (auto simp: to_double_def round_rat_representable)

lemma to_double_between:
  assumes "representable a" "representable b" "0 \<le> a" "a \<le> x" "x \<le> b" "b < 2 ^ 1024"
  shows "to_double x = DFin (round_rat x) \<and> a \<le> round_rat x \<and> round_rat x \<le> b"
proof -
  have "a \<le> round_rat x \<and> round_rat x \<le> b"
    using assms ieee.rnd_between by blast
  moreover from this assms have "\<not> x < 0" "\<not> 2 ^ 1024 \<le> \<bar>round_rat x\<bar>" by auto
  ultimately show ?thesis by (simp add: to_double_def)
qed

lemma to_double_nat: "n \<le> 2 ^ 53 \<Longrightarrow> to_double (of_nat n) = DFin (of_nat n)"
proof -
  assume n: "n \<le> 2 ^ 53"
  then have "(of_nat n :: rat) \<le> of_nat (2 ^ 53)" by (simp only: of_nat_le_iff)
  also have "\<dots> < 2 ^ 1024" by simp
  finally show ?thesis using n by (simp add: to_double_exact representable_nat)
qed

lemma double_of_nat_exact [simp]: "n \<le> 2 ^ 53 \<Longrightarrow> double_of_nat n = DFin (of_nat n)"
  by (simp add: double_of_nat_def to_double_nat)

lemma double_of_u32 [simp]: "double_of_nat (unat (w :: u32)) = DFin (of_nat (unat w))"
  using unat_bound [of w] by (intro double_of_nat_exact) simp

text \<open>Sums of values that are integers over the same power of two, while they fit in 53 bits.\<close>

lemma small_scaled: "m \<le> 2 ^ 53 \<Longrightarrow> \<bar>(of_nat m :: rat) / 2 ^ k\<bar> < 2 ^ 1024"
proof -
  assume m: "m \<le> 2 ^ 53"
  have "(of_nat m :: rat) / 2 ^ k \<le> of_nat m / 1" by (intro divide_left_mono) auto
  also have "\<dots> = of_nat m" by simp
  also have "\<dots> \<le> of_nat (2 ^ 53)" using m by (simp only: of_nat_le_iff)
  finally show ?thesis by (simp add: abs_of_nonneg)
qed

lemma to_double_scaled:
  assumes "m \<le> 2 ^ 53" "k \<le> 1074"
  shows "to_double (of_nat m / 2 ^ k) = DFin (of_nat m / 2 ^ k)"
proof -
  have "representable (of_int (int m) / 2 ^ k)"
    by (rule representable_scaled) (use assms in auto)
  then show ?thesis using to_double_exact small_scaled [OF assms(1)] by simp
qed

lemma dadd_scaled:
  "m + n \<le> 2 ^ 53 \<Longrightarrow> k \<le> 1074 \<Longrightarrow>
   dadd (DFin (of_nat m / 2 ^ k)) (DFin (of_nat n / 2 ^ k)) = DFin (of_nat (m + n) / 2 ^ k)"
  using to_double_scaled [of "m + n" k] by (simp add: add_divide_distrib)

lemma ddiv_pow2:
  "m \<le> 2 ^ 53 \<Longrightarrow> k \<le> 1074 \<Longrightarrow> ddiv (DFin (of_nat m)) (DFin (2 ^ k)) = DFin (of_nat m / 2 ^ k)"
  by (cases "m = 0") (simp_all add: signed_zero_def to_double_scaled)

section \<open>Decimal output with a fixed number of places\<close>

text \<open>
  \<open>fmt\<close>'s \<open>{:.2f}\<close> and \<open>printf\<close>'s \<open>%f\<close> (\<open>std::to_string\<close>, six places) print the decimal
  number of that many places nearest to the exact value, ties to even, with a minus sign for
  every value whose sign bit is set, and \<open>nan\<close>, \<open>inf\<close> for the others.
\<close>

definition scaled :: "nat \<Rightarrow> rat \<Rightarrow> nat" where
  "scaled p x = nat (round_even (\<bar>x\<bar> * 10 ^ p))"

definition fixed_digits :: "nat \<Rightarrow> nat \<Rightarrow> string" where
  "fixed_digits p n = dec_str (n div 10 ^ p) @ ''.'' @ dec_pad p n"

definition fmt_fixed :: "nat \<Rightarrow> double \<Rightarrow> string" where
  "fmt_fixed p d =
     (if dsign d then ''-'' else []) @
     (if disnan d then ''nan'' else if dfinite d then fixed_digits p (scaled p (dval d)) else ''inf'')"

lemma round_even_nearest: "\<bar>of_int (round_even x) - x\<bar> \<le> 1 / 2"
  by (auto simp: round_even_def Let_def abs_if) linarith+

lemma round_even_nonneg: "0 \<le> x \<Longrightarrow> 0 \<le> round_even x"
  using round_even_mono [of 0 x] round_even_of_int [of 0] by simp

lemma scaled_nearest: "0 \<le> x \<Longrightarrow> \<bar>of_nat (scaled p x) / 10 ^ p - x\<bar> \<le> 1 / (2 * 10 ^ p)"
proof -
  assume x: "0 \<le> x"
  let ?y = "x * 10 ^ p"
  have "of_nat (scaled p x) = (of_int (round_even ?y) :: rat)"
    using x round_even_nonneg [of ?y] by (simp add: scaled_def)
  then have "of_nat (scaled p x) / 10 ^ p - x = (of_int (round_even ?y) - ?y) / 10 ^ p"
    by (simp add: diff_divide_distrib)
  then have "\<bar>of_nat (scaled p x) / 10 ^ p - x\<bar> = \<bar>of_int (round_even ?y) - ?y\<bar> / 10 ^ p"
    by (simp add: abs_divide)
  also have "\<dots> \<le> 1 / 2 / 10 ^ p"
    by (intro divide_right_mono round_even_nearest) simp
  finally show ?thesis by simp
qed

lemma scaled_le: "0 \<le> x \<Longrightarrow> x \<le> of_nat b \<Longrightarrow> scaled p x \<le> b * 10 ^ p"
proof -
  assume x: "0 \<le> x" "x \<le> of_nat b"
  then have "x * 10 ^ p \<le> of_int (int (b * 10 ^ p))"
    by (simp add: mult_right_mono)
  then have "round_even (x * 10 ^ p) \<le> int (b * 10 ^ p)"
    using round_even_mono round_even_of_int by metis
  with x show ?thesis by (simp add: scaled_def nat_le_iff)
qed

lemma fmt_fixed_pos:
  "0 \<le> r \<Longrightarrow> fmt_fixed p (DFin r) = fixed_digits p (scaled p r)"
  by (simp add: fmt_fixed_def)

section \<open>Ratios of 64-bit counters\<close>

lemma double_of_nat_u64: "n < 2 ^ 64 \<Longrightarrow> double_of_nat n = DFin (round_rat (of_nat n)) \<and> 0 \<le> round_rat (of_nat n)"
proof -
  assume n: "n < 2 ^ 64"
  have "representable (2 ^ 64)"
    unfolding representable_def by (rule exI [of _ 1], rule exI [of _ 64]) simp
  moreover have "(of_nat n :: rat) \<le> of_nat (2 ^ 64)" using n by (simp only: of_nat_le_iff)
  ultimately show ?thesis
    using to_double_between [of 0 "2 ^ 64" "of_nat n"] by (simp add: double_of_nat_def)
qed

lemma round_rat_pos_nat: "0 < n \<Longrightarrow> 1 \<le> round_rat (of_nat n)"
  by (intro ieee.rnd_lower) auto

lemma ratio_of_counters:
  assumes "p \<le> q" "0 < q" "q < 2 ^ 64"
  defines "r \<equiv> round_rat (round_rat (of_nat p) / round_rat (of_nat q))"
  shows "ddiv (double_of_nat p) (double_of_nat q) = DFin r \<and> 0 \<le> r \<and> r \<le> 1"
proof -
  let ?p = "round_rat (of_nat p)" and ?q = "round_rat (of_nat q)"
  have p: "double_of_nat p = DFin ?p" "0 \<le> ?p" and q: "double_of_nat q = DFin ?q" "1 \<le> ?q"
    using assms double_of_nat_u64 [of p] double_of_nat_u64 [of q] round_rat_pos_nat [of q] by auto
  have "?p \<le> ?q" using assms(1) by (intro round_rat_mono) simp
  then have b: "0 \<le> r \<and> r \<le> 1"
    unfolding r_def using p(2) by (intro ieee.rnd_ratio) auto
  have "ddiv (DFin ?p) (DFin ?q) = DFin r"
  proof (cases "?p = 0")
    case True
    then show ?thesis using q(2) by (simp add: signed_zero_def r_def)
  next
    case False
    have "0 \<le> ?p / ?q" "?p / ?q \<le> 1" using p(2) q(2) \<open>?p \<le> ?q\<close> by simp_all
    then have "to_double (?p / ?q) = DFin r"
      unfolding r_def using to_double_between [of 0 1 "?p / ?q"] by simp
    then show ?thesis using False q(2) by simp
  qed
  with b p q show ?thesis by simp
qed

lemma fmt_fixed_ratio:
  assumes "0 \<le> r" "r \<le> 1"
  shows "fmt_fixed 2 (DFin r) = fixed_digits 2 (scaled 2 r) \<and> scaled 2 r \<le> 100
    \<and> \<bar>of_nat (scaled 2 r) / 100 - r\<bar> \<le> 1 / 200"
  using assms scaled_le [of r 1 2] scaled_nearest [of r 2] by (simp add: fmt_fixed_pos)

end
