(* ===== verification/Cstdio.thy ===== *)
theory Cstdio
  imports Prelude Decimal Ieee_Double
begin

text \<open>
  The part of the C and C++ standard libraries the monitors read their data with: C strings,
  \<open>strncmp\<close>, input streams with their end-of-file flag, \<open>fgets\<close>, the \<open>scanf\<close> conversions
  \<open>%s\<close>, \<open>%u\<close>/\<open>%lu\<close> and \<open>%lf\<close>, and \<open>std::string\<close>'s \<open>find\<close> and \<open>substr\<close>. Each scanner
  returns the value and the unread input, or \<open>None\<close> where the conversion fails. The
  hexadecimal, \<open>inf\<close> and \<open>nan\<close> spellings \<open>%lf\<close> also accepts are left out.
\<close>

section \<open>Characters and C strings\<close>

definition is_space :: "char \<Rightarrow> bool" where
  "is_space c \<longleftrightarrow> of_char c = (32::nat) \<or> ((9::nat) \<le> of_char c \<and> (of_char c :: nat) \<le> 13)"

definition newline :: char where
  "newline = CHR 0x0A"

definition cstr :: "string \<Rightarrow> string" where
  "cstr s = takeWhile (\<lambda>c. c \<noteq> CHR 0x00) s"

definition strncmp_eq :: "string \<Rightarrow> string \<Rightarrow> nat \<Rightarrow> bool" where
  "strncmp_eq a b n \<longleftrightarrow> take n (cstr a) = take n (cstr b)"

definition skip_ws :: "string \<Rightarrow> string" where
  "skip_ws s = dropWhile is_space s"

text \<open>The unread input after a token: nothing, or something that starts with white space.\<close>

definition delimited :: "string \<Rightarrow> bool" where
  "delimited s \<longleftrightarrow> s = [] \<or> is_space (hd s)"

definition token :: "string \<Rightarrow> bool" where
  "token t \<longleftrightarrow> t \<noteq> [] \<and> (\<forall>c\<in>set t. \<not> is_space c)"

section \<open>Streams\<close>

record stream =
  pending :: string
  at_eof :: bool

definition open_stream :: "string \<Rightarrow> stream" where
  "open_stream s = \<lparr>pending = s, at_eof = False\<rparr>"

fun take_line :: "nat \<Rightarrow> string \<Rightarrow> string \<times> string" where
  "take_line 0 s = ([], s)"
| "take_line (Suc n) [] = ([], [])"
| "take_line (Suc n) (c # cs) =
     (if c = newline then ([c], cs)
      else (case take_line n cs of (l, r) \<Rightarrow> (c # l, r)))"

text \<open>
  \<open>fgets(buf, k, fp)\<close>: at most \<open>k - 1\<close> characters, up to and with the first newline;
  \<open>NULL\<close> (here \<open>None\<close>) and no character stored when the input is exhausted. The end-of-file
  flag is set exactly when the call ran into the end of the input.
\<close>

definition fgets :: "nat \<Rightarrow> stream \<Rightarrow> string option \<times> stream" where
  "fgets k st =
     (case take_line (k - 1) (pending st) of (l, r) \<Rightarrow>
        if l = [] then (None, st\<lparr>at_eof := True\<rparr>)
        else (Some l, st\<lparr>pending := r,
                         at_eof := (at_eof st \<or> (length l < k - 1 \<and> last l \<noteq> newline))\<rparr>))"

section \<open>The conversions of scanf\<close>

definition scan_str :: "string \<Rightarrow> (string \<times> string) option" where
  "scan_str s =
     (let t = skip_ws s
      in if t = [] then None
         else Some (takeWhile (\<lambda>c. \<not> is_space c) t, dropWhile (\<lambda>c. \<not> is_space c) t))"

fun scan_sign :: "string \<Rightarrow> bool \<times> string" where
  "scan_sign (c # s) =
     (if c = CHR ''-'' then (True, s) else if c = CHR ''+'' then (False, s) else (False, c # s))"
| "scan_sign [] = (False, [])"

text \<open>\<open>%lu\<close>, as \<open>strtoul\<close>: saturates at \<open>ULONG_MAX\<close>, a minus sign negates modulo \<open>2\<^sup>6\<^sup>4\<close>.\<close>

definition scan_unsigned :: "string \<Rightarrow> (u64 \<times> string) option" where
  "scan_unsigned s =
     (case scan_sign (skip_ws s) of (neg, u) \<Rightarrow>
        let ds = takeWhile is_digit u; v = dec_val ds
        in if ds = [] then None
           else Some (if 2 ^ 64 \<le> v then - 1 else if neg then - of_nat v else of_nat v,
                      dropWhile is_digit u))"

text \<open>\<open>%lf\<close>: digits with an optional point, then an optional exponent.\<close>

definition scan_exponent :: "string \<Rightarrow> int \<times> string" where
  "scan_exponent s =
     (if s \<noteq> [] \<and> (hd s = CHR ''e'' \<or> hd s = CHR ''E'')
      then (case scan_sign (tl s) of (neg, u) \<Rightarrow>
              let ds = takeWhile is_digit u
              in if ds = [] then (0, s)
                 else ((if neg then - int (dec_val ds) else int (dec_val ds)), dropWhile is_digit u))
      else (0, s))"

definition scan_fraction :: "string \<Rightarrow> string \<times> string" where
  "scan_fraction s =
     (if s \<noteq> [] \<and> hd s = CHR ''.''
      then (takeWhile is_digit (tl s), dropWhile is_digit (tl s)) else ([], s))"

definition signed_double :: "bool \<Rightarrow> rat \<Rightarrow> double" where
  "signed_double neg x = (if neg then dneg (to_double x) else to_double x)"

definition scan_double :: "string \<Rightarrow> (double \<times> string) option" where
  "scan_double s =
     (case scan_sign (skip_ws s) of (neg, u) \<Rightarrow>
      let ip = takeWhile is_digit u
      in case scan_fraction (dropWhile is_digit u) of (fp, u') \<Rightarrow>
         if ip @ fp = [] then None
         else (case scan_exponent u' of (e, rest) \<Rightarrow>
                Some (signed_double neg (of_nat (dec_val (ip @ fp)) * 10 powi (e - int (length fp))), rest)))"

section \<open>std::string\<close>

fun find_char :: "char \<Rightarrow> string \<Rightarrow> nat option" where
  "find_char c [] = None"
| "find_char c (x # xs) = (if x = c then Some 0 else map_option Suc (find_char c xs))"

text \<open>\<open>s.substr(s.find(c) + 1)\<close>: \<open>npos + 1\<close> wraps to 0, so without a \<open>c\<close> it is the whole of \<open>s\<close>.\<close>

definition substr_after :: "char \<Rightarrow> string \<Rightarrow> string" where
  "substr_after c s = (case find_char c s of None \<Rightarrow> drop 0 s | Some i \<Rightarrow> drop (i + 1) s)"

section \<open>Facts about the scanners\<close>

lemma is_digit_not_space: "is_digit c \<Longrightarrow> \<not> is_space c"
  by (auto simp: is_digit_def is_space_def)

lemma not_space_minus_plus [simp]:
  "\<not> is_space (CHR ''-'')" "\<not> is_space (CHR ''+'')" "is_space (CHR '' '')" "is_space newline"
  "is_space (CHR 0x09)"
  by (simp_all add: is_space_def newline_def)

lemma is_digit_not_sign: "is_digit c \<Longrightarrow> c \<noteq> CHR ''-'' \<and> c \<noteq> CHR ''+''"
  by (auto simp: is_digit_def)

lemma skip_ws_idem [simp]: "skip_ws (skip_ws s) = skip_ws s"
  by (simp add: skip_ws_def)

lemma skip_ws_blanks: "\<forall>c\<in>set ws. is_space c \<Longrightarrow> skip_ws (ws @ s) = skip_ws s"
  unfolding skip_ws_def by (rule dropWhile_all)

lemma skip_ws_token: "token t \<Longrightarrow> skip_ws (t @ s) = t @ s"
  by (cases t) (auto simp: skip_ws_def token_def)

lemma takeWhile_delimited:
  "\<forall>c\<in>set t. \<not> is_space c \<Longrightarrow> delimited s \<Longrightarrow>
   takeWhile (\<lambda>c. \<not> is_space c) (t @ s) = t \<and> dropWhile (\<lambda>c. \<not> is_space c) (t @ s) = s"
  by (cases s) (auto simp: delimited_def takeWhile_append dropWhile_append takeWhile_all)

lemma delimited_stop:
  "delimited s \<Longrightarrow> takeWhile (\<lambda>c. \<not> is_space c) s = [] \<and> dropWhile (\<lambda>c. \<not> is_space c) s = s"
  by (cases s) (auto simp: delimited_def)

lemma scan_str_token [cstring_simps]:
  "\<forall>c\<in>set ws. is_space c \<Longrightarrow> token t \<Longrightarrow> delimited s \<Longrightarrow> scan_str (ws @ t @ s) = Some (t, s)"
  by (auto simp: scan_str_def skip_ws_blanks skip_ws_token takeWhile_delimited delimited_stop token_def)

lemma scan_str_blank: "\<forall>c\<in>set ws. is_space c \<Longrightarrow> scan_str ws = None"
  by (simp add: scan_str_def skip_ws_def)

lemma scan_str_Some:
  assumes "scan_str s = Some (t, r)"
  shows "token t \<and> delimited r \<and> length r < length s"
proof -
  have ne: "skip_ws s \<noteq> []" and t: "t = takeWhile (\<lambda>c. \<not> is_space c) (skip_ws s)"
    and r: "r = dropWhile (\<lambda>c. \<not> is_space c) (skip_ws s)"
    using assms by (auto simp: scan_str_def Let_def split: if_splits)
  have hd: "\<not> is_space (hd (skip_ws s))" using ne by (simp add: skip_ws_def hd_dropWhile)
  with ne t have tne: "t \<noteq> []" by (cases "skip_ws s") auto
  then have "0 < length t" by simp
  moreover have "length (skip_ws s) = length t + length r"
    by (simp add: t r flip: length_append)
  moreover have "length (skip_ws s) \<le> length s"
    by (simp add: skip_ws_def length_dropWhile_le)
  moreover have "delimited r"
    unfolding delimited_def r using hd_dropWhile by blast
  ultimately have "length r < length s" "delimited r" by linarith+
  with tne show ?thesis by (auto simp: token_def t dest: set_takeWhile_P)
qed

lemma token_dec_str [simp]: "token (dec_str n)"
  by (auto simp: token_def dest: dec_str_digits is_digit_not_space)

lemma scan_sign_dec_str: "scan_sign (dec_str n @ s) = (False, dec_str n @ s)"
proof (cases "dec_str n")
  case Nil
  then show ?thesis by simp
next
  case (Cons c t)
  then have "is_digit c" using dec_str_digits [of c n] by simp
  with Cons show ?thesis using is_digit_not_sign [of c] by simp
qed

lemma delimited_not_digit: "delimited s \<Longrightarrow> s = [] \<or> \<not> is_digit (hd s)"
  using is_digit_not_space by (auto simp: delimited_def)

lemma digits_delimited:
  "s = [] \<or> \<not> is_digit (hd s) \<Longrightarrow>
   takeWhile is_digit (dec_str n @ s) = dec_str n \<and> dropWhile is_digit (dec_str n @ s) = s"
  using dec_str_digits [of _ n]
  by (cases s) (auto simp: takeWhile_append dropWhile_append takeWhile_all)

lemma scan_unsigned_dec [cstring_simps]:
  "\<forall>c\<in>set ws. is_space c \<Longrightarrow> n < 2 ^ 64 \<Longrightarrow> delimited s \<Longrightarrow>
   scan_unsigned (ws @ dec_str n @ s) = Some (of_nat n, s)"
  using digits_delimited [OF delimited_not_digit, of s n]
  by (simp add: scan_unsigned_def skip_ws_blanks skip_ws_token scan_sign_dec_str)

lemma scan_double_dec [cstring_simps]:
  "\<forall>c\<in>set ws. is_space c \<Longrightarrow> delimited s \<Longrightarrow>
   scan_double (ws @ dec_str n @ s) = Some (double_of_nat n, s)"
proof -
  assume ws: "\<forall>c\<in>set ws. is_space c" and s: "delimited s"
  have f: "scan_fraction s = ([], s)" and e: "scan_exponent s = (0, s)"
    using s by (auto simp: scan_fraction_def scan_exponent_def delimited_def is_space_def)
  show ?thesis
    using digits_delimited [OF delimited_not_digit [OF s], of n] ws
    by (simp add: scan_double_def skip_ws_blanks skip_ws_token scan_sign_dec_str f e
        signed_double_def double_of_nat_def)
qed

lemma length_take_line: "take_line n s = (l, r) \<Longrightarrow> s = l @ r"
  by (induction n s arbitrary: l r rule: take_line.induct) (auto split: if_splits prod.splits)

lemma take_line_whole [cstring_simps]:
  "newline \<notin> set l \<Longrightarrow> length l < n \<Longrightarrow> take_line n (l @ newline # s) = (l @ [newline], s)"
  by (induction l arbitrary: n) (auto simp: gr0_conv_Suc less_Suc_eq_0_disj, case_tac n, auto)

lemma fgets_line [cstring_simps]:
  "newline \<notin> set l \<Longrightarrow> length l + 1 < k \<Longrightarrow> pending st = l @ newline # s \<Longrightarrow>
   fgets k st = (Some (l @ [newline]), st\<lparr>pending := s\<rparr>)"
  using take_line_whole [of l "k - 1" s] by (simp add: fgets_def)

lemma fgets_eof: "pending st = [] \<Longrightarrow> 1 < k \<Longrightarrow> fgets k st = (None, st\<lparr>at_eof := True\<rparr>)"
  by (cases "k - 1") (auto simp: fgets_def)

lemma fgets_progress: "fgets k st = (Some l, st') \<Longrightarrow> length (pending st') < length (pending st)"
  by (auto simp: fgets_def split: prod.splits if_splits dest!: length_take_line)

lemma fgets_None: "fgets k st = (None, st') \<Longrightarrow> st' = st\<lparr>at_eof := True\<rparr>"
  by (auto simp: fgets_def split: prod.splits if_splits)

lemma strncmp_eq_prefix: "strncmp_eq a b n \<longleftrightarrow> take n (cstr a) = take n (cstr b)"
  by (simp add: strncmp_eq_def)

lemma find_char_split: "c \<notin> set a \<Longrightarrow> find_char c (a @ c # b) = Some (length a)"
  by (induction a) auto

lemma substr_after_split [cstring_simps]: "c \<notin> set a \<Longrightarrow> substr_after c (a @ c # b) = b"
  by (simp add: substr_after_def find_char_split)

lemma cstr_id [cstring_simps]: "CHR 0x00 \<notin> set s \<Longrightarrow> cstr s = s"
  unfolding cstr_def by (rule takeWhile_all) auto

lemma dec_str_no_special: "\<not> is_digit c \<Longrightarrow> c \<notin> set (dec_str n)"
  using dec_str_digits by blast

lemma not_digit_special [simp]:
  "\<not> is_digit newline" "\<not> is_digit (CHR 0x00)" "\<not> is_digit (CHR '':'')" "\<not> is_digit (CHR '' '')"
  "\<not> is_digit (CHR ''.'')" "\<not> is_digit (CHR 0x0A)"
  by (simp_all add: is_digit_def newline_def)

text \<open>
  A line \<open>key: \<dots>\<close> starts with a given \<open>key:\<close> exactly when its key is that one: keys carry no
  colon themselves.
\<close>

lemma strncmp_eq_key:
  assumes "CHR '':'' \<notin> set n" "CHR '':'' \<notin> set key" "CHR 0x00 \<notin> set (n @ r @ key)"
  shows "strncmp_eq (n @ '':'' @ r) (key @ '':'') (Suc (length key)) \<longleftrightarrow> n = key"
proof
  assume "strncmp_eq (n @ '':'' @ r) (key @ '':'') (Suc (length key))"
  then have t: "take (Suc (length key)) (n @ '':'' @ r) = key @ '':''"
    using assms by (simp add: strncmp_eq_def cstr_id)
  have "n @ '':'' @ r = key @ '':'' @ drop (Suc (length key)) (n @ '':'' @ r)"
    using append_take_drop_id [of "Suc (length key)" "n @ '':'' @ r"] t by (metis append.assoc)
  moreover have "takeWhile (\<lambda>c. c \<noteq> CHR '':'') (n @ CHR '':'' # r) = n"
    by (rule takeWhile_append_stop) (use assms in auto)
  moreover have "takeWhile (\<lambda>c. c \<noteq> CHR '':'') (key @ CHR '':'' # x) = key" for x
    by (rule takeWhile_append_stop) (use assms in auto)
  ultimately show "n = key" by (metis append_Cons append_Nil)
next
  assume "n = key"
  with assms show "strncmp_eq (n @ '':'' @ r) (key @ '':'') (Suc (length key))"
    by (simp add: strncmp_eq_def cstr_id)
qed

section \<open>Texts of numbers\<close>

text \<open>A text denotes a double when \<open>%lf\<close> reads exactly it, after any blanks and before a delimiter.\<close>

definition denotes :: "string \<Rightarrow> double \<Rightarrow> bool" where
  "denotes t d \<longleftrightarrow> token t \<and> (\<forall>ws s. (\<forall>c\<in>set ws. is_space c) \<longrightarrow> delimited s \<longrightarrow>
     scan_double (ws @ t @ s) = Some (d, s))"

lemma denotesD:
  "denotes t d \<Longrightarrow> \<forall>c\<in>set ws. is_space c \<Longrightarrow> delimited s \<Longrightarrow> scan_double (ws @ t @ s) = Some (d, s)"
  by (simp add: denotes_def)

lemma denotes_dec [simp]: "denotes (dec_str n) (double_of_nat n)"
  using scan_double_dec by (simp add: denotes_def)

lemma scan_exponent_delimited: "delimited s \<Longrightarrow> scan_exponent s = (0, s)"
  by (auto simp: scan_exponent_def delimited_def is_space_def)

lemma takeWhile_digits_stop:
  "\<forall>c\<in>set t. is_digit c \<Longrightarrow> s = [] \<or> \<not> is_digit (hd s) \<Longrightarrow>
   takeWhile is_digit (t @ s) = t \<and> dropWhile is_digit (t @ s) = s"
  by (cases s) (auto simp: takeWhile_append dropWhile_append takeWhile_all)

lemma denotes_fixed: "0 < p \<Longrightarrow> denotes (fixed_digits p n) (to_double (of_nat n / 10 ^ p))"
  unfolding denotes_def
proof (intro conjI allI impI)
  show "token (fixed_digits p n)"
    using token_dec_str dec_pad_digits is_digit_not_space
    by (auto simp: token_def fixed_digits_def is_space_def)
  fix ws s assume ws: "\<forall>c\<in>set ws. is_space c" and s: "delimited s"
  let ?i = "dec_str (n div 10 ^ p)" and ?f = "dec_pad p n"
  have i: "scan_sign (skip_ws (ws @ (?i @ ''.'' @ ?f) @ s)) = (False, ?i @ ''.'' @ ?f @ s)"
    using ws by (simp add: skip_ws_blanks skip_ws_token scan_sign_dec_str)
  have t: "takeWhile is_digit (?i @ ''.'' @ ?f @ s) = ?i \<and> dropWhile is_digit (?i @ ''.'' @ ?f @ s) = ''.'' @ ?f @ s"
    by (rule digits_delimited) simp
  have "takeWhile is_digit (?f @ s) = ?f \<and> dropWhile is_digit (?f @ s) = s"
    using dec_pad_digits delimited_not_digit [OF s] by (intro takeWhile_digits_stop) blast+
  then have f: "scan_fraction (''.'' @ ?f @ s) = (?f, s)"
    by (simp add: scan_fraction_def)
  have v: "dec_val (?i @ ?f) = n"
    by (simp add: dec_val_append dec_val_dec_pad div_mult_mod_eq)
  show "scan_double (ws @ fixed_digits p n @ s) = Some (to_double (of_nat n / 10 ^ p), s)"
    using t f v scan_exponent_delimited [OF s]
    by (simp add: scan_double_def fixed_digits_def i [simplified] signed_double_def power_int_minus divide_inverse)
qed

lemma length_scan_sign: "scan_sign s = (b, t) \<Longrightarrow> length t \<le> length s"
  by (induction s rule: scan_sign.induct) (auto split: if_splits)

lemma length_scan_exponent: "scan_exponent s = (e, t) \<Longrightarrow> length t \<le> length s"
proof -
  assume e: "scan_exponent s = (e, t)"
  obtain neg u where u: "scan_sign (tl s) = (neg, u)" by fastforce
  have "t = s \<or> t = dropWhile is_digit u"
    using e u by (auto simp: scan_exponent_def Let_def split: if_splits)
  moreover have "length (dropWhile is_digit u) \<le> length u" by (rule length_dropWhile_le)
  moreover have "length u \<le> length (tl s)" using u by (rule length_scan_sign)
  moreover have "length (tl s) \<le> length s" by simp
  ultimately show ?thesis by (metis le_refl le_trans)
qed

lemma length_scan_double: "scan_double s = Some (d, r) \<Longrightarrow> length r \<le> length s"
proof -
  assume d: "scan_double s = Some (d, r)"
  obtain neg u where u: "scan_sign (skip_ws s) = (neg, u)" by fastforce
  obtain fp u' where f: "scan_fraction (dropWhile is_digit u) = (fp, u')" by fastforce
  obtain e rest where e: "scan_exponent u' = (e, rest)" by fastforce
  have "length r \<le> length u'"
    using length_scan_exponent [OF e] d u f e by (auto simp: scan_double_def Let_def split: if_splits)
  also have "\<dots> \<le> length (dropWhile is_digit u)"
    using f length_dropWhile_le [of is_digit "tl (dropWhile is_digit u)"]
    by (auto simp: scan_fraction_def split: if_splits)
  also have "\<dots> \<le> length u" by (rule length_dropWhile_le)
  also have "\<dots> \<le> length (skip_ws s)" using u by (rule length_scan_sign)
  also have "\<dots> \<le> length s" by (simp add: skip_ws_def length_dropWhile_le)
  finally show ?thesis .
qed

section \<open>Texts of lines\<close>

text \<open>A line that fits the readers' buffers, and a text made of such lines.\<close>

definition plain_line :: "string \<Rightarrow> bool" where
  "plain_line l \<longleftrightarrow> newline \<notin> set l \<and> CHR 0x00 \<notin> set l \<and> length l < 1022"

definition unlines :: "string list \<Rightarrow> string" where
  "unlines ls = concat (map (\<lambda>l. l @ [newline]) ls)"

lemma cstr_line: "plain_line l \<Longrightarrow> cstr (l @ [newline]) = l @ [newline]"
  by (rule cstr_id) (simp add: plain_line_def newline_def)

lemma strncmp_line:
  assumes "plain_line l" "newline \<notin> set k" "CHR 0x00 \<notin> set k" "n = length k"
  shows "strncmp_eq k (l @ [newline]) n \<longleftrightarrow> take n l = k"
proof -
  have "strncmp_eq k (l @ [newline]) n \<longleftrightarrow> k = take n (l @ [newline])"
    using assms cstr_line [of l] by (simp add: strncmp_eq_def cstr_id)
  also have "\<dots> \<longleftrightarrow> take n l = k"
    using assms by (cases "n - length l") (auto dest: arg_cong [where f = set])
  finally show ?thesis .
qed

end
