(* ===== verification/Common.thy ===== *)
theory Common
  imports Prelude Cstdio
begin

text \<open>
  \<open>Common.h\<close>: the row of \<open>df\<close> output (\<open>DFStructInfo\<close>) and \<open>string_trimmed\<close>, as the source
  has it (two loops that move an end and a begin iterator) and against the reference that
  strips a list of characters from both sides.
\<close>

section \<open>DFStructInfo\<close>

text \<open>The character arrays hold the C string the code copies into them.\<close>

record DFStructInfo =
  fileSystem :: string
  blocks :: double
  used :: double
  available :: double
  useRate :: string
  mounted :: string

section \<open>string\_trimmed\<close>

definition isSpace :: "char \<Rightarrow> bool" where
  "isSpace ucs4 \<longleftrightarrow> of_char ucs4 = (0x20::nat) \<or> ((of_char ucs4::nat) \<le> 0x0d \<and> (0x09::nat) \<le> of_char ucs4)"

fun trim_end :: "string \<Rightarrow> nat \<Rightarrow> nat \<Rightarrow> nat" where
  "trim_end s b 0 = 0"
| "trim_end s b (Suc e) = (if b < Suc e \<and> isSpace (s ! e) then trim_end s b e else Suc e)"

function trim_begin :: "string \<Rightarrow> nat \<Rightarrow> nat \<Rightarrow> nat" where
  "trim_begin s b e = (if b < e \<and> isSpace (s ! b) then trim_begin s (Suc b) e else b)"
  by pat_completeness auto
termination by (relation "measure (\<lambda>(s, b, e). e - b)") auto

declare trim_begin.simps [simp del]

definition string_trimmed :: "string \<Rightarrow> string" where
  "string_trimmed str =
     (if str = [] then str
      else let e = trim_end str 0 (length str); b = trim_begin str 0 e
           in take (e - b) (drop b str))"

definition strip :: "string \<Rightarrow> string" where
  "strip s = dropWhile isSpace (rev (dropWhile isSpace (rev s)))"

lemma isSpace_is_space: "isSpace = is_space"
  by (auto simp: isSpace_def is_space_def fun_eq_iff)

lemma trim_end_le: "trim_end s b e \<le> e"
  by (induction e) (auto simp: le_Suc_eq)

lemma take_trim_end:
  "e \<le> length s \<Longrightarrow> take (trim_end s 0 e) s = rev (dropWhile isSpace (rev (take e s)))"
  by (induction e) (auto simp: take_Suc_conv_app_nth)

lemma drop_trim_begin:
  "b \<le> e \<Longrightarrow> e \<le> length s \<Longrightarrow>
   take (e - trim_begin s b e) (drop (trim_begin s b e) s) = dropWhile isSpace (take (e - b) (drop b s))"
proof (induction s b e rule: trim_begin.induct)
  case (1 s b e)
  show ?case
  proof (cases "b < e")
    case True
    then have "take (e - b) (drop b s) = s ! b # take (e - Suc b) (drop (Suc b) s)"
      using "1.prems" by (simp add: Cons_nth_drop_Suc [symmetric] take_Suc_conv_app_nth Suc_diff_Suc [symmetric])
    with 1 True show ?thesis by (auto simp: trim_begin.simps [of s b e])
  next
    case False
    with "1.prems" have "b = e" by simp
    then show ?thesis by (simp add: trim_begin.simps [of s e e])
  qed
qed

lemma string_trimmed_eq_strip: "string_trimmed s = strip s"
proof (cases "s = []")
  case True
  then show ?thesis by (simp add: string_trimmed_def strip_def)
next
  case False
  let ?e = "trim_end s 0 (length s)"
  have "?e \<le> length s" by (rule trim_end_le)
  moreover have "take ?e s = rev (dropWhile isSpace (rev s))"
    using take_trim_end [of "length s" s] by simp
  ultimately show ?thesis
    using False drop_trim_begin [of 0 ?e s] by (simp add: string_trimmed_def strip_def Let_def)
qed

lemma strip_split:
  "\<exists>pre post. s = pre @ strip s @ post \<and> (\<forall>c\<in>set pre. isSpace c) \<and> (\<forall>c\<in>set post. isSpace c)"
proof -
  let ?t = "rev (dropWhile isSpace (rev s))" and ?post = "rev (takeWhile isSpace (rev s))"
  have s: "s = ?t @ ?post"
    by (metis rev_append rev_rev_ident takeWhile_dropWhile_id)
  have t: "?t = takeWhile isSpace ?t @ strip s" by (simp add: strip_def)
  have "s = takeWhile isSpace ?t @ strip s @ ?post" using s t by (metis append.assoc)
  moreover have "\<forall>c\<in>set (takeWhile isSpace ?t). isSpace c" "\<forall>c\<in>set ?post. isSpace c"
    by (auto dest: set_takeWhile_P)
  ultimately show ?thesis by (intro exI conjI)
qed

lemma strip_ends:
  "strip s \<noteq> [] \<Longrightarrow> \<not> isSpace (hd (strip s)) \<and> \<not> isSpace (last (strip s))"
proof -
  assume ne: "strip s \<noteq> []"
  let ?d = "dropWhile isSpace (rev s)"
  have d: "?d \<noteq> []" using ne unfolding strip_def by (metis dropWhile.simps(1) rev.simps(1))
  then have "\<not> isSpace (hd ?d)" by (rule hd_dropWhile)
  then have "\<not> isSpace (last (rev ?d))" using d by (simp add: last_rev)
  moreover have "rev ?d = takeWhile isSpace (rev ?d) @ strip s" by (simp add: strip_def)
  then have "last (strip s) = last (rev ?d)" using ne by (metis last_appendR)
  moreover have "\<not> isSpace (hd (strip s))"
    using ne unfolding strip_def by (rule hd_dropWhile)
  ultimately show ?thesis by simp
qed

lemma strip_padded:
  assumes "\<forall>c\<in>set pre. isSpace c" "\<forall>c\<in>set post. isSpace c"
    and "t \<noteq> [] \<Longrightarrow> \<not> isSpace (hd t) \<and> \<not> isSpace (last t)"
  shows "strip (pre @ t @ post) = t"
proof (cases "t = []")
  case True
  with assms have all: "\<forall>c\<in>set (pre @ post). isSpace c" by auto
  then have "dropWhile isSpace (rev (pre @ post)) = []"
    by (auto simp: dropWhile_eq_Nil_conv)
  with True show ?thesis by (simp add: strip_def del: rev_append dropWhile_eq_Nil_conv)
next
  case False
  have "rev (pre @ t @ post) = rev post @ rev (pre @ t)" by simp
  moreover have "dropWhile isSpace (rev post @ rev (pre @ t)) = dropWhile isSpace (rev (pre @ t))"
    by (rule dropWhile_all) (use assms in auto)
  moreover have "dropWhile isSpace (rev (pre @ t)) = rev (pre @ t)"
    by (rule dropWhile_hd) (use assms False in \<open>auto simp: hd_append hd_rev\<close>)
  ultimately have "dropWhile isSpace (rev (pre @ t @ post)) = rev (pre @ t)" by simp
  then show ?thesis
    using assms False by (simp add: strip_def dropWhile_all dropWhile_hd)
qed

end
