(* ===== verification/Sampling.thy ===== *)
theory Sampling
  imports Main
begin

text \<open>
  The contract of an object that two parties use: its owner, who destroys it, and a thread that
  samples the machine and stores what it found in the object. \<open>threaded_object\<close> is what both
  monitors of the program keep of it, \<open>joined_object\<close> adds the destructor that waits for the
  thread, and \<open>sampled_object\<close> says where the values in the object come from.
\<close>

lemma rtranclp_keeps:
  assumes "R\<^sup>*\<^sup>* x y" "P x" "\<And>a b. R a b \<Longrightarrow> P a \<Longrightarrow> P b"
  shows "P y"
  using assms(1,2) by (induction rule: rtranclp_induct) (auto intro: assms(3))

section \<open>The life of the object\<close>

locale threaded_object =
  fixes step :: "'s \<Rightarrow> 's \<Rightarrow> bool"
    and start :: 's
    and alive :: "'s \<Rightarrow> bool"
    and finished :: "'s \<Rightarrow> bool"
    and harmed :: "'s \<Rightarrow> bool"
  assumes alive_start: "alive start"
    and unharmed_start: "\<not> harmed start"
    and freed_step: "step s t \<Longrightarrow> \<not> alive s \<Longrightarrow> \<not> alive t"
    and finished_step: "step s t \<Longrightarrow> finished s \<Longrightarrow> finished t"
    and harm_step: "step s t \<Longrightarrow> harmed t \<Longrightarrow> harmed s \<or> \<not> alive s \<and> \<not> finished s"
begin

lemma freed_stays: "step\<^sup>*\<^sup>* s t \<Longrightarrow> \<not> alive s \<Longrightarrow> \<not> alive t"
  by (erule rtranclp_keeps) (auto dest: freed_step)

lemma finished_stays: "step\<^sup>*\<^sup>* s t \<Longrightarrow> finished s \<Longrightarrow> finished t"
  by (erule rtranclp_keeps) (auto dest: finished_step)

text \<open>As long as the object is alive nothing goes wrong, and once the thread has returned nothing can.\<close>

lemma harmed_freed: "step\<^sup>*\<^sup>* start s \<Longrightarrow> harmed s \<Longrightarrow> \<not> alive s"
proof (induction rule: rtranclp_induct)
  case (step y z)
  then show ?case using harm_step [of y z] freed_step [of y z] by blast
qed (simp add: unharmed_start)

lemma finished_safe: "step\<^sup>*\<^sup>* s t \<Longrightarrow> finished s \<Longrightarrow> \<not> harmed s \<Longrightarrow> \<not> harmed t"
proof (induction rule: rtranclp_induct)
  case (step y z)
  then show ?case using harm_step [of y z] finished_stays [of s y] by blast
qed

end

section \<open>A destructor that joins\<close>

locale joined_object = threaded_object +
  assumes free_after_join: "step\<^sup>*\<^sup>* start s \<Longrightarrow> step s t \<Longrightarrow> alive s \<Longrightarrow> \<not> alive t \<Longrightarrow> finished s"
begin

lemma freed_finished: "step\<^sup>*\<^sup>* start s \<Longrightarrow> \<not> alive s \<Longrightarrow> finished s"
proof (induction rule: rtranclp_induct)
  case (step y z)
  then show ?case using free_after_join [of y z] finished_step [of y z] by blast
qed (simp add: alive_start)

lemma never_harmed: "step\<^sup>*\<^sup>* start s \<Longrightarrow> \<not> harmed s"
proof (induction rule: rtranclp_induct)
  case (step y z)
  then show ?case using harm_step [of y z] freed_finished [of y] by blast
qed (simp add: unharmed_start)

end

section \<open>Where the values come from\<close>

text \<open>\<open>held\<close> are the samples that the thread has taken, \<open>genuine\<close> those that the machine can give.\<close>

locale sampled_object = threaded_object +
  fixes held :: "'s \<Rightarrow> 'v set"
    and genuine :: "'v \<Rightarrow> bool"
  assumes genuine_start: "held start \<subseteq> Collect genuine"
    and genuine_step: "step s t \<Longrightarrow> held s \<subseteq> Collect genuine \<Longrightarrow> held t \<subseteq> Collect genuine"
begin

lemma genuine_reachable: "step\<^sup>*\<^sup>* start s \<Longrightarrow> v \<in> held s \<Longrightarrow> genuine v"
proof -
  assume "step\<^sup>*\<^sup>* start s" "v \<in> held s"
  moreover from this(1) genuine_start have "held s \<subseteq> Collect genuine"
    by (rule rtranclp_keeps) (rule genuine_step)
  ultimately show "genuine v" by blast
qed

end

end
