(* ===== verification/Memory_Monitor.thy ===== *)
theory Memory_Monitor
  imports Prelude Cstdio Common
begin

text \<open>
  \<open>MemoryMonitor.cpp\<close>: the reading of \<open>/proc/meminfo\<close> into a \<open>MemoryPacket\<close>, the private
  accessors over it and the public ones in GB. A file argument is \<open>None\<close> where \<open>fopen\<close> fails:
  the code only logs and goes on with the null stream. \<open>MemTotal\<close> and its siblings are
  \<open>unsigned long\<close>, here 64-bit words.
\<close>

section \<open>State and data\<close>

record MemoryPacket =
  MemTotalStr :: string
  MemTotal :: u64
  MemFreeStr :: string
  MemFree :: u64
  MemAvailableStr :: string
  MemAvailable :: u64
  BuffersStr :: string
  Buffers :: u64
  CachedStr :: string
  Cached :: u64
  Shmem :: u64
  SReclaimable :: u64

definition zero_packet :: MemoryPacket where
  "zero_packet =
     \<lparr>MemTotalStr = [], MemTotal = 0, MemFreeStr = [], MemFree = 0, MemAvailableStr = [],
      MemAvailable = 0, BuffersStr = [], Buffers = 0, CachedStr = [], Cached = 0,
      Shmem = 0, SReclaimable = 0\<rparr>"

section \<open>GetMemoryInfo\<close>

text \<open>\<open>sscanf(buff, "%*s %lu", &field)\<close>: the field keeps its value when a conversion fails.\<close>

definition scan_field :: "string \<Rightarrow> u64 \<Rightarrow> u64" where
  "scan_field buff old =
     (case scan_str (cstr buff) of
        None \<Rightarrow> old
      | Some (_, r) \<Rightarrow> (case scan_unsigned r of None \<Rightarrow> old | Some (v, _) \<Rightarrow> v))"

definition meminfo_line :: "MemoryPacket \<Rightarrow> string \<Rightarrow> MemoryPacket" where
  "meminfo_line m buff =
     (if strncmp_eq buff ''MemTotal:'' 9 then m\<lparr>MemTotal := scan_field buff (MemTotal m)\<rparr>
      else if strncmp_eq buff ''MemFree:'' 8 then m\<lparr>MemFree := scan_field buff (MemFree m)\<rparr>
      else if strncmp_eq buff ''Buffers:'' 8 then m\<lparr>Buffers := scan_field buff (Buffers m)\<rparr>
      else if strncmp_eq buff ''Cached:'' 7 then m\<lparr>Cached := scan_field buff (Cached m)\<rparr>
      else if strncmp_eq buff ''Shmem:'' 6 then m\<lparr>Shmem := scan_field buff (Shmem m)\<rparr>
      else if strncmp_eq buff ''SReclaimable:'' 13 then m\<lparr>SReclaimable := scan_field buff (SReclaimable m)\<rparr>
      else m)"

function meminfo_loop :: "stream \<Rightarrow> MemoryPacket \<Rightarrow> MemoryPacket" where
  "meminfo_loop fp m =
     (if at_eof fp then m
      else (case fgets 255 fp of
              (None, fp') \<Rightarrow> m
            | (Some buff, fp') \<Rightarrow> meminfo_loop fp' (meminfo_line m buff)))"
  by pat_completeness auto
termination
  by (relation "measure (\<lambda>(fp, m). length (pending fp))") (auto dest!: fgets_progress [OF sym])

declare meminfo_loop.simps [simp del]

definition GetMemoryInfo :: "string option \<Rightarrow> MemoryPacket outcome" where
  "GetMemoryInfo file =
     (case file of
        None \<Rightarrow> Inl Null_Stream
      | Some text \<Rightarrow> Inr (meminfo_loop (open_stream text) zero_packet))"

section \<open>The accessors\<close>

definition priv_GetMemoryTotal :: "string option \<Rightarrow> u64 outcome" where
  "priv_GetMemoryTotal file = mapE MemTotal (GetMemoryInfo file)"

definition priv_GetMemoryUnused :: "string option \<Rightarrow> u64 outcome" where
  "priv_GetMemoryUnused file = mapE MemAvailable (GetMemoryInfo file)"

definition used_memory :: "MemoryPacket \<Rightarrow> u64" where
  "used_memory m = MemTotal m - (MemFree m + Buffers m + Cached m + SReclaimable m - Shmem m)"

definition usage_ratio :: "MemoryPacket \<Rightarrow> double" where
  "usage_ratio m = ddiv (double_of_nat (unat (used_memory m))) (double_of_nat (unat (MemTotal m)))"

definition priv_GetMemoryUsage :: "string option \<Rightarrow> string outcome" where
  "priv_GetMemoryUsage file = mapE (\<lambda>m. '' '' @ fmt_fixed 2 (usage_ratio m)) (GetMemoryInfo file)"

definition GB :: u64 where
  "GB = 1024 * 1024"

definition GetMemoryTotal :: "string option \<Rightarrow> u64 outcome" where
  "GetMemoryTotal file = mapE (\<lambda>w. w div GB) (priv_GetMemoryTotal file)"

definition GetMemoryUnused :: "string option \<Rightarrow> u64 outcome" where
  "GetMemoryUnused file = mapE (\<lambda>w. w div GB) (priv_GetMemoryUnused file)"

definition GetMemoryUsage :: "string option \<Rightarrow> string outcome" where
  "GetMemoryUsage file = priv_GetMemoryUsage file"

section \<open>Reading back a rendered file\<close>

text \<open>
  The format of the file: one line per entry, a key, a colon, padding, a decimal value and
  whatever follows it (\<open> kB\<close> or nothing). What the file means is a fold over its entries by
  key; what the code computes is a scan by prefix.
\<close>

type_synonym meminfo_entry = "string \<times> nat \<times> nat \<times> string"

fun entry_line :: "meminfo_entry \<Rightarrow> string" where
  "entry_line (key, pad, v, suffix) = key @ '':'' @ replicate pad (CHR '' '') @ dec_str v @ suffix"

fun wf_entry :: "meminfo_entry \<Rightarrow> bool" where
  "wf_entry (key, pad, v, suffix) \<longleftrightarrow>
     token key \<and> CHR '':'' \<notin> set key \<and> CHR 0x00 \<notin> set key \<and> 0 < pad \<and>
     delimited suffix \<and> newline \<notin> set suffix \<and> CHR 0x00 \<notin> set suffix \<and>
     v < 2 ^ 64 \<and> length (entry_line (key, pad, v, suffix)) < 254"

definition render :: "meminfo_entry list \<Rightarrow> string" where
  "render es = concat (map (\<lambda>e. entry_line e @ [newline]) es)"

fun assign :: "MemoryPacket \<Rightarrow> meminfo_entry \<Rightarrow> MemoryPacket" where
  "assign m (key, pad, v, suffix) =
     (if key = ''MemTotal'' then m\<lparr>MemTotal := of_nat v\<rparr>
      else if key = ''MemFree'' then m\<lparr>MemFree := of_nat v\<rparr>
      else if key = ''Buffers'' then m\<lparr>Buffers := of_nat v\<rparr>
      else if key = ''Cached'' then m\<lparr>Cached := of_nat v\<rparr>
      else if key = ''Shmem'' then m\<lparr>Shmem := of_nat v\<rparr>
      else if key = ''SReclaimable'' then m\<lparr>SReclaimable := of_nat v\<rparr>
      else m)"

lemma token_no_newline: "token t \<Longrightarrow> newline \<notin> set t"
  by (auto simp: token_def)

lemma token_key_colon: "token key \<Longrightarrow> token (key @ '':'')"
  by (auto simp: token_def is_space_def)

lemma entry_line_clean:
  "wf_entry e \<Longrightarrow> newline \<notin> set (entry_line e) \<and> CHR 0x00 \<notin> set (entry_line e) \<and> length (entry_line e) < 254"
  using token_no_newline [of "fst e"]
  by (cases e) (auto simp: dec_str_no_special newline_def dest: dec_str_digits)

lemma scan_field_entry:
  assumes "wf_entry (key, pad, v, suffix)"
  shows "scan_field (entry_line (key, pad, v, suffix) @ [newline]) old = of_nat v"
proof -
  let ?r = "replicate pad (CHR '' '') @ dec_str v @ suffix @ [newline]"
  have d: "delimited (suffix @ [newline])" using assms by (cases suffix) (auto simp: delimited_def)
  have "cstr (entry_line (key, pad, v, suffix) @ [newline]) = (key @ '':'') @ ?r"
    using entry_line_clean [OF assms] by (subst cstr_id) (auto simp: newline_def)
  moreover have "scan_str ((key @ '':'') @ ?r) = Some (key @ '':'', ?r)"
    using scan_str_token [of "[]" "key @ '':''" ?r] assms token_key_colon
    by (cases pad) (auto simp: delimited_def)
  ultimately show ?thesis
    using scan_unsigned_dec [of "replicate pad (CHR '' '')" v "suffix @ [newline]"] d assms
    by (auto simp: scan_field_def)
qed

lemma meminfo_line_entry:
  assumes "wf_entry e"
  shows "meminfo_line m (entry_line e @ [newline]) = assign m e"
proof (cases e)
  case (fields key pad v suffix)
  let ?r = "replicate pad (CHR '' '') @ dec_str v @ suffix @ [newline]"
  have nul: "CHR 0x00 \<notin> set key" "CHR 0x00 \<notin> set ?r" "CHR '':'' \<notin> set key"
    using assms fields by (auto simp: dec_str_no_special newline_def)
  have l: "entry_line e @ [newline] = key @ '':'' @ ?r" by (simp add: fields)
  have m: "strncmp_eq (key @ '':'' @ ?r) (k @ '':'') (Suc (length k)) \<longleftrightarrow> key = k"
    if "CHR '':'' \<notin> set k" "CHR 0x00 \<notin> set k" for k
    by (rule strncmp_eq_key) (use that nul in auto)
  have s: "scan_field (key @ '':'' @ ?r) old = of_nat v" for old
    using scan_field_entry [of key pad v suffix old] assms fields by simp
  define line where "line = entry_line e @ [newline]"
  have m': "strncmp_eq line (k @ '':'') (Suc (length k)) \<longleftrightarrow> key = k"
    if "CHR '':'' \<notin> set k" "CHR 0x00 \<notin> set k" for k
    using m [OF that] by (simp only: line_def l)
  have keys:
    "strncmp_eq line ''MemTotal:'' 9 \<longleftrightarrow> key = ''MemTotal''"
    "strncmp_eq line ''MemFree:'' 8 \<longleftrightarrow> key = ''MemFree''"
    "strncmp_eq line ''Buffers:'' 8 \<longleftrightarrow> key = ''Buffers''"
    "strncmp_eq line ''Cached:'' 7 \<longleftrightarrow> key = ''Cached''"
    "strncmp_eq line ''Shmem:'' 6 \<longleftrightarrow> key = ''Shmem''"
    "strncmp_eq line ''SReclaimable:'' 13 \<longleftrightarrow> key = ''SReclaimable''"
    using m' [of "''MemTotal''"] m' [of "''MemFree''"] m' [of "''Buffers''"] m' [of "''Cached''"]
      m' [of "''Shmem''"] m' [of "''SReclaimable''"]
    by (simp_all add: eval_nat_numeral)
  have s': "scan_field line old = of_nat v" for old
    using s by (simp only: line_def l)
  have "meminfo_line m line = assign m (key, pad, v, suffix)"
    unfolding meminfo_line_def keys s' assign.simps by (rule refl)
  then show ?thesis by (simp only: line_def fields)
qed

lemma meminfo_loop_render:
  "\<forall>e\<in>set es. wf_entry e \<Longrightarrow>
   meminfo_loop \<lparr>pending = render es, at_eof = False\<rparr> m = foldl assign m es"
proof (induction es arbitrary: m)
  case Nil
  then show ?case by (simp add: meminfo_loop.simps render_def fgets_eof)
next
  case (Cons e es)
  have "fgets 255 \<lparr>pending = render (e # es), at_eof = False\<rparr> =
      (Some (entry_line e @ [newline]), \<lparr>pending = render es, at_eof = False\<rparr>)"
    using entry_line_clean [of e] Cons.prems
    by (subst fgets_line [where l = "entry_line e" and s = "render es"]) (auto simp: render_def)
  with Cons show ?case
    by (subst meminfo_loop.simps) (simp add: meminfo_line_entry)
qed

lemma GetMemoryInfo_render:
  "\<forall>e\<in>set es. wf_entry e \<Longrightarrow> GetMemoryInfo (Some (render es)) = Inr (foldl assign zero_packet es)"
  using meminfo_loop_render by (simp add: GetMemoryInfo_def open_stream_def)

text \<open>What a file says of a key: the value of the last line with exactly this key, and zero without one.\<close>

definition last_value :: "string \<Rightarrow> meminfo_entry list \<Rightarrow> u64" where
  "last_value key es = (case find (\<lambda>e. fst e = key) (rev es) of None \<Rightarrow> 0 | Some (k, pad, v, suffix) \<Rightarrow> of_nat v)"

lemma assign_last_values:
  "foldl assign zero_packet es =
     zero_packet\<lparr>MemTotal := last_value ''MemTotal'' es, MemFree := last_value ''MemFree'' es,
       Buffers := last_value ''Buffers'' es, Cached := last_value ''Cached'' es,
       Shmem := last_value ''Shmem'' es, SReclaimable := last_value ''SReclaimable'' es\<rparr>"
proof (induction es rule: rev_induct)
  case (snoc e es)
  obtain key pad v suffix where e: "e = (key, pad, v, suffix)" by (metis prod_cases4)
  show ?case unfolding foldl_append foldl.simps snoc e by (simp add: last_value_def zero_packet_def)
qed (simp add: last_value_def zero_packet_def)

text \<open>C23: Reading a \<open>/proc/meminfo\<close> of well-formed lines gives the six counters \<open>MemTotal\<close>, \<open>MemFree\<close>,
  \<open>Buffers\<close>, \<open>Cached\<close>, \<open>Shmem\<close> and \<open>SReclaimable\<close> the value of the last line with exactly their key
  (so \<open>SwapCached\<close> never counts as \<open>Cached\<close>), and zero without such a line. The other members stay as
  they were initialised; so \<open>MemAvailable\<close> is zero whatever the file says.\<close>

theorem meminfo_parse:
  assumes "\<forall>e\<in>set es. wf_entry e"
  shows "GetMemoryInfo (Some (render es)) = Inr
    \<lparr>MemTotalStr = [], MemTotal = last_value ''MemTotal'' es, MemFreeStr = [], MemFree = last_value ''MemFree'' es,
     MemAvailableStr = [], MemAvailable = 0, BuffersStr = [], Buffers = last_value ''Buffers'' es,
     CachedStr = [], Cached = last_value ''Cached'' es, Shmem = last_value ''Shmem'' es,
     SReclaimable = last_value ''SReclaimable'' es\<rparr>"
  unfolding GetMemoryInfo_render [OF assms] assign_last_values by (simp add: zero_packet_def)

lemma dec_str_step: "dec_str n = (if n < 10 then [digit_char n] else dec_str (n div 10) @ [digit_char (n mod 10)])"
  by (rule dec_str.simps)

theorem meminfo_parse_witness:
  "GetMemoryInfo (Some (render
     [(''MemTotal'', 7, 16000, '' kB''), (''MemFree'', 1, 4000, '' kB''),
      (''MemAvailable'', 1, 9000, '' kB''), (''SwapCached'', 2, 9, '' kB''), (''Cached'', 3, 5000, '' kB'')])) =
   Inr (zero_packet\<lparr>MemTotal := 16000, MemFree := 4000, Cached := 5000\<rparr>)"
  by (subst meminfo_parse)
    (simp_all add: dec_str_step token_def is_space_def delimited_def newline_def last_value_def zero_packet_def)

lemma meminfo_line_available: "MemAvailable (meminfo_line m l) = MemAvailable m"
  by (simp add: meminfo_line_def)

lemma meminfo_loop_available: "MemAvailable (meminfo_loop fp m) = MemAvailable m"
proof (induction fp m rule: meminfo_loop.induct)
  case (1 fp m)
  then show ?case
    by (subst meminfo_loop.simps) (auto simp: meminfo_line_available split: prod.split option.split)
qed

text \<open>\<open>GetMemoryUnused\<close> is zero for every content of \<open>/proc/meminfo\<close>: no branch of the
  reader stores \<open>MemAvailable\<close>, the field it returns.\<close>

theorem memory_unused_zero:
  "GetMemoryUnused file = (case file of None \<Rightarrow> Inl Null_Stream | Some text \<Rightarrow> Inr 0)"
  by (simp add: GetMemoryUnused_def priv_GetMemoryUnused_def GetMemoryInfo_def
      meminfo_loop_available zero_packet_def split: option.split)

section \<open>Memory usage\<close>

definition free_memory :: "MemoryPacket \<Rightarrow> nat" where
  "free_memory m = unat (MemFree m) + unat (Buffers m) + unat (Cached m) + unat (SReclaimable m)"

lemma unat_used_memory:
  assumes "unat (Shmem m) \<le> free_memory m" "free_memory m < 2 ^ 64"
    and "free_memory m - unat (Shmem m) \<le> unat (MemTotal m)"
  shows "unat (used_memory m) = unat (MemTotal m) - (free_memory m - unat (Shmem m))"
proof -
  let ?s = "MemFree m + Buffers m + Cached m + SReclaimable m"
  have s: "unat ?s = free_memory m"
    using assms(2) by (simp add: free_memory_def unat_word_ariths)
  then have "unat (?s - Shmem m) = free_memory m - unat (Shmem m)"
    using assms(1) by (simp add: unat_minus_le)
  with assms(3) show ?thesis by (simp add: used_memory_def unat_minus_le)
qed

text \<open>C24: When the counters are consistent (the free memory does not exceed the total), nothing
  wraps: the used kilobytes are the total less the free ones, and the ratio, a double between 0 and 1,
  is the rounded quotient of the two counters, each first converted to a double. Up to \<open>2\<^sup>5\<^sup>3\<close> kilobytes
  the conversions are exact, so that there is one rounding only. The reply is a blank and the
  two-decimal rendering of the ratio, within half a percent.\<close>

theorem memory_usage_consistent:
  assumes "GetMemoryInfo file = Inr m" "0 < unat (MemTotal m)"
    and "unat (Shmem m) \<le> free_memory m" "free_memory m < 2 ^ 64"
    and "free_memory m - unat (Shmem m) \<le> unat (MemTotal m)"
  shows "\<exists>r n. usage_ratio m = DFin r \<and> 0 \<le> r \<and> r \<le> 1
    \<and> r = round_rat (round_rat (of_nat (unat (MemTotal m) - (free_memory m - unat (Shmem m))))
                       / round_rat (of_nat (unat (MemTotal m))))
    \<and> (unat (MemTotal m) \<le> 2 ^ 53 \<longrightarrow>
         r = round_rat (of_nat (unat (MemTotal m) - (free_memory m - unat (Shmem m))) / of_nat (unat (MemTotal m))))
    \<and> GetMemoryUsage file = Inr ('' '' @ fixed_digits 2 n) \<and> n \<le> 100
    \<and> \<bar>of_nat n / 100 - r\<bar> \<le> 1 / 200"
proof -
  define r where "r = round_rat (round_rat (of_nat (unat (used_memory m)))
    / round_rat (of_nat (unat (MemTotal m))))"
  have u: "unat (used_memory m) = unat (MemTotal m) - (free_memory m - unat (Shmem m))"
    by (rule unat_used_memory [OF assms(3-5)])
  have exact: "r = round_rat (of_nat (unat (used_memory m)) / of_nat (unat (MemTotal m)))" if "unat (MemTotal m) \<le> 2 ^ 53"
  proof -
    have "unat (used_memory m) \<le> 2 ^ 53" using that u by simp
    then show ?thesis
      unfolding r_def round_rat_representable [OF representable_nat [OF that]]
      by (simp only: round_rat_representable representable_nat)
  qed
  have r: "usage_ratio m = DFin r" "0 \<le> r" "r \<le> 1"
    unfolding usage_ratio_def r_def
    using ratio_of_counters [of "unat (used_memory m)" "unat (MemTotal m)"] assms(2) u
      unat_bound [of "MemTotal m"] by simp_all
  have "GetMemoryUsage file = Inr ('' '' @ fixed_digits 2 (scaled 2 r))" "scaled 2 r \<le> 100"
    "\<bar>of_nat (scaled 2 r) / 100 - r\<bar> \<le> 1 / 200"
    using fmt_fixed_ratio [of r] assms(1) r by (simp_all add: GetMemoryUsage_def priv_GetMemoryUsage_def)
  with r exact show ?thesis
    unfolding u by (intro exI [of _ r] exI [of _ "scaled 2 r"]) (simp add: r_def u)
qed

lemma sample_meminfo:
  "GetMemoryInfo (Some (render [(''MemTotal'', 7, 100, []), (''MemFree'', 8, 40, [])])) =
   Inr (zero_packet\<lparr>MemTotal := 100, MemFree := 40\<rparr>)"
  by (subst GetMemoryInfo_render) (simp_all add: dec_str_step token_def is_space_def delimited_def)

theorem memory_usage_consistent_witness:
  "\<exists>r n. 0 \<le> r \<and> r \<le> (1::rat) \<and> n \<le> 100 \<and> \<bar>of_nat n / 100 - r\<bar> \<le> 1 / 200 \<and>
     GetMemoryUsage (Some (render [(''MemTotal'', 7, 100, []), (''MemFree'', 8, 40, [])])) =
     Inr ('' '' @ fixed_digits 2 n)"
  using memory_usage_consistent [OF sample_meminfo]
  by (simp add: free_memory_def zero_packet_def) blast

text \<open>When the free memory of \<open>/proc/meminfo\<close> exceeds its total by \<open>d\<close> kilobytes (cache
  counters are not sampled together with the total), the unsigned subtraction wraps and
  \<open>used\<close> becomes \<open>2\<^sup>6\<^sup>4 - d\<close> kilobytes.\<close>

theorem memory_used_wraps:
  assumes "unat (Shmem m) \<le> free_memory m" "free_memory m < 2 ^ 64"
    and "free_memory m - unat (Shmem m) = unat (MemTotal m) + d" "0 < d"
  shows "unat (used_memory m) = 2 ^ 64 - d"
proof -
  let ?s = "MemFree m + Buffers m + Cached m + SReclaimable m"
  have "unat ?s = free_memory m"
    using assms(2) by (simp add: free_memory_def unat_word_ariths)
  then have f: "unat (?s - Shmem m) = unat (MemTotal m) + d"
    using assms(1,3) by (simp add: unat_minus_le)
  then have "unat (MemTotal m - (?s - Shmem m)) = 2 ^ 64 + unat (MemTotal m) - unat (?s - Shmem m)"
    using assms(4) unat_minus_wrap [of "MemTotal m" "?s - Shmem m"] by simp
  with f show ?thesis by (simp add: used_memory_def)
qed

theorem memory_used_wraps_witness:
  "unat (used_memory (zero_packet\<lparr>MemTotal := 100, MemFree := 40, Cached := 70\<rparr>)) = 2 ^ 64 - 10"
  by (rule memory_used_wraps) (simp_all add: free_memory_def zero_packet_def)

text \<open>A \<open>/proc/meminfo\<close> without \<open>MemTotal\<close> divides by zero: the reply is \<open> -nan\<close> when no
  other counter was read either, and \<open> inf\<close> otherwise.\<close>

theorem memory_usage_no_total:
  assumes "GetMemoryInfo file = Inr m" "MemTotal m = 0"
  shows "GetMemoryUsage file = Inr (if used_memory m = 0 then '' -nan'' else '' inf'')"
proof -
  let ?u = "unat (used_memory m)"
  have u: "double_of_nat ?u = DFin (round_rat (of_nat ?u))" "0 \<le> round_rat (of_nat ?u :: rat)"
    using double_of_nat_u64 [of ?u] unat_bound [of "used_memory m"] by simp_all
  have ratio: "usage_ratio m = (if used_memory m = 0 then default_nan else DInf False)"
  proof (cases "used_memory m = 0")
    case True
    then show ?thesis using assms(2) by (simp add: usage_ratio_def)
  next
    case False
    then have "0 < ?u" by (simp add: unat_gt_0)
    then have "1 \<le> round_rat (of_nat ?u)" by (rule round_rat_pos_nat)
    then show ?thesis using assms(2) False u by (simp add: usage_ratio_def)
  qed
  then show ?thesis
    using assms(1) by (simp add: GetMemoryUsage_def priv_GetMemoryUsage_def default_nan_def fmt_fixed_def)
qed

theorem memory_usage_no_total_witness:
  "GetMemoryUsage (Some (render [])) = Inr '' -nan''"
proof -
  have "GetMemoryInfo (Some (render [])) = Inr zero_packet"
    by (subst GetMemoryInfo_render) simp_all
  then show ?thesis
    using memory_usage_no_total [of "Some (render [])" zero_packet]
    by (simp add: used_memory_def zero_packet_def)
qed

end
