(* ===== verification/Cpu_Monitor.thy ===== *)
theory Cpu_Monitor
  imports Prelude Cstdio Common Sampling
begin

text \<open>
  \<open>CPUMonitor.cpp\<close>: the sample of \<open>/proc/stat\<close>, the usage computed from two samples in the
  code's 32-bit counters and doubles, the reading of model name and clock from
  \<open>/proc/cpuinfo\<close> with its cache, and the life of the sampling thread, which is detached and
  shares the object with its owner.
\<close>

section \<open>GetCPUInfo\<close>

record CPUInfo =
  name :: string
  user :: u32
  nice :: u32
  system :: u32
  idle :: u32
  iowait :: u32
  irq :: u32
  softirq :: u32

text \<open>\<open>%u\<close>: \<open>strtoul\<close> stored into an \<open>unsigned int\<close>. The fields after a failed one keep their 0.\<close>

fun scan_counters :: "nat \<Rightarrow> string \<Rightarrow> u32 list" where
  "scan_counters 0 s = []"
| "scan_counters (Suc n) s =
     (case scan_unsigned s of
        None \<Rightarrow> []
      | Some (v, r) \<Rightarrow> ucast v # scan_counters n r)"

definition counter :: "u32 list \<Rightarrow> nat \<Rightarrow> u32" where
  "counter vs i = (if i < length vs then vs ! i else 0)"

definition info_of :: "string \<Rightarrow> u32 list \<Rightarrow> CPUInfo" where
  "info_of nm vs =
     \<lparr>name = nm, user = counter vs 0, nice = counter vs 1, system = counter vs 2,
      idle = counter vs 3, iowait = counter vs 4, irq = counter vs 5, softirq = counter vs 6\<rparr>"

definition GetCPUInfo :: "string option \<Rightarrow> CPUInfo outcome" where
  "GetCPUInfo file =
     (case file of
        None \<Rightarrow> Inl Null_Stream
      | Some text \<Rightarrow>
          (case fgets 256 (open_stream text) of
             (None, fp) \<Rightarrow> Inl Uninit_Read
           | (Some buf, fp) \<Rightarrow>
               (case scan_str (cstr buf) of
                  None \<Rightarrow> Inr (info_of [] [])
                | Some (nm, r) \<Rightarrow>
                    if 20 \<le> length nm then Inl Buffer_Overflow
                    else Inr (info_of nm (scan_counters 7 r)))))"

section \<open>CalcCPUUsage\<close>

definition counter_sum :: "CPUInfo \<Rightarrow> u32" where
  "counter_sum i = user i + nice i + system i + idle i + iowait i + irq i + softirq i"

definition CalcCPUUsage :: "CPUInfo \<Rightarrow> CPUInfo \<Rightarrow> double" where
  "CalcCPUUsage oldInfo newInfo =
     (let od = double_of_nat (unat (counter_sum oldInfo));
          nd = double_of_nat (unat (counter_sum newInfo));
          sumTime = dsub nd od;
          freeTime = double_of_nat (unat (idle newInfo - idle oldInfo));
          cpuUsageRate = dsub (DFin 1) (ddiv freeTime sumTime)
      in if dless (DFin 0) cpuUsageRate then cpuUsageRate else DFin 0)"

text \<open>The atomic is loaded twice, for the test and for the result; \<open>d\<close> and \<open>d'\<close> are what the two loads
  find.\<close>

definition GetCPUUSage :: "double \<Rightarrow> double \<Rightarrow> double" where
  "GetCPUUSage d d' = (if dless d (DFin 0) then DFin 0 else d')"

definition GetCpuUsage :: "double \<Rightarrow> double \<Rightarrow> string" where
  "GetCpuUsage d d' = '' '' @ fmt_fixed 2 (GetCPUUSage d d')"

section \<open>GetCPUModelNameAndBaseClock\<close>

text \<open>One round of the loop after \<open>fgets\<close>: both prefixes are tested on the same line.\<close>

definition cpuinfo_line :: "string \<Rightarrow> string \<times> string \<times> nat \<Rightarrow> string \<times> string \<times> nat" where
  "cpuinfo_line buff acc =
     (case acc of (modelName, cpuMhz, findNum) \<Rightarrow>
        let value = string_trimmed (substr_after (CHR '':'') (cstr buff));
            (modelName', findNum') =
              (if strncmp_eq ''model name'' buff 10 then (value, findNum + 1) else (modelName, findNum));
            (cpuMhz', findNum'') =
              (if strncmp_eq ''cpu MHz'' buff 7 then (value, findNum' + 1) else (cpuMhz, findNum'))
        in (modelName', cpuMhz', findNum''))"

function cpuinfo_loop :: "stream \<Rightarrow> string \<times> string \<times> nat \<Rightarrow> string \<times> string \<times> nat" where
  "cpuinfo_loop fp acc =
     (if at_eof fp then acc
      else (case fgets 1023 fp of
              (None, fp') \<Rightarrow> cpuinfo_loop fp' acc
            | (Some buff, fp') \<Rightarrow>
                let acc' = cpuinfo_line buff acc
                in if snd (snd acc') = 2 then acc' else cpuinfo_loop fp' acc'))"
  by pat_completeness auto
termination
  by (relation "measure (\<lambda>(fp, acc). 2 * length (pending fp) + (if at_eof fp then 0 else 1))")
    (auto dest!: fgets_progress [OF sym] fgets_None [OF sym])

declare cpuinfo_loop.simps [simp del]

definition GetCPUModelNameAndBaseClock :: "string option \<Rightarrow> (string \<times> string) outcome" where
  "GetCPUModelNameAndBaseClock file =
     (case file of
        None \<Rightarrow> Inl Null_Stream
      | Some text \<Rightarrow>
          (case cpuinfo_loop (open_stream text) ([], [], 0) of
             (modelName, cpuMhz, findNum) \<Rightarrow> Inr (modelName, cpuMhz)))"

section \<open>CPUMonitor and its cache\<close>

record CPUMonitor =
  modelName :: string
  baseClock :: string

definition GetCPUModelName :: "string option \<Rightarrow> CPUMonitor \<Rightarrow> (string \<times> CPUMonitor) outcome" where
  "GetCPUModelName file c =
     (if modelName c = []
      then mapE (\<lambda>(m, k). (m, c\<lparr>modelName := m\<rparr>)) (GetCPUModelNameAndBaseClock file)
      else Inr (modelName c, c))"

definition GetCpuBaseClock :: "string option \<Rightarrow> CPUMonitor \<Rightarrow> (string \<times> CPUMonitor) outcome" where
  "GetCpuBaseClock file c =
     (if baseClock c = []
      then mapE (\<lambda>(m, k). (k, c\<lparr>baseClock := k\<rparr>)) (GetCPUModelNameAndBaseClock file)
      else Inr (baseClock c, c))"

section \<open>The sampling thread\<close>

text \<open>
  The object as its owner and the thread see it: whether its memory is still allocated, the two
  atomics, where the thread is in \<open>RunCPUThread\<close>, and whether the thread has touched the
  members of a deleted object. The destructor is two steps of the owner, the store to \<open>running\<close>
  and the release of the memory; it does not wait for the thread, which was detached. \<open>samples\<close> is
  no member: it is the history of the readings of \<open>/proc/stat\<close> that the thread has taken, in order.
\<close>

datatype cpu_pc =
    Check_Running
  | Sample_Old
  | Sleeping CPUInfo
  | Sample_New CPUInfo
  | Store CPUInfo CPUInfo
  | Finished

record CPUPrivate =
  allocated :: bool
  running :: bool
  cpuUsage :: double
  pc :: cpu_pc
  use_after_free :: bool
  samples :: "CPUInfo list"

definition CPUPrivate_init :: CPUPrivate where
  "CPUPrivate_init =
     \<lparr>allocated = True, running = True, cpuUsage = DFin (- 1), pc = Check_Running, use_after_free = False,
      samples = []\<rparr>"

text \<open>\<open>RunCPUThread\<close>.\<close>

inductive cpu_thread :: "CPUPrivate \<Rightarrow> CPUPrivate \<Rightarrow> bool" where
  check_go: "pc s = Check_Running \<Longrightarrow> allocated s \<Longrightarrow> running s \<Longrightarrow> cpu_thread s (s\<lparr>pc := Sample_Old\<rparr>)"
| check_stop: "pc s = Check_Running \<Longrightarrow> allocated s \<Longrightarrow> \<not> running s \<Longrightarrow> cpu_thread s (s\<lparr>pc := Finished\<rparr>)"
| check_freed: "pc s = Check_Running \<Longrightarrow> \<not> allocated s \<Longrightarrow> cpu_thread s (s\<lparr>use_after_free := True\<rparr>)"
| sample_old: "pc s = Sample_Old \<Longrightarrow> GetCPUInfo file = Inr i \<Longrightarrow>
    cpu_thread s (s\<lparr>pc := Sleeping i, samples := samples s @ [i]\<rparr>)"
| wake: "pc s = Sleeping i \<Longrightarrow> cpu_thread s (s\<lparr>pc := Sample_New i\<rparr>)"
| sample_new: "pc s = Sample_New i \<Longrightarrow> GetCPUInfo file = Inr j \<Longrightarrow>
    cpu_thread s (s\<lparr>pc := Store i j, samples := samples s @ [j]\<rparr>)"
| store: "pc s = Store i j \<Longrightarrow> allocated s \<Longrightarrow>
    cpu_thread s (s\<lparr>cpuUsage := CalcCPUUsage i j, pc := Check_Running\<rparr>)"
| store_freed: "pc s = Store i j \<Longrightarrow> \<not> allocated s \<Longrightarrow> cpu_thread s (s\<lparr>use_after_free := True\<rparr>)"

text \<open>The destructor, and the release of the memory after it.\<close>

definition cpu_stop :: "CPUPrivate \<Rightarrow> CPUPrivate" where
  "cpu_stop s = s\<lparr>running := False\<rparr>"

definition cpu_free :: "CPUPrivate \<Rightarrow> CPUPrivate" where
  "cpu_free s = s\<lparr>allocated := False\<rparr>"

inductive cpu_step :: "CPUPrivate \<Rightarrow> CPUPrivate \<Rightarrow> bool" where
  cpu_runs: "cpu_thread s t \<Longrightarrow> cpu_step s t"
| cpu_stops: "allocated s \<Longrightarrow> cpu_step s (cpu_stop s)"
| cpu_frees: "allocated s \<Longrightarrow> \<not> running s \<Longrightarrow> cpu_step s (cpu_free s)"

abbreviation cpu_reachable :: "CPUPrivate \<Rightarrow> bool" where
  "cpu_reachable s \<equiv> cpu_step\<^sup>*\<^sup>* CPUPrivate_init s"

section \<open>The line of \<open>/proc/stat\<close>\<close>

definition stat_fields :: "(nat \<times> nat) list \<Rightarrow> string" where
  "stat_fields fs = concat (map (\<lambda>(pad, v). replicate pad (CHR '' '') @ dec_str v) fs)"

definition wf_fields :: "(nat \<times> nat) list \<Rightarrow> bool" where
  "wf_fields fs \<longleftrightarrow> (\<forall>(pad, v)\<in>set fs. 0 < pad \<and> v < 2 ^ 64)"

lemma ucast_of_nat_u64: "ucast (of_nat v :: u64) = (of_nat v :: u32)"
  by transfer (simp add: take_bit_take_bit min_def)

lemma delimited_fields: "wf_fields fs \<Longrightarrow> delimited rest \<Longrightarrow> delimited (stat_fields fs @ rest)"
proof (cases fs)
  case (Cons f fs')
  assume wf: "wf_fields fs"
  obtain pad v where "f = (Suc pad, v)"
    using Cons wf by (cases f; cases "fst f") (auto simp: wf_fields_def)
  then show ?thesis using Cons by (simp add: stat_fields_def delimited_def)
qed (simp add: stat_fields_def)

lemma scan_counters_fields:
  "wf_fields fs \<Longrightarrow> delimited rest \<Longrightarrow> n \<le> length fs \<Longrightarrow>
   scan_counters n (stat_fields fs @ rest) = map (\<lambda>(pad, v). of_nat v) (take n fs)"
proof (induction fs arbitrary: n)
  case Nil
  then show ?case by simp
next
  case (Cons f fs)
  obtain pad v where f: "f = (pad, v)" by (cases f)
  have wf: "wf_fields fs" "v < 2 ^ 64" using Cons.prems f by (auto simp: wf_fields_def)
  have d: "delimited (stat_fields fs @ rest)" using wf Cons.prems by (intro delimited_fields)
  have "scan_unsigned (stat_fields (f # fs) @ rest) = Some (of_nat v, stat_fields fs @ rest)"
    using scan_unsigned_dec [of "replicate pad (CHR '' '')" v "stat_fields fs @ rest"] wf d
    by (simp add: stat_fields_def f)
  with Cons wf show ?case by (cases n) (simp_all add: f ucast_of_nat_u64)
qed

lemma stat_fields_clean: "newline \<notin> set (stat_fields fs) \<and> CHR 0x00 \<notin> set (stat_fields fs)"
  by (induction fs) (auto simp: stat_fields_def dec_str_no_special newline_def)

lemma GetCPUInfo_line:
  assumes "token nm" "CHR 0x00 \<notin> set nm" "length nm < 20"
    and "wf_fields fs" "7 \<le> length fs" "length (nm @ stat_fields fs) < 255"
  shows "GetCPUInfo (Some (nm @ stat_fields fs @ newline # rest)) =
    Inr (info_of nm (map (\<lambda>(pad, v). of_nat v) (take 7 fs)))"
proof -
  let ?l = "nm @ stat_fields fs"
  have nl: "newline \<notin> set ?l" "CHR 0x00 \<notin> set (?l @ [newline])"
    using assms(1,2) stat_fields_clean [of fs] by (auto simp: token_def newline_def is_space_def)
  have "fgets 256 (open_stream (?l @ newline # rest)) =
      (Some (?l @ [newline]), (open_stream (?l @ newline # rest))\<lparr>pending := rest\<rparr>)"
    using assms(6) nl by (intro fgets_line) (auto simp: open_stream_def)
  moreover have "cstr (?l @ [newline]) = ?l @ [newline]" using nl by (rule_tac cstr_id)
  moreover have d: "delimited (stat_fields fs @ [newline])"
    using assms(4) by (rule delimited_fields) (simp add: delimited_def)
  then have "scan_str (nm @ stat_fields fs @ [newline]) = Some (nm, stat_fields fs @ [newline])"
    using scan_str_token [of "[]" nm] assms(1) by simp
  moreover have "scan_counters 7 (stat_fields fs @ [newline]) = map (\<lambda>(pad, v). of_nat v) (take 7 fs)"
    using assms(4,5) by (intro scan_counters_fields) (auto simp: delimited_def)
  ultimately show ?thesis using assms(3) by (simp add: GetCPUInfo_def)
qed

text \<open>C39: Sampling a \<open>/proc/stat\<close> whose first line is a short name and at least seven decimal
  counters, with any padding and anything after the line, stores the name and the first seven
  counters in the order of the file, user, nice, system, idle, iowait, irq and softirq, each modulo
  \<open>2\<^sup>3\<^sup>2\<close>.\<close>

theorem cpu_stat_parse:
  assumes "token nm" "CHR 0x00 \<notin> set nm" "length nm < 20"
    and "wf_fields fs" "7 \<le> length fs" "length (nm @ stat_fields fs) < 255"
  shows "GetCPUInfo (Some (nm @ stat_fields fs @ newline # rest)) = Inr
    \<lparr>name = nm, user = of_nat (snd (fs ! 0)), nice = of_nat (snd (fs ! 1)), system = of_nat (snd (fs ! 2)),
     idle = of_nat (snd (fs ! 3)), iowait = of_nat (snd (fs ! 4)), irq = of_nat (snd (fs ! 5)),
     softirq = of_nat (snd (fs ! 6))\<rparr>"
  unfolding GetCPUInfo_line [OF assms] using assms(5) by (simp add: info_of_def counter_def case_prod_unfold)

lemma dec_str_unfold: "dec_str n = (if n < 10 then [digit_char n] else dec_str (n div 10) @ [digit_char (n mod 10)])"
  by (rule dec_str.simps)

theorem cpu_stat_parse_witness:
  "GetCPUInfo (Some (''cpu'' @ stat_fields [(2, 10), (1, 20), (1, 30), (1, 4294967297), (1, 0), (1, 5), (1, 6), (1, 7)]
     @ newline # ''cpu0 1'')) =
   Inr \<lparr>name = ''cpu'', user = 10, nice = 20, system = 30, idle = 1, iowait = 0, irq = 5, softirq = 6\<rparr>"
  by (subst cpu_stat_parse)
    (simp_all add: token_def is_space_def wf_fields_def stat_fields_def dec_str_unfold info_of_def
      counter_def)

section \<open>The usage of two samples\<close>

lemma small_double:
  assumes "\<bar>x\<bar> \<le> 2 ^ 64"
  shows "dfinite (to_double x) \<and> dval (to_double x) = round_rat x"
proof -
  have "representable (2 ^ 64)"
    unfolding representable_def by (rule exI [of _ 1], rule exI [of _ 64]) simp
  from round_rat_abs_le [OF this assms] have "\<bar>round_rat x\<bar> \<le> 2 ^ 64" .
  then have "\<not> 2 ^ 1024 \<le> \<bar>round_rat x\<bar>" by (auto simp: not_le intro: le_less_trans)
  then show ?thesis by (auto simp: to_double_def Let_def)
qed

lemma dsub_finite: "dfinite b \<Longrightarrow> dsub (DFin a) b = to_double (a - dval b)"
  by (cases b) (auto simp: dsub_def)

lemma ddiv_finite:
  assumes "d \<noteq> 0" "\<bar>a / d\<bar> \<le> 2 ^ 64"
  shows "dfinite (ddiv (DFin a) (DFin d)) \<and> dval (ddiv (DFin a) (DFin d)) = round_rat (a / d)"
  using small_double [OF assms(2)] assms(1) by (auto simp: signed_zero_def)

definition total_delta :: "CPUInfo \<Rightarrow> CPUInfo \<Rightarrow> int" where
  "total_delta a b = int (unat (counter_sum b)) - int (unat (counter_sum a))"

definition idle_delta :: "CPUInfo \<Rightarrow> CPUInfo \<Rightarrow> nat" where
  "idle_delta a b = unat (idle b - idle a)"

definition rounded_usage :: "nat \<Rightarrow> int \<Rightarrow> rat" where
  "rounded_usage f d = round_rat (1 - round_rat (of_nat f / of_int d))"

lemma nat_difference:
  assumes "m < 2 ^ 32" "n < 2 ^ 32"
  shows "dsub (DFin (of_nat n)) (DFin (of_nat m)) = DFin (of_int (int n - int m))"
proof -
  have b: "\<bar>int n - int m\<bar> \<le> 2 ^ 53" using assms by (auto simp: abs_if)
  then have "of_int \<bar>int n - int m\<bar> \<le> (of_int (2 ^ 53) :: rat)" by (simp only: of_int_le_iff)
  then have "\<bar>of_int (int n - int m) :: rat\<bar> \<le> of_int (2 ^ 53)" by (simp only: of_int_abs)
  then have "\<bar>of_int (int n - int m) :: rat\<bar> < 2 ^ 1024" by (rule le_less_trans) simp
  with b have "to_double (of_int (int n - int m)) = DFin (of_int (int n - int m))"
    by (intro to_double_exact representable_int)
  then show ?thesis by (simp add: dsub_finite)
qed

lemma unat_u32: "unat (w :: u32) < 2 ^ 32"
  using unat_bound [of w] by simp

lemma idle_delta_bound: "idle_delta a b < 2 ^ 32"
  unfolding idle_delta_def by (rule unat_u32)

lemma ratio_bound: "d \<noteq> 0 \<Longrightarrow> f \<le> 2 ^ 32 - 1 \<Longrightarrow> \<bar>of_nat f / of_int d :: rat\<bar> \<le> 2 ^ 32 - 1"
proof -
  assume d: "d \<noteq> 0" and f: "f \<le> 2 ^ 32 - 1"
  have "1 \<le> \<bar>d\<bar>" using d by linarith
  then have "(1::rat) \<le> of_int \<bar>d\<bar>" by (simp only: of_int_1_le_iff)
  then have "of_nat f / of_int \<bar>d\<bar> \<le> (of_nat f :: rat) / 1" by (intro divide_left_mono) auto
  also have "\<dots> \<le> of_nat (2 ^ 32 - 1)" using f by (simp only: div_by_1 of_nat_le_iff)
  finally show ?thesis by (simp add: abs_divide)
qed

lemma usage_value:
  assumes "m < 2 ^ 32" "n < 2 ^ 32" "f < 2 ^ 32"
  defines "d \<equiv> int n - int m"
  defines "q \<equiv> dsub (DFin 1) (ddiv (DFin (of_nat f)) (dsub (DFin (of_nat n)) (DFin (of_nat m))))"
  shows "(if dless (DFin 0) q then q else DFin 0) = (if d = 0 then DFin 0 else DFin (max 0 (rounded_usage f d)))"
proof -
  have nd: "dsub (DFin (of_nat n)) (DFin (of_nat m)) = DFin (of_int d)"
    unfolding d_def by (rule nat_difference) fact+
  show ?thesis
  proof (cases "d = 0")
    case True
    then have "dsub (DFin (of_nat n)) (DFin (of_nat m)) = DFin 0" using nd by simp
    with True show ?thesis unfolding q_def by (simp add: dsub_def default_nan_def)
  next
    case False
    let ?r = "round_rat (of_nat f / of_int d)"
    have b: "\<bar>of_nat f / of_int d :: rat\<bar> \<le> 2 ^ 32 - 1"
      using assms(3) False by (intro ratio_bound) simp_all
    then have "\<bar>of_nat f / of_int d :: rat\<bar> \<le> 2 ^ 64" by simp
    then have "dfinite (ddiv (DFin (of_nat f)) (DFin (of_int d)))"
      and v: "dval (ddiv (DFin (of_nat f)) (DFin (of_int d))) = ?r"
      using ddiv_finite [of "of_int d" "of_nat f"] False by simp_all
    then have q: "q = to_double (1 - ?r)" by (simp only: q_def nd dsub_finite v)
    have "representable (2 ^ 32 - 1)" using representable_int [of "2 ^ 32 - 1"] by simp
    from round_rat_abs_le [OF this b] have "\<bar>?r\<bar> \<le> 2 ^ 32 - 1" .
    then have "\<bar>1 - ?r\<bar> \<le> 2 ^ 64" by (simp add: abs_le_iff)
    then have "dfinite q" "dval q = rounded_usage f d"
      using small_double [of "1 - ?r"] by (simp_all only: q rounded_usage_def)
    then show ?thesis using False by (cases q) (auto simp: max_def)
  qed
qed

lemma CalcCPUUsage_value:
  "CalcCPUUsage a b =
     (if total_delta a b = 0 then DFin 0
      else DFin (max 0 (rounded_usage (idle_delta a b) (total_delta a b))))"
  unfolding CalcCPUUsage_def Let_def double_of_u32 total_delta_def idle_delta_def
  by (rule usage_value) (rule unat_u32)+

lemma rounded_usage_upper: "d \<noteq> 0 \<Longrightarrow> f \<le> 2 ^ 32 - 1 \<Longrightarrow> rounded_usage f d \<le> 2 ^ 32"
proof -
  assume "d \<noteq> 0" "f \<le> 2 ^ 32 - 1"
  then have "\<bar>of_nat f / of_int d :: rat\<bar> \<le> 2 ^ 32 - 1" by (rule ratio_bound)
  then have "- (2 ^ 32 - 1) \<le> (of_nat f / of_int d :: rat)" by (simp only: abs_le_iff) linarith
  moreover have "representable (- (2 ^ 32 - 1))" using representable_int [of "- (2 ^ 32 - 1)"] by simp
  ultimately have "- (2 ^ 32 - 1) \<le> round_rat (of_nat f / of_int d)" by (intro ieee.rnd_lower)
  then have "1 - round_rat (of_nat f / of_int d) \<le> 2 ^ 32" by simp
  moreover have "representable (2 ^ 32)" using representable_int [of "2 ^ 32"] by simp
  ultimately show ?thesis unfolding rounded_usage_def by (intro ieee.rnd_upper)
qed

lemma rounded_usage_unit: "int f \<le> d \<Longrightarrow> 0 < d \<Longrightarrow> 0 \<le> rounded_usage f d \<and> rounded_usage f d \<le> 1"
proof -
  assume f: "int f \<le> d" "0 < d"
  then have "(of_nat f :: rat) \<le> of_int d" by (metis of_int_le_iff of_int_of_nat_eq)
  with f have "0 \<le> round_rat (of_nat f / of_int d)" "round_rat (of_nat f / of_int d) \<le> 1"
    using ieee.rnd_ratio [of "of_nat f" "of_int d"] by simp_all
  then show ?thesis unfolding rounded_usage_def
    by (intro ieee.rnd_between) simp_all
qed

lemma rounded_usage_wrapped: "d < 0 \<Longrightarrow> 1 \<le> rounded_usage f d"
proof -
  assume d: "d < 0"
  then have "(of_nat f / of_int d :: rat) \<le> 0" by (simp add: divide_nonneg_neg)
  then have "round_rat (of_nat f / of_int d) \<le> 0" by (rule round_rat_sign)
  then show ?thesis unfolding rounded_usage_def by (intro ieee.rnd_lower) simp_all
qed

lemma CalcCPUUsage_range: "\<exists>r. CalcCPUUsage a b = DFin r \<and> 0 \<le> r \<and> r \<le> 2 ^ 32"
  using rounded_usage_upper [of "total_delta a b" "idle_delta a b"] idle_delta_bound [of a b]
  by (simp add: CalcCPUUsage_value)

text \<open>For every two samples the computed usage is a finite number, never negative, never a
  NaN (a zero interval gives 0) and at most \<open>2\<^sup>3\<^sup>2\<close>.\<close>

theorem cpu_usage_finite: "\<exists>r. CalcCPUUsage a b = DFin r \<and> 0 \<le> r \<and> r \<le> 2 ^ 32"
  by (rule CalcCPUUsage_range)

definition counters :: "CPUInfo \<Rightarrow> u32 list" where
  "counters i = [user i, nice i, system i, idle i, iowait i, irq i, softirq i]"

definition total :: "CPUInfo \<Rightarrow> nat" where
  "total i = sum_list (map unat (counters i))"

lemma unat_counter_sum: "unat (counter_sum i) = total i mod 2 ^ 32"
proof -
  have "counter_sum i = of_nat (total i)"
    by (simp add: counter_sum_def total_def counters_def add.assoc)
  then show ?thesis by (simp add: unat_of_nat take_bit_eq_mod)
qed

text \<open>Every counter of the later sample is at least the earlier one's.\<close>

definition advances :: "CPUInfo \<Rightarrow> CPUInfo \<Rightarrow> bool" where
  "advances a b \<longleftrightarrow> list_all2 (\<lambda>x y. unat x \<le> unat y) (counters a) (counters b)"

lemma advances_delta:
  assumes "advances a b" "total b < 2 ^ 32"
  shows "total_delta a b = int (total b - total a)" "total a \<le> total b"
    and "idle_delta a b = unat (idle b) - unat (idle a)"
    and "idle_delta a b \<le> total b - total a"
proof -
  have le: "unat (user a) \<le> unat (user b)" "unat (nice a) \<le> unat (nice b)"
    "unat (system a) \<le> unat (system b)" "unat (idle a) \<le> unat (idle b)"
    "unat (iowait a) \<le> unat (iowait b)" "unat (irq a) \<le> unat (irq b)"
    "unat (softirq a) \<le> unat (softirq b)"
    using assms(1) by (simp_all add: advances_def counters_def)
  then show t: "total a \<le> total b" by (simp only: total_def counters_def list.map sum_list.Cons sum_list.Nil)
  with assms(2) show "total_delta a b = int (total b - total a)"
    by (simp add: total_delta_def unat_counter_sum)
  show i: "idle_delta a b = unat (idle b) - unat (idle a)"
    using le(4) by (simp only: idle_delta_def unat_minus_le)
  show "idle_delta a b \<le> total b - total a"
    using le unfolding i total_def counters_def by simp
qed

text \<open>C18: when the counters only advance between two samples, without a 32-bit overflow of
  their sum, the usage is a number between 0 and 1, the complement of the rounded quotient of the
  idle time and the whole, and \<open>GetCpuUsage\<close> prints it within half a percent.\<close>

theorem cpu_usage_percentage:
  assumes "advances a b" "total b < 2 ^ 32" "total a < total b"
  shows "\<exists>r n. CalcCPUUsage a b = DFin r \<and> 0 \<le> r \<and> r \<le> 1
    \<and> r = round_rat (1 - round_rat (of_nat (unat (idle b) - unat (idle a)) / of_nat (total b - total a)))
    \<and> GetCpuUsage (CalcCPUUsage a b) (CalcCPUUsage a b) = '' '' @ fixed_digits 2 n \<and> n \<le> 100
    \<and> \<bar>of_nat n / 100 - r\<bar> \<le> 1 / 200"
proof -
  let ?r = "rounded_usage (idle_delta a b) (total_delta a b)"
  note d = advances_delta [OF assms(1,2)]
  have r: "0 \<le> ?r" "?r \<le> 1"
    using rounded_usage_unit [of "idle_delta a b" "total_delta a b"] d assms(3) by simp_all
  have "CalcCPUUsage a b = DFin ?r"
    using r d assms(3) by (simp add: CalcCPUUsage_value max_def)
  moreover have "GetCpuUsage (DFin ?r) (DFin ?r) = '' '' @ fixed_digits 2 (scaled 2 ?r)"
    using fmt_fixed_ratio [OF r] r by (simp add: GetCpuUsage_def GetCPUUSage_def)
  ultimately show ?thesis
    using r d fmt_fixed_ratio [OF r]
    by (intro exI [of _ ?r] exI [of _ "scaled 2 ?r"]) (simp add: rounded_usage_def)
qed

theorem cpu_usage_percentage_witness:
  "\<exists>r n. CalcCPUUsage (info_of ''cpu'' [10, 0, 10, 80]) (info_of ''cpu'' [20, 0, 20, 160]) = DFin r
    \<and> 0 \<le> r \<and> r \<le> 1 \<and> n \<le> 100 \<and> \<bar>of_nat n / 100 - r\<bar> \<le> 1 / 200"
  using cpu_usage_percentage [of "info_of ''cpu'' [10, 0, 10, 80]" "info_of ''cpu'' [20, 0, 20, 160]"]
  by (simp add: advances_def total_def counters_def info_of_def counter_def) blast

text \<open>When the 32-bit sum of the counters wraps between two samples (every 497 days of
  CPU time at 100 ticks a second), the reported usage is at least 100 percent, however idle the
  machine was.\<close>

theorem cpu_usage_wrapped:
  assumes "total b mod 2 ^ 32 < total a mod 2 ^ 32"
  shows "\<exists>r. CalcCPUUsage a b = DFin r \<and> 1 \<le> r"
proof -
  have "total_delta a b < 0" using assms by (simp add: total_delta_def unat_counter_sum)
  then show ?thesis using rounded_usage_wrapped [of "total_delta a b" "idle_delta a b"]
    by (simp add: CalcCPUUsage_value max_def)
qed

theorem cpu_usage_wrapped_witness:
  "\<exists>r. CalcCPUUsage (info_of ''cpu'' [10, 0, 10, 4294967200]) (info_of ''cpu'' [10, 0, 10, 4294967290]) = DFin r
    \<and> 1 \<le> r"
  by (rule cpu_usage_wrapped) (simp add: total_def counters_def info_of_def counter_def)

section \<open>Model name and clock\<close>

text \<open>The lines of \<open>/proc/cpuinfo\<close> the reader passes over.\<close>

definition skipped :: "string \<Rightarrow> bool" where
  "skipped l \<longleftrightarrow> take 10 l \<noteq> ''model name'' \<and> take 7 l \<noteq> ''cpu MHz''"

text \<open>A \<open>key ... : value\<close> line with blanks around the value.\<close>

definition value_line :: "string \<Rightarrow> string \<Rightarrow> string \<Rightarrow> string \<Rightarrow> string \<Rightarrow> string" where
  "value_line key tab pre t post = key @ tab @ '':'' @ pre @ t @ post"

definition wf_value :: "string \<Rightarrow> string \<Rightarrow> string \<Rightarrow> string \<Rightarrow> bool" where
  "wf_value tab pre t post \<longleftrightarrow>
     CHR '':'' \<notin> set tab \<and> (\<forall>c\<in>set (pre @ post). isSpace c) \<and>
     (t \<noteq> [] \<longrightarrow> \<not> isSpace (hd t) \<and> \<not> isSpace (last t))"

lemma cpuinfo_loop_line:
  assumes "plain_line l"
  shows "cpuinfo_loop \<lparr>pending = l @ newline # rest, at_eof = False\<rparr> acc =
    (let acc' = cpuinfo_line (l @ [newline]) acc
     in if snd (snd acc') = 2 then acc' else cpuinfo_loop \<lparr>pending = rest, at_eof = False\<rparr> acc')"
  using assms fgets_line [of l 1023 "\<lparr>pending = l @ newline # rest, at_eof = False\<rparr>" rest]
  by (subst cpuinfo_loop.simps) (simp add: plain_line_def)

lemma cpuinfo_line_plain:
  assumes "plain_line l"
  shows "cpuinfo_line (l @ [newline]) (m, k, n) =
    (let value = strip (substr_after (CHR '':'') (l @ [newline]));
         a = (take 10 l = ''model name''); b = (take 7 l = ''cpu MHz'')
     in (if a then value else m, if b then value else k, n + of_bool a + of_bool b))"
  using strncmp_line [OF assms, of "''model name''" 10] strncmp_line [OF assms, of "''cpu MHz''" 7]
    cstr_line [OF assms]
  by (auto simp: cpuinfo_line_def string_trimmed_eq_strip newline_def Let_def)

lemma value_line_value:
  "wf_value tab pre t post \<Longrightarrow> CHR '':'' \<notin> set key \<Longrightarrow>
   strip (substr_after (CHR '':'') (value_line key tab pre t post @ [newline])) = t"
  using substr_after_split [of "CHR '':''" "key @ tab" "pre @ t @ post @ [newline]"]
    strip_padded [of pre "post @ [newline]" t]
  by (auto simp: wf_value_def value_line_def isSpace_is_space)

lemma cpuinfo_loop_skip:
  "\<forall>l\<in>set ls. plain_line l \<and> skipped l \<Longrightarrow> snd (snd acc) \<noteq> 2 \<Longrightarrow>
   cpuinfo_loop \<lparr>pending = unlines ls @ rest, at_eof = False\<rparr> acc =
   cpuinfo_loop \<lparr>pending = rest, at_eof = False\<rparr> acc"
proof (induction ls)
  case Nil
  then show ?case by (simp add: unlines_def)
next
  case (Cons l ls)
  obtain m k n where "acc = (m, k, n)" by (cases acc)
  with Cons show ?case
    using cpuinfo_loop_line [of l "unlines ls @ rest" acc]
    by (simp add: unlines_def cpuinfo_line_plain skipped_def Let_def)
qed

lemma cpuinfo_loop_model:
  assumes "wf_value tab pre t post" "plain_line (value_line ''model name'' tab pre t post)"
  shows "cpuinfo_loop \<lparr>pending = value_line ''model name'' tab pre t post @ newline # rest, at_eof = False\<rparr> (m, k, n) =
    (if n + 1 = 2 then (t, k, 2) else cpuinfo_loop \<lparr>pending = rest, at_eof = False\<rparr> (t, k, n + 1))"
  using assms by (simp add: cpuinfo_loop_line cpuinfo_line_plain value_line_value)
    (simp add: value_line_def)

lemma cpuinfo_loop_clock:
  assumes "wf_value tab pre t post" "plain_line (value_line ''cpu MHz'' tab pre t post)"
  shows "cpuinfo_loop \<lparr>pending = value_line ''cpu MHz'' tab pre t post @ newline # rest, at_eof = False\<rparr> (m, k, n) =
    (if n + 1 = 2 then (m, t, 2) else cpuinfo_loop \<lparr>pending = rest, at_eof = False\<rparr> (m, t, n + 1))"
  using assms by (simp add: cpuinfo_loop_line cpuinfo_line_plain value_line_value)
    (cases tab; simp add: value_line_def)

lemma cpuinfo_model_clock:
  assumes "\<forall>l\<in>set (before @ middle). plain_line l \<and> skipped l"
    and "wf_value tab pre m post" "plain_line (value_line ''model name'' tab pre m post)"
    and "wf_value tab' pre' k post'" "plain_line (value_line ''cpu MHz'' tab' pre' k post')"
  shows "GetCPUModelNameAndBaseClock (Some
      (unlines (before @ [value_line ''model name'' tab pre m post] @ middle @
                [value_line ''cpu MHz'' tab' pre' k post']) @ rest)) = Inr (m, k)"
proof -
  have "cpuinfo_loop \<lparr>pending = unlines before @ value_line ''model name'' tab pre m post @ newline #
      unlines middle @ value_line ''cpu MHz'' tab' pre' k post' @ newline # rest, at_eof = False\<rparr>
      ([], [], 0) = (m, k, 2)"
    using assms by (simp add: cpuinfo_loop_skip cpuinfo_loop_model cpuinfo_loop_clock)
  then show ?thesis
    by (simp add: GetCPUModelNameAndBaseClock_def open_stream_def unlines_def)
qed

text \<open>C40: From a \<open>/proc/cpuinfo\<close> with a \<open>model name\<close> line followed, after any other lines, by
  a \<open>cpu MHz\<close> line, the reader returns the two values without the blanks around them, whatever
  the file holds after that (the entries of the other cores).\<close>

theorem cpuinfo_parse:
  assumes "\<forall>l\<in>set (before @ middle). plain_line l \<and> skipped l"
    and "wf_value tab pre m post" "plain_line (value_line ''model name'' tab pre m post)"
    and "wf_value tab' pre' k post'" "plain_line (value_line ''cpu MHz'' tab' pre' k post')"
  shows "GetCPUModelNameAndBaseClock (Some
      (unlines (before @ [value_line ''model name'' tab pre m post] @ middle @
                [value_line ''cpu MHz'' tab' pre' k post']) @ rest)) = Inr (m, k)"
  using assms by (rule cpuinfo_model_clock)

theorem cpuinfo_parse_witness:
  "GetCPUModelNameAndBaseClock (Some
      (unlines ([''processor : 0''] @ [value_line ''model name'' [CHR 0x09] '' '' ''Xeon E5'' []] @
                [''stepping : 1''] @ [value_line ''cpu MHz'' [CHR 0x09] '' '' ''2199.998'' []]) @
       ''processor : 1'')) = Inr (''Xeon E5'', ''2199.998'')"
  by (rule cpuinfo_parse)
    (simp_all add: plain_line_def skipped_def wf_value_def value_line_def isSpace_def newline_def)

text \<open>The early exit counts matches, not kinds: when two \<open>model name\<close> lines come before any
  \<open>cpu MHz\<close> line, the reader stops with the second name and an empty clock, even if a clock
  follows.\<close>

theorem cpuinfo_two_models:
  assumes "\<forall>l\<in>set (before @ middle). plain_line l \<and> skipped l"
    and "wf_value tab pre m post" "plain_line (value_line ''model name'' tab pre m post)"
    and "wf_value tab' pre' m' post'" "plain_line (value_line ''model name'' tab' pre' m' post')"
  shows "GetCPUModelNameAndBaseClock (Some
      (unlines (before @ [value_line ''model name'' tab pre m post] @ middle @
                [value_line ''model name'' tab' pre' m' post']) @ rest)) = Inr (m', [])"
proof -
  have "cpuinfo_loop \<lparr>pending = unlines before @ value_line ''model name'' tab pre m post @ newline #
      unlines middle @ value_line ''model name'' tab' pre' m' post' @ newline # rest, at_eof = False\<rparr>
      ([], [], 0) = (m', [], 2)"
    using assms by (simp add: cpuinfo_loop_skip cpuinfo_loop_model)
  then show ?thesis
    by (simp add: GetCPUModelNameAndBaseClock_def open_stream_def unlines_def)
qed

theorem cpuinfo_two_models_witness:
  "GetCPUModelNameAndBaseClock (Some
      (unlines ([] @ [value_line ''model name'' [] '' '' ''ARMv8'' []] @ [''BogoMIPS : 50.00''] @
                [value_line ''model name'' [] '' '' ''ARMv8'' []]) @ ''cpu MHz : 1500'')) =
   Inr (''ARMv8'', [])"
  by (rule cpuinfo_two_models)
    (simp_all add: plain_line_def skipped_def wf_value_def value_line_def isSpace_def newline_def)

section \<open>The life of the sampling thread\<close>

inductive_cases cpu_threadE: "cpu_thread s t"
inductive_cases cpu_stepE: "cpu_step s t"

lemmas cpu_owner_defs = cpu_stop_def cpu_free_def

text \<open>Every sample of the thread is a reading of \<open>/proc/stat\<close>.\<close>

definition proc_sample :: "CPUInfo \<Rightarrow> bool" where
  "proc_sample i \<longleftrightarrow> (\<exists>file. GetCPUInfo file = Inr i)"

lemma cpu_step_genuine:
  "cpu_step s t \<Longrightarrow> set (samples s) \<subseteq> Collect proc_sample \<Longrightarrow> set (samples t) \<subseteq> Collect proc_sample"
  by (elim cpu_stepE cpu_threadE) (auto simp: cpu_owner_defs proc_sample_def)

lemma cpu_thread_keeps: "cpu_thread s t \<Longrightarrow> allocated t = allocated s \<and> running t = running s"
  by (elim cpu_threadE) auto

lemma cpu_step_finished: "cpu_step s t \<Longrightarrow> pc s = Finished \<Longrightarrow> pc t = Finished"
  by (elim cpu_stepE cpu_threadE) (auto simp: cpu_owner_defs)

lemma cpu_step_harm:
  "cpu_step s t \<Longrightarrow> use_after_free t \<Longrightarrow> use_after_free s \<or> \<not> allocated s \<and> pc s \<noteq> Finished"
  by (elim cpu_stepE cpu_threadE) (auto simp: cpu_owner_defs)

interpretation cpu_object: sampled_object cpu_step CPUPrivate_init allocated "\<lambda>s. pc s = Finished"
    use_after_free "\<lambda>s. set (samples s)" proc_sample
proof unfold_locales
  fix s t
  show "\<not> allocated t" if "cpu_step s t" "\<not> allocated s"
    using that by (elim cpu_stepE) (auto simp: cpu_owner_defs dest: cpu_thread_keeps)
  show "set (samples t) \<subseteq> Collect proc_sample" if "cpu_step s t" "set (samples s) \<subseteq> Collect proc_sample"
    using that by (rule cpu_step_genuine)
qed (auto simp: CPUPrivate_init_def dest: cpu_step_finished cpu_step_harm)

text \<open>Once a sample is stored there is no way back to the constructor's value.\<close>

definition stored :: "CPUPrivate \<Rightarrow> bool" where
  "stored s \<longleftrightarrow> cpuUsage s \<noteq> DFin (- 1)"

lemma CalcCPUUsage_not_initial: "CalcCPUUsage i j \<noteq> DFin (- 1)"
  using CalcCPUUsage_range [of i j] by fastforce

lemma stored_step: "cpu_step s t \<Longrightarrow> stored s \<Longrightarrow> stored t"
  by (elim cpu_stepE cpu_threadE) (auto simp: cpu_owner_defs stored_def CalcCPUUsage_not_initial)

lemma stored_stays: "cpu_step\<^sup>*\<^sup>* s t \<Longrightarrow> stored s \<Longrightarrow> stored t"
  by (erule rtranclp_keeps) (auto intro: stored_step)

lemma samples_genuine: "cpu_reachable s \<Longrightarrow> i \<in> set (samples s) \<Longrightarrow> proc_sample i"
  by (rule cpu_object.genuine_reachable)

text \<open>
  The thread takes its samples in rounds of two. \<open>cpu_rounds s xs\<close>: in \<open>s\<close> the samples \<open>xs\<close> are those
  of the rounds that are over, and what comes after them belongs to the round under way.
\<close>

definition in_progress :: "cpu_pc \<Rightarrow> CPUInfo list" where
  "in_progress p = (case p of Sleeping i \<Rightarrow> [i] | Sample_New i \<Rightarrow> [i] | Store i j \<Rightarrow> [i, j] | _ \<Rightarrow> [])"

definition cpu_rounds :: "CPUPrivate \<Rightarrow> CPUInfo list \<Rightarrow> bool" where
  "cpu_rounds s xs \<longleftrightarrow> samples s = xs @ in_progress (pc s) \<and> even (length xs)"

definition latest_usage :: "CPUInfo list \<Rightarrow> double" where
  "latest_usage xs = (if xs = [] then DFin (- 1) else CalcCPUUsage (last (butlast xs)) (last xs))"

definition cpu_history :: "CPUPrivate \<Rightarrow> bool" where
  "cpu_history s \<longleftrightarrow> (\<exists>xs. cpu_rounds s xs \<and> cpuUsage s = latest_usage xs)"

lemma cpu_thread_history: "cpu_thread s t \<Longrightarrow> cpu_history s \<Longrightarrow> cpu_history t"
proof (induction rule: cpu_thread.induct)
  case (store s i j)
  then obtain xs where "samples s = xs @ [i, j]" "even (length xs)"
    by (auto simp: cpu_history_def cpu_rounds_def in_progress_def)
  then show ?case
    by (auto simp: cpu_history_def cpu_rounds_def in_progress_def latest_usage_def butlast_append
        intro!: exI [of _ "xs @ [i, j]"])
qed (auto simp: cpu_history_def cpu_rounds_def in_progress_def)

lemma cpu_step_history: "cpu_step s t \<Longrightarrow> cpu_history s \<Longrightarrow> cpu_history t"
  by (elim cpu_stepE; (rule cpu_thread_history; assumption)?)
    (auto simp: cpu_owner_defs cpu_history_def cpu_rounds_def)

lemma cpu_reachable_history:
  assumes "cpu_reachable s"
  obtains xs where "cpu_rounds s xs" "cpuUsage s = latest_usage xs"
proof -
  have "cpu_history CPUPrivate_init"
    by (simp add: cpu_history_def cpu_rounds_def in_progress_def latest_usage_def CPUPrivate_init_def)
  with assms have "cpu_history s" by (rule rtranclp_keeps) (rule cpu_step_history)
  with that show thesis by (auto simp: cpu_history_def)
qed

lemma latest_usage_range:
  "xs \<noteq> [] \<Longrightarrow> \<exists>r. latest_usage xs = DFin r \<and> 0 \<le> r \<and> r \<le> 2 ^ 32"
  using CalcCPUUsage_range by (simp add: latest_usage_def)

lemma latest_usage_initial: "latest_usage xs = DFin (- 1) \<longleftrightarrow> xs = []"
  by (auto simp: latest_usage_def CalcCPUUsage_not_initial)

text \<open>What two loads find: 0 before the first round is over, and then the usage of the last round over
  at the second load, from the first to the second sample of the round.\<close>

definition usage_seen :: "CPUPrivate \<Rightarrow> CPUPrivate \<Rightarrow> double \<Rightarrow> bool" where
  "usage_seen s t u \<longleftrightarrow>
     (\<exists>ys xs. cpu_rounds s ys \<and> cpu_rounds t xs \<and>
        u = (if ys = [] then DFin 0 else CalcCPUUsage (last (butlast xs)) (last xs)) \<and> (ys \<noteq> [] \<longrightarrow> xs \<noteq> []))"

lemma GetCPUUSage_loads:
  assumes "cpu_reachable s" "cpu_step\<^sup>*\<^sup>* s t"
  shows "usage_seen s t (GetCPUUSage (cpuUsage s) (cpuUsage t))"
proof -
  obtain ys where ys: "cpu_rounds s ys" "cpuUsage s = latest_usage ys" by (rule cpu_reachable_history [OF assms(1)])
  have "cpu_reachable t" using assms by (rule rtranclp_trans)
  then obtain xs where xs: "cpu_rounds t xs" "cpuUsage t = latest_usage xs" by (rule cpu_reachable_history)
  have later: "xs \<noteq> []" if "ys \<noteq> []"
    using that stored_stays [OF assms(2)] ys(2) xs(2) by (simp add: stored_def latest_usage_initial)
  show ?thesis
  proof (cases "ys = []")
    case True
    with ys xs show ?thesis
      unfolding usage_seen_def by (intro exI [of _ ys] exI [of _ xs]) (simp add: GetCPUUSage_def latest_usage_def)
  next
    case False
    with latest_usage_range [of ys] ys(2) have "\<not> dless (cpuUsage s) (DFin 0)" by auto
    with False ys xs later show ?thesis
      unfolding usage_seen_def by (intro exI [of _ ys] exI [of _ xs]) (simp add: GetCPUUSage_def latest_usage_def)
  qed
qed

lemma usage_seen_range: "usage_seen s t u \<Longrightarrow> \<exists>r. u = DFin r \<and> 0 \<le> r \<and> r \<le> 2 ^ 32"
  using CalcCPUUsage_range by (auto simp: usage_seen_def)

text \<open>C19: At every moment of the thread's life, what the two loads of an accessor give, between which
  the thread may go on: 0 while no round of the thread is over, and otherwise the usage from the
  first to the second sample of the last round that is over at the second load. The samples are
  readings of \<open>/proc/stat\<close>, and the number is finite and never negative.\<close>

theorem cpu_usage_invariant:
  assumes "cpu_reachable s" "cpu_step\<^sup>*\<^sup>* s t"
  shows "\<exists>ys xs. samples s = ys @ in_progress (pc s) \<and> even (length ys) \<and>
      samples t = xs @ in_progress (pc t) \<and> even (length xs) \<and> (\<forall>i\<in>set (samples t). proc_sample i) \<and>
      GetCPUUSage (cpuUsage s) (cpuUsage t) =
        (if ys = [] then DFin 0 else CalcCPUUsage (last (butlast xs)) (last xs)) \<and> (ys \<noteq> [] \<longrightarrow> xs \<noteq> []) \<and>
      (\<exists>r. GetCPUUSage (cpuUsage s) (cpuUsage t) = DFin r \<and> 0 \<le> r \<and> r \<le> 2 ^ 32)"
proof -
  have "cpu_reachable t" using assms by (rule rtranclp_trans)
  then have "\<forall>i\<in>set (samples t). proc_sample i" using samples_genuine by blast
  with GetCPUUSage_loads [OF assms] usage_seen_range [OF GetCPUUSage_loads [OF assms]] show ?thesis
    unfolding usage_seen_def cpu_rounds_def by metis
qed

lemma sample_newline: "GetCPUInfo (Some [newline]) = Inr (info_of [] [])"
proof -
  have "fgets 256 (open_stream [newline]) = (Some [newline], \<lparr>pending = [], at_eof = False\<rparr>)"
    using fgets_line [of "[]" 256 "open_stream [newline]" "[]"] by (simp add: open_stream_def)
  then show ?thesis
    by (simp add: GetCPUInfo_def cstr_def newline_def scan_str_def skip_ws_def is_space_def)
qed

lemma sample_exists: "\<exists>file i. GetCPUInfo file = Inr i"
  using sample_newline by blast

lemma cpu_thread_sample:
  "pc s = Sample_Old \<Longrightarrow> \<exists>i. cpu_thread s (s\<lparr>pc := Sleeping i, samples := samples s @ [i]\<rparr>)"
  "pc s = Sample_New i \<Longrightarrow> \<exists>j. cpu_thread s (s\<lparr>pc := Store i j, samples := samples s @ [j]\<rparr>)"
  using sample_exists cpu_thread.sample_old cpu_thread.sample_new by blast+

theorem cpu_usage_invariant_witness:
  "\<exists>s i. cpu_step\<^sup>*\<^sup>* CPUPrivate_init s \<and> samples s = [i, i] \<and> GetCPUUSage (cpuUsage s) (cpuUsage s) = CalcCPUUsage i i"
proof -
  let ?i = "info_of [] []" and ?init = CPUPrivate_init
  let ?s = "?init\<lparr>cpuUsage := CalcCPUUsage ?i ?i, pc := Check_Running, samples := [?i, ?i]\<rparr>"
  have "cpu_thread\<^sup>*\<^sup>* ?init ?s"
    using check_go [of ?init] sample_old [of "?init\<lparr>pc := Sample_Old\<rparr>" _ ?i, OF _ sample_newline]
      wake [of "?init\<lparr>pc := Sleeping ?i, samples := [?i]\<rparr>" ?i]
      sample_new [of "?init\<lparr>pc := Sample_New ?i, samples := [?i]\<rparr>" ?i _ ?i, OF _ sample_newline]
      store [of "?init\<lparr>pc := Store ?i ?i, samples := [?i, ?i]\<rparr>" ?i ?i]
    by (simp add: CPUPrivate_init_def)
  then have s: "cpu_step\<^sup>*\<^sup>* ?init ?s"
    by (rule rtranclp_mono [THEN predicate2D, rotated]) (auto intro: cpu_runs)
  from cpu_usage_invariant [OF s rtranclp.rtrancl_refl]
  have "GetCPUUSage (cpuUsage ?s) (cpuUsage ?s) = CalcCPUUsage ?i ?i" by (auto simp: in_progress_def)
  with s show ?thesis by (intro exI [of _ ?s] exI [of _ ?i]) simp
qed

text \<open>From a freed object every place of the loop leads to an access.\<close>

lemma freed_after_step:
  "cpu_thread s s' \<Longrightarrow> \<exists>t. cpu_thread\<^sup>*\<^sup>* s' t \<and> use_after_free t \<Longrightarrow> \<exists>t. cpu_thread\<^sup>*\<^sup>* s t \<and> use_after_free t"
  by (meson converse_rtranclp_into_rtranclp)

lemma freed_store: "pc s = Store i j \<Longrightarrow> \<not> allocated s \<Longrightarrow> \<exists>t. cpu_thread\<^sup>*\<^sup>* s t \<and> use_after_free t"
  using cpu_thread.store_freed [of s] by (auto intro!: exI [of _ "s\<lparr>use_after_free := True\<rparr>"])

lemma freed_sample_new:
  assumes "pc s = Sample_New i" "\<not> allocated s"
  shows "\<exists>t. cpu_thread\<^sup>*\<^sup>* s t \<and> use_after_free t"
proof -
  obtain j where "cpu_thread s (s\<lparr>pc := Store i j, samples := samples s @ [j]\<rparr>)" using cpu_thread_sample(2) [OF assms(1)] by blast
  then show ?thesis by (rule freed_after_step) (rule freed_store, use assms in auto)
qed

lemma freed_sleeping: "pc s = Sleeping i \<Longrightarrow> \<not> allocated s \<Longrightarrow> \<exists>t. cpu_thread\<^sup>*\<^sup>* s t \<and> use_after_free t"
  by (rule freed_after_step, erule cpu_thread.wake) (rule freed_sample_new, auto)

lemma freed_sample_old:
  assumes "pc s = Sample_Old" "\<not> allocated s"
  shows "\<exists>t. cpu_thread\<^sup>*\<^sup>* s t \<and> use_after_free t"
proof -
  obtain i where "cpu_thread s (s\<lparr>pc := Sleeping i, samples := samples s @ [i]\<rparr>)" using cpu_thread_sample(1) [OF assms(1)] by blast
  then show ?thesis by (rule freed_after_step) (rule freed_sleeping, use assms in auto)
qed

lemma freed_check:
  assumes "pc s = Check_Running" "\<not> allocated s"
  shows "\<exists>t. cpu_thread\<^sup>*\<^sup>* s t \<and> use_after_free t"
  using cpu_thread.check_freed [OF assms] by (auto intro!: exI [of _ "s\<lparr>use_after_free := True\<rparr>"])

lemma cpu_thread_harms:
  assumes "\<not> allocated s" "pc s \<noteq> Finished"
  shows "\<exists>t. cpu_thread\<^sup>*\<^sup>* s t \<and> use_after_free t"
  using assms freed_check freed_sample_old freed_sleeping freed_sample_new freed_store
  by (cases "pc s") blast+

text \<open>C22: The destructor does not wait for the detached thread: at any moment of its life before it has
  returned, the owner can store the flag and release the object in two steps of its own, and from
  there the steps of the thread alone lead to an access to the freed members.\<close>

theorem cpu_thread_outlives_object:
  assumes "cpu_reachable s" "allocated s" "pc s \<noteq> Finished"
  shows "cpu_step s (cpu_stop s) \<and> cpu_step (cpu_stop s) (cpu_free (cpu_stop s)) \<and>
    cpu_reachable (cpu_free (cpu_stop s)) \<and>
    (\<exists>t. cpu_thread\<^sup>*\<^sup>* (cpu_free (cpu_stop s)) t \<and> use_after_free t)"
proof -
  have stop: "cpu_step s (cpu_stop s)" using assms(2) by (rule cpu_stops)
  moreover have "cpu_step (cpu_stop s) (cpu_free (cpu_stop s))"
    by (rule cpu_frees) (simp_all add: cpu_stop_def assms)
  moreover from assms(1) stop this have "cpu_reachable (cpu_free (cpu_stop s))" by simp
  moreover have "\<exists>t. cpu_thread\<^sup>*\<^sup>* (cpu_free (cpu_stop s)) t \<and> use_after_free t"
    using assms(3) by (intro cpu_thread_harms) (simp_all add: cpu_owner_defs)
  ultimately show ?thesis by blast
qed

theorem cpu_thread_outlives_object_witness:
  "\<exists>t. cpu_thread\<^sup>*\<^sup>* (cpu_free (cpu_stop CPUPrivate_init)) t \<and> use_after_free t"
  using cpu_thread_outlives_object [of CPUPrivate_init] by (simp add: CPUPrivate_init_def)

section \<open>The cache\<close>

text \<open>Once a non-empty model name (or clock) has been read, later calls return it without
  looking at the file again; while it is empty every call reads the file anew.\<close>

theorem cpu_cache:
  "(GetCPUModelName file c = Inr (m, c') \<and> m \<noteq> [] \<longrightarrow> GetCPUModelName file' c' = Inr (m, c')) \<and>
   (GetCpuBaseClock file c = Inr (k, c'') \<and> k \<noteq> [] \<longrightarrow> GetCpuBaseClock file' c'' = Inr (k, c''))"
  by (auto simp: GetCPUModelName_def GetCpuBaseClock_def mapE_eq_Inr split: if_splits prod.splits)

theorem cpu_cache_witness:
  "GetCPUModelName None \<lparr>modelName = ''Xeon'', baseClock = []\<rparr> = Inr (''Xeon'', \<lparr>modelName = ''Xeon'', baseClock = []\<rparr>)"
  using cpu_cache [of None "\<lparr>modelName = ''Xeon'', baseClock = []\<rparr>" "''Xeon''" "\<lparr>modelName = ''Xeon'', baseClock = []\<rparr>" None]
  by (simp add: GetCPUModelName_def)

end
