(* ===== verification/Disk_Monitor.thy ===== *)
theory Disk_Monitor
  imports Prelude Cstdio Common Sampling
begin

text \<open>
  \<open>DiskMonitor.cpp\<close>: capacities by \<open>statfs\<close>, the table printed by \<open>df\<close> read with \<open>fscanf\<close>
  into fixed arrays, the totals over it in TB, the transfer rates printed by \<open>iostat\<close>, and the
  thread that refreshes them, which the destructor joins. The output of a command is \<open>None\<close>
  where \<open>popen\<close> fails.
\<close>

section \<open>Capacities by statfs\<close>

record statfs =
  f_bsize :: u64
  f_blocks :: u64
  f_bavail :: u64

record DiskInfo =
  totalDisk :: double
  usedDisk :: double
  freeDisk :: double

text \<open>The call can fail (here \<open>None\<close>); the code then computes with the uninitialised structure.\<close>

definition DiskInfoByStatfs :: "statfs option \<Rightarrow> DiskInfo outcome" where
  "DiskInfoByStatfs st =
     (case st of
        None \<Rightarrow> Inl Uninit_Read
      | Some diskInfo \<Rightarrow>
          let blockSize = f_bsize diskInfo;
              totalSize = double_of_nat (unat (blockSize * f_blocks diskInfo));
              availableDisk = f_bavail diskInfo * blockSize
          in Inr \<lparr>totalDisk = totalSize,
                  usedDisk = dsub totalSize (double_of_nat (unat availableDisk)),
                  freeDisk = double_of_nat (unat availableDisk)\<rparr>)"

definition priv_GetDiskTotal :: "statfs option \<Rightarrow> double outcome" where
  "priv_GetDiskTotal st = mapE totalDisk (DiskInfoByStatfs st)"

definition priv_GetDiskUsed :: "statfs option \<Rightarrow> double outcome" where
  "priv_GetDiskUsed st = mapE usedDisk (DiskInfoByStatfs st)"

definition priv_GetDiskFree :: "statfs option \<Rightarrow> double outcome" where
  "priv_GetDiskFree st = mapE freeDisk (DiskInfoByStatfs st)"

definition TB :: double where
  "TB = DFin (1024 * 1024 * 1024)"

definition GetDiskTotal :: "statfs option \<Rightarrow> double outcome" where
  "GetDiskTotal st = mapE (\<lambda>d. ddiv d TB) (priv_GetDiskTotal st)"

definition GetDiskUsed :: "statfs option \<Rightarrow> double outcome" where
  "GetDiskUsed st = mapE (\<lambda>d. ddiv d TB) (priv_GetDiskUsed st)"

definition GetDiskFree :: "statfs option \<Rightarrow> double outcome" where
  "GetDiskFree st = mapE (\<lambda>d. ddiv d TB) (priv_GetDiskFree st)"

lemmas disk_size_defs = GetDiskTotal_def GetDiskUsed_def GetDiskFree_def priv_GetDiskTotal_def
  priv_GetDiskUsed_def priv_GetDiskFree_def

section \<open>The table of df\<close>

text \<open>
  \<open>fscanf(fp, "%s %lf %lf %lf %s %s", \<dots>)\<close>: \<open>Inr None\<close> when fewer than six fields convert, a
  fault as soon as a word does not fit its array.
\<close>

definition scan_word :: "nat \<Rightarrow> string \<Rightarrow> (string \<times> string) option outcome" where
  "scan_word cap s =
     (case scan_str s of
        None \<Rightarrow> Inr None
      | Some (w, r) \<Rightarrow> if cap \<le> length w then Inl Buffer_Overflow else Inr (Some (w, r)))"

definition bindS :: "'a option outcome \<Rightarrow> ('a \<Rightarrow> 'b option outcome) \<Rightarrow> 'b option outcome" where
  "bindS m f = bindE m (\<lambda>x. case x of None \<Rightarrow> Inr None | Some v \<Rightarrow> f v)"

definition df_row :: "string \<Rightarrow> (DFStructInfo \<times> string) option outcome" where
  "df_row s =
     bindS (scan_word 80 s) (\<lambda>(fs, s1).
     bindS (Inr (scan_double s1)) (\<lambda>(b, s2).
     bindS (Inr (scan_double s2)) (\<lambda>(u, s3).
     bindS (Inr (scan_double s3)) (\<lambda>(a, s4).
     bindS (scan_word 10 s4) (\<lambda>(rate, s5).
     bindS (scan_word 80 s5) (\<lambda>(mnt, s6).
       Inr (Some (\<lparr>fileSystem = cstr fs, blocks = b, used = u, available = a,
                   useRate = cstr rate, mounted = cstr mnt\<rparr>, s6))))))))"

definition is_dev :: "DFStructInfo \<Rightarrow> bool" where
  "is_dev r \<longleftrightarrow> strncmp_eq ''/dev/'' (fileSystem r) 5"

lemma bindS_simps [simp]:
  "bindS (Inl e) f = Inl e" "bindS (Inr None) f = Inr None" "bindS (Inr (Some x)) f = f x"
  by (simp_all add: bindS_def)

lemma bindS_eq_Some: "bindS m f = Inr (Some y) \<longleftrightarrow> (\<exists>x. m = Inr (Some x) \<and> f x = Inr (Some y))"
  by (cases m) (auto simp: bindS_def split: option.splits)

lemma scan_word_length: "scan_word n s = Inr (Some (w, r)) \<Longrightarrow> length r < length s"
  by (auto simp: scan_word_def split: option.splits if_splits dest: scan_str_Some)

lemma df_row_progress: "df_row s = Inr (Some (d, r)) \<Longrightarrow> length r < length s"
  by (auto simp: df_row_def bindS_eq_Some dest!: scan_word_length length_scan_double)

function df_loop :: "string \<Rightarrow> DFStructInfo list \<Rightarrow> DFStructInfo list outcome" where
  "df_loop s vDisks =
     (case df_row s of
        Inl e \<Rightarrow> Inl e
      | Inr None \<Rightarrow> Inr vDisks
      | Inr (Some (dfDisk, r)) \<Rightarrow> df_loop r (if is_dev dfDisk then vDisks @ [dfDisk] else vDisks))"
  by pat_completeness auto
termination
  by (relation "measure (\<lambda>(s, v). length s)") (auto dest: df_row_progress)

declare df_loop.simps [simp del]

definition DiskInfoByDf :: "string option \<Rightarrow> DFStructInfo list outcome" where
  "DiskInfoByDf out =
     (case out of
        None \<Rightarrow> Inl Null_Stream
      | Some text \<Rightarrow> df_loop (pending (snd (fgets 256 (open_stream text)))) [])"

definition GetDisksByDf :: "string option \<Rightarrow> DFStructInfo list outcome" where
  "GetDisksByDf out = DiskInfoByDf out"

definition DiskTotalByDf :: "string option \<Rightarrow> double outcome" where
  "DiskTotalByDf out =
     mapE (foldl (\<lambda>total it. dadd total (ddiv (blocks it) TB)) (DFin 0)) (DiskInfoByDf out)"

definition DiskUsedByDf :: "string option \<Rightarrow> double outcome" where
  "DiskUsedByDf out =
     mapE (foldl (\<lambda>total it. dadd total (ddiv (used it) TB)) (DFin 0)) (DiskInfoByDf out)"

section \<open>The rates of iostat\<close>

text \<open>
  The local variables of \<open>DiskIO\<close> that live across the lines: \<open>devName\<close> is uninitialised until a
  line has a first word, \<open>data\<close> starts zeroed; both keep what the last line that converted left.
\<close>

record io_locals =
  devName :: "string option"
  data :: "double list"
  secondTime :: bool
  readIO :: double
  writeIO :: double

definition io_init :: io_locals where
  "io_init = \<lparr>devName = None, data = replicate 8 (DFin 0), secondTime = False,
              readIO = DFin 0, writeIO = DFin 0\<rparr>"

function scan_data :: "nat \<Rightarrow> string \<Rightarrow> double list \<Rightarrow> double list" where
  "scan_data i s d =
     (if 7 \<le> i then d
      else (case scan_double s of
              None \<Rightarrow> d
            | Some (v, r) \<Rightarrow> scan_data (Suc i) r (d[i := v])))"
  by pat_completeness auto
termination by (relation "measure (\<lambda>(i, s, d). 7 - i)") auto

declare scan_data.simps [simp del]

definition io_scan :: "string \<Rightarrow> io_locals \<Rightarrow> io_locals outcome" where
  "io_scan buffer l =
     (case scan_str (cstr buffer) of
        None \<Rightarrow> Inr l
      | Some (w, r) \<Rightarrow>
          if 20 \<le> length w then Inl Buffer_Overflow
          else Inr (l\<lparr>devName := Some (cstr w), data := scan_data 0 r (data l)\<rparr>))"

definition io_line :: "string \<Rightarrow> io_locals \<Rightarrow> io_locals outcome" where
  "io_line buffer l =
     bindE (io_scan buffer l) (\<lambda>l.
       case devName l of
         None \<Rightarrow> Inl Uninit_Read
       | Some dev \<Rightarrow>
           if \<not> secondTime l \<and> strncmp_eq ''Device'' dev 6 then Inr (l\<lparr>secondTime := True\<rparr>)
           else if secondTime l \<and> \<not> strncmp_eq ''Device'' dev 6
           then Inr (l\<lparr>readIO := dadd (readIO l) (data l ! 1), writeIO := dadd (writeIO l) (data l ! 2)\<rparr>)
           else Inr l)"

function io_loop :: "stream \<Rightarrow> io_locals \<Rightarrow> io_locals outcome" where
  "io_loop pipe l =
     (case fgets 1023 pipe of
        (None, pipe') \<Rightarrow> Inr l
      | (Some buffer, pipe') \<Rightarrow> (case io_line buffer l of Inl e \<Rightarrow> Inl e | Inr l' \<Rightarrow> io_loop pipe' l'))"
  by pat_completeness auto
termination
  by (relation "measure (\<lambda>(pipe, l). length (pending pipe))") (auto dest!: fgets_progress [OF sym])

declare io_loop.simps [simp del]

definition DiskIO :: "string option \<Rightarrow> (double \<times> double) outcome" where
  "DiskIO out =
     (case out of
        None \<Rightarrow> Inl Null_Stream
      | Some text \<Rightarrow>
          let p1 = snd (fgets 1023 (open_stream text));
              p2 = snd (fgets 1023 p1);
              p3 = snd (fgets 1023 p2)
          in mapE (\<lambda>l. (readIO l, writeIO l)) (io_loop p3 io_init))"

section \<open>The refreshing thread\<close>

text \<open>
  \<open>DiskIO\<close> ends with two stores, one after the other, and an accessor can look between them. The
  two atomics are uninitialised (\<open>None\<close>) until the first pass has stored them. \<open>reports\<close> is no member
  of the class: it is the history of the thread, every report it has read, the oldest first. No
  step depends on it.
\<close>

datatype disk_pc =
    Check_Running
  | Running_Command
  | Store_Read "double \<times> double"
  | Store_Write "double \<times> double"
  | Finished

record DiskPrivate =
  allocated :: bool
  ioThreadRunning :: bool
  joined :: bool
  diskReadIO :: "double option"
  diskWriteIO :: "double option"
  pc :: disk_pc
  use_after_free :: bool
  reports :: "(double \<times> double) list"

definition DiskPrivate_init :: DiskPrivate where
  "DiskPrivate_init =
     \<lparr>allocated = True, ioThreadRunning = True, joined = False, diskReadIO = None,
      diskWriteIO = None, pc = Check_Running, use_after_free = False, reports = []\<rparr>"

text \<open>\<open>DiskIOThread\<close>.\<close>

inductive disk_thread :: "DiskPrivate \<Rightarrow> DiskPrivate \<Rightarrow> bool" where
  check_go: "pc s = Check_Running \<Longrightarrow> allocated s \<Longrightarrow> ioThreadRunning s \<Longrightarrow>
    disk_thread s (s\<lparr>pc := Running_Command\<rparr>)"
| check_stop: "pc s = Check_Running \<Longrightarrow> allocated s \<Longrightarrow> \<not> ioThreadRunning s \<Longrightarrow>
    disk_thread s (s\<lparr>pc := Finished\<rparr>)"
| check_freed: "pc s = Check_Running \<Longrightarrow> \<not> allocated s \<Longrightarrow> disk_thread s (s\<lparr>use_after_free := True\<rparr>)"
| command: "pc s = Running_Command \<Longrightarrow> DiskIO out = Inr rw \<Longrightarrow>
    disk_thread s (s\<lparr>pc := Store_Read rw, reports := reports s @ [rw]\<rparr>)"
| store_read: "pc s = Store_Read rw \<Longrightarrow> allocated s \<Longrightarrow>
    disk_thread s (s\<lparr>diskReadIO := Some (fst rw), pc := Store_Write rw\<rparr>)"
| store_write: "pc s = Store_Write rw \<Longrightarrow> allocated s \<Longrightarrow>
    disk_thread s (s\<lparr>diskWriteIO := Some (snd rw), pc := Check_Running\<rparr>)"
| store_freed: "pc s = Store_Read rw \<or> pc s = Store_Write rw \<Longrightarrow> \<not> allocated s \<Longrightarrow>
    disk_thread s (s\<lparr>use_after_free := True\<rparr>)"

text \<open>The destructor stores the flag and joins; then the memory is released.\<close>

definition disk_stop :: "DiskPrivate \<Rightarrow> DiskPrivate" where
  "disk_stop s = s\<lparr>ioThreadRunning := False\<rparr>"

definition disk_join :: "DiskPrivate \<Rightarrow> DiskPrivate" where
  "disk_join s = s\<lparr>joined := True\<rparr>"

definition disk_free :: "DiskPrivate \<Rightarrow> DiskPrivate" where
  "disk_free s = s\<lparr>allocated := False\<rparr>"

inductive disk_step :: "DiskPrivate \<Rightarrow> DiskPrivate \<Rightarrow> bool" where
  disk_runs: "disk_thread s t \<Longrightarrow> disk_step s t"
| disk_stops: "allocated s \<Longrightarrow> disk_step s (disk_stop s)"
| disk_joins: "allocated s \<Longrightarrow> \<not> ioThreadRunning s \<Longrightarrow> pc s = Finished \<Longrightarrow> disk_step s (disk_join s)"
| disk_frees: "allocated s \<Longrightarrow> joined s \<Longrightarrow> disk_step s (disk_free s)"

abbreviation disk_reachable :: "DiskPrivate \<Rightarrow> bool" where
  "disk_reachable s \<equiv> disk_step\<^sup>*\<^sup>* DiskPrivate_init s"

text \<open>The two loads of \<open>GetDiskIO\<close>, which find the object as \<open>s\<close> and as \<open>t\<close>.\<close>

definition GetDiskIO :: "DiskPrivate \<Rightarrow> DiskPrivate \<Rightarrow> (double \<times> double) outcome" where
  "GetDiskIO s t =
     (case (diskReadIO s, diskWriteIO t) of
        (Some r, Some w) \<Rightarrow> Inr (r, w)
      | _ \<Rightarrow> Inl Uninit_Read)"

section \<open>Reading back a table of df\<close>

record df_entry =
  e_dev :: string
  e_blocks :: "string \<times> double"
  e_used :: "string \<times> double"
  e_available :: "string \<times> double"
  e_rate :: string
  e_mount :: string
  e_gaps :: "nat list"

definition gap :: "df_entry \<Rightarrow> nat \<Rightarrow> string" where
  "gap e i = replicate (Suc (e_gaps e ! i)) (CHR '' '')"

definition df_line :: "df_entry \<Rightarrow> string" where
  "df_line e = e_dev e @ gap e 0 @ fst (e_blocks e) @ gap e 1 @ fst (e_used e) @ gap e 2 @
     fst (e_available e) @ gap e 3 @ e_rate e @ gap e 4 @ e_mount e"

definition wf_df_entry :: "df_entry \<Rightarrow> bool" where
  "wf_df_entry e \<longleftrightarrow>
     token (e_dev e) \<and> length (e_dev e) < 80 \<and> token (e_rate e) \<and> length (e_rate e) < 10 \<and>
     token (e_mount e) \<and> length (e_mount e) < 80 \<and>
     CHR 0x00 \<notin> set (e_dev e @ e_rate e @ e_mount e) \<and>
     denotes (fst (e_blocks e)) (snd (e_blocks e)) \<and> denotes (fst (e_used e)) (snd (e_used e)) \<and>
     denotes (fst (e_available e)) (snd (e_available e))"

definition entry_info :: "df_entry \<Rightarrow> DFStructInfo" where
  "entry_info e = \<lparr>fileSystem = e_dev e, blocks = snd (e_blocks e), used = snd (e_used e),
     available = snd (e_available e), useRate = e_rate e, mounted = e_mount e\<rparr>"

definition df_table :: "df_entry list \<Rightarrow> string" where
  "df_table es = unlines (map df_line es)"

lemma gap_blank: "\<forall>c\<in>set (gap e i). is_space c"
  by (simp add: gap_def)

lemma gap_delimits: "delimited (gap e i @ s)"
  by (simp add: gap_def delimited_def)

lemma scan_word_token:
  "\<forall>c\<in>set ws. is_space c \<Longrightarrow> token t \<Longrightarrow> length t < n \<Longrightarrow> delimited s \<Longrightarrow>
   scan_word n (ws @ t @ s) = Inr (Some (t, s))"
  by (simp add: scan_word_def scan_str_token)

lemma df_row_line:
  assumes "wf_df_entry e" "delimited s"
  shows "df_row (df_line e @ s) = Inr (Some (entry_info e, s))"
proof -
  let ?s5 = "gap e 4 @ e_mount e @ s"
  let ?s4 = "gap e 3 @ e_rate e @ ?s5"
  let ?s3 = "gap e 2 @ fst (e_available e) @ ?s4"
  let ?s2 = "gap e 1 @ fst (e_used e) @ ?s3"
  let ?s1 = "gap e 0 @ fst (e_blocks e) @ ?s2"
  note wf = assms(1) [unfolded wf_df_entry_def]
  have "scan_word 80 (df_line e @ s) = Inr (Some (e_dev e, ?s1))"
    using scan_word_token [of "[]" "e_dev e" 80 ?s1] wf by (simp add: df_line_def gap_delimits)
  moreover have "scan_double ?s1 = Some (snd (e_blocks e), ?s2)"
    using wf by (intro denotesD gap_blank gap_delimits) simp
  moreover have "scan_double ?s2 = Some (snd (e_used e), ?s3)"
    using wf by (intro denotesD gap_blank gap_delimits) simp
  moreover have "scan_double ?s3 = Some (snd (e_available e), ?s4)"
    using wf by (intro denotesD gap_blank gap_delimits) simp
  moreover have "scan_word 10 ?s4 = Inr (Some (e_rate e, ?s5))"
    using wf by (intro scan_word_token gap_blank gap_delimits) simp_all
  moreover have "scan_word 80 ?s5 = Inr (Some (e_mount e, s))"
    using wf assms(2) by (intro scan_word_token gap_blank) simp_all
  ultimately show ?thesis using wf by (simp add: df_row_def entry_info_def cstr_id)
qed

lemma scan_str_blanks: "\<forall>c\<in>set ws. is_space c \<Longrightarrow> scan_str (ws @ s) = scan_str s"
  by (simp add: scan_str_def skip_ws_blanks)

lemma df_loop_blanks: "\<forall>c\<in>set ws. is_space c \<Longrightarrow> df_loop (ws @ s) acc = df_loop s acc"
  by (subst (1 2) df_loop.simps) (simp add: df_row_def scan_word_def scan_str_blanks)

lemma df_loop_table:
  "\<forall>e\<in>set es. wf_df_entry e \<Longrightarrow>
   df_loop (df_table es @ rest) acc = df_loop rest (acc @ filter is_dev (map entry_info es))"
proof (induction es arbitrary: acc)
  case Nil
  then show ?case by (simp add: df_table_def unlines_def)
next
  case (Cons e es)
  let ?s = "newline # df_table es @ rest" and ?acc = "if is_dev (entry_info e) then acc @ [entry_info e] else acc"
  have "df_loop (df_table (e # es) @ rest) acc = df_loop (df_line e @ ?s) acc"
    by (simp add: df_table_def unlines_def)
  also have "\<dots> = df_loop ?s ?acc"
    using Cons.prems df_row_line [of e ?s] by (subst df_loop.simps) (simp add: delimited_def)
  also have "\<dots> = df_loop (df_table es @ rest) ?acc"
    using df_loop_blanks [of "[newline]"] by simp
  finally show ?case using Cons by simp
qed

lemma df_loop_end: "\<forall>c\<in>set ws. is_space c \<Longrightarrow> df_loop ws acc = Inr acc"
  by (subst df_loop.simps) (simp add: df_row_def scan_word_def scan_str_blank)

lemma DiskInfoByDf_header:
  "plain_line header \<Longrightarrow> length header < 255 \<Longrightarrow>
   DiskInfoByDf (Some (header @ newline # s)) = df_loop s []"
  using fgets_line [of header 256 "open_stream (header @ newline # s)" s]
  by (simp add: DiskInfoByDf_def plain_line_def open_stream_def)

lemma DiskInfoByDf_table:
  assumes "plain_line header" "length header < 255" "\<forall>e\<in>set es. wf_df_entry e"
  shows "DiskInfoByDf (Some (header @ newline # df_table es)) = Inr (filter is_dev (map entry_info es))"
  using assms df_loop_table [of es "[]" "[]"] by (simp add: DiskInfoByDf_header df_loop_end)

lemma is_dev_entry: "wf_df_entry e \<Longrightarrow> is_dev (entry_info e) \<longleftrightarrow> take 5 (e_dev e) = ''/dev/''"
  by (auto simp: is_dev_def entry_info_def wf_df_entry_def strncmp_eq_def cstr_id)

text \<open>C17: reading the table of \<open>df\<close> (a title line and one row per file system) returns exactly the
  rows whose file system starts with \<open>/dev/\<close>, in order, every column with the value it denotes.\<close>

theorem df_parse:
  assumes "plain_line header" "length header < 255" "\<forall>e\<in>set es. wf_df_entry e"
  shows "GetDisksByDf (Some (header @ newline # df_table es)) =
    Inr (map entry_info (filter (\<lambda>e. take 5 (e_dev e) = ''/dev/'') es))"
proof -
  have "filter is_dev (map entry_info es) = map entry_info (filter (\<lambda>e. take 5 (e_dev e) = ''/dev/'') es)"
    using assms(3) by (induction es) (simp_all add: is_dev_entry)
  with DiskInfoByDf_table [OF assms] show ?thesis by (simp add: GetDisksByDf_def)
qed

definition sample_entry :: "string \<Rightarrow> nat \<Rightarrow> string \<Rightarrow> df_entry" where
  "sample_entry dev n mount =
     \<lparr>e_dev = dev, e_blocks = (dec_str n, double_of_nat n), e_used = (dec_str n, double_of_nat n),
      e_available = (dec_str 0, double_of_nat 0), e_rate = ''100%'', e_mount = mount, e_gaps = [4, 1, 2, 0, 0]\<rparr>"

lemma wf_sample_entry:
  "token dev \<Longrightarrow> length dev < 80 \<Longrightarrow> token mount \<Longrightarrow> length mount < 80 \<Longrightarrow>
   CHR 0x00 \<notin> set (dev @ mount) \<Longrightarrow> wf_df_entry (sample_entry dev n mount)"
  using denotes_dec [of 0]
  by (simp add: wf_df_entry_def sample_entry_def) (simp add: token_def is_space_def)

theorem df_parse_witness:
  "GetDisksByDf (Some (''Filesystem 1K-blocks'' @ newline #
     df_table [sample_entry ''/dev/sda1'' 1000 ''/'', sample_entry ''tmpfs'' 20 ''/run''])) =
   Inr [entry_info (sample_entry ''/dev/sda1'' 1000 ''/'')]"
proof -
  have wf: "\<forall>e\<in>set [sample_entry ''/dev/sda1'' 1000 ''/'', sample_entry ''tmpfs'' 20 ''/run'']. wf_df_entry e"
    by (simp add: wf_sample_entry token_def is_space_def)
  show ?thesis
    using df_parse [OF _ _ wf, of "''Filesystem 1K-blocks''"]
    by (simp add: plain_line_def newline_def is_dev_def entry_info_def sample_entry_def strncmp_eq_def cstr_def)
qed

text \<open>What stops the reader: text whose next word is no number.\<close>

definition not_number :: "string \<Rightarrow> bool" where
  "not_number s \<longleftrightarrow> skip_ws s = [] \<or>
     (\<not> is_digit (hd (skip_ws s)) \<and> hd (skip_ws s) \<notin> {CHR ''-'', CHR ''+'', CHR ''.''})"

lemma scan_double_not_number: "not_number s \<Longrightarrow> scan_double s = None"
  by (cases "skip_ws s") (auto simp: not_number_def scan_double_def scan_fraction_def)

lemma df_loop_stops:
  assumes "\<forall>c\<in>set ws. is_space c" "token w" "length w < 80" "delimited s" "not_number s"
  shows "df_loop (ws @ w @ s) acc = Inr acc"
  using assms scan_word_token [of ws w 80 s]
  by (subst df_loop.simps) (simp add: df_row_def scan_double_not_number)

text \<open>A mount point with a blank in it ends the table: its row is returned with the mount
  point cut at the blank, and every row after it is lost.\<close>

theorem df_mount_with_blank:
  assumes "plain_line header" "length header < 255" "\<forall>e\<in>set (es @ [e]). wf_df_entry e"
    and "token w" "length w < 80" "delimited later" "not_number later"
  shows "GetDisksByDf (Some (header @ newline # df_table es @ df_line e @ '' '' @ w @ later)) =
    Inr (filter is_dev (map entry_info (es @ [e])))"
proof -
  let ?acc = "filter is_dev (map entry_info (es @ [e]))" and ?s = "'' '' @ w @ later"
  have "df_loop (df_table es @ df_line e @ ?s) [] =
      df_loop (df_line e @ ?s) (filter is_dev (map entry_info es))"
    using assms(3) df_loop_table [of es] by simp
  also have "\<dots> = df_loop ?s ?acc"
    using assms(3) df_row_line [of e ?s] by (subst df_loop.simps) (simp add: delimited_def)
  also have "\<dots> = Inr ?acc" using assms by (intro df_loop_stops) simp_all
  finally show ?thesis using assms by (simp add: GetDisksByDf_def DiskInfoByDf_header)
qed

theorem df_mount_with_blank_witness:
  "GetDisksByDf (Some (''Filesystem'' @ newline # df_table [sample_entry ''/dev/sda1'' 5 ''/''] @
     df_line (sample_entry ''/dev/sdb1'' 7 ''/media/my'') @ '' '' @ ''disk'' @ newline #
     df_line (sample_entry ''/dev/sdc1'' 9 ''/data''))) =
   Inr (map entry_info [sample_entry ''/dev/sda1'' 5 ''/'', sample_entry ''/dev/sdb1'' 7 ''/media/my''])"
proof -
  have wf: "\<forall>e\<in>set ([sample_entry ''/dev/sda1'' 5 ''/''] @ [sample_entry ''/dev/sdb1'' 7 ''/media/my'']). wf_df_entry e"
    by (simp add: wf_sample_entry token_def is_space_def)
  have later: "not_number (newline # df_line (sample_entry ''/dev/sdc1'' 9 ''/data''))"
    by (simp add: not_number_def df_line_def sample_entry_def skip_ws_def is_space_def is_digit_def newline_def)
  show ?thesis
    using df_mount_with_blank [OF _ _ wf _ _ _ later, of "''Filesystem''" "''disk''"]
    by (simp add: plain_line_def newline_def is_dev_def entry_info_def sample_entry_def
        strncmp_eq_def cstr_def token_def is_space_def delimited_def)
qed

text \<open>A device name of 80 or more characters overruns the array \<open>fscanf\<close> reads it into,
  whatever the rows before it and the text after it.\<close>

theorem df_overflow:
  assumes "plain_line header" "length header < 255" "\<forall>e\<in>set es. wf_df_entry e"
    and "token w" "80 \<le> length w" "delimited later"
  shows "GetDisksByDf (Some (header @ newline # df_table es @ w @ later)) = Inl Buffer_Overflow"
proof -
  have "df_row (w @ later) = Inl Buffer_Overflow"
    using scan_str_token [of "[]" w later] assms(4-6) by (simp add: df_row_def scan_word_def)
  then have "df_loop (w @ later) acc = Inl Buffer_Overflow" for acc
    by (subst df_loop.simps) simp
  then show ?thesis using assms(1-3) by (simp add: GetDisksByDf_def DiskInfoByDf_header df_loop_table)
qed

theorem df_overflow_witness:
  "GetDisksByDf (Some (''Filesystem'' @ newline # df_table [] @ replicate 80 (CHR ''a'') @ '' 1'')) =
   Inl Buffer_Overflow"
  by (rule df_overflow)
    (simp_all add: plain_line_def newline_def token_def is_space_def delimited_def)

section \<open>Totals in TB\<close>

lemma TB_power: "TB = DFin (2 ^ 30)"
  by (simp add: TB_def)

lemma sum_in_TB:
  "m + sum_list ns \<le> 2 ^ 53 \<Longrightarrow>
   foldl (\<lambda>t n. dadd t (ddiv (double_of_nat n) TB)) (DFin (of_nat m / 2 ^ 30)) ns =
   DFin (of_nat (m + sum_list ns) / 2 ^ 30)"
proof (induction ns arbitrary: m)
  case Nil
  then show ?case by simp
next
  case (Cons n ns)
  have "ddiv (double_of_nat n) TB = DFin (of_nat n / 2 ^ 30)"
  proof -
    have n: "n \<le> 2 ^ 53" using Cons.prems by simp
    have "ddiv (DFin (of_nat n)) (DFin (2 ^ 30)) = DFin (of_nat n / 2 ^ 30)"
      using n by (intro ddiv_pow2) simp_all
    then show ?thesis by (simp only: TB_power double_of_nat_exact [OF n])
  qed
  moreover have "dadd (DFin (of_nat m / 2 ^ 30)) (DFin (of_nat n / 2 ^ 30)) = DFin (of_nat (m + n) / 2 ^ 30)"
    using Cons.prems by (intro dadd_scaled) simp_all
  ultimately show ?case using Cons.IH [of "m + n"] Cons.prems by (simp add: add.assoc)
qed

lemma foldl_column:
  "map g xs = map double_of_nat ns \<Longrightarrow>
   foldl (\<lambda>t it. dadd t (ddiv (g it) TB)) z xs = foldl (\<lambda>t n. dadd t (ddiv (double_of_nat n) TB)) z ns"
proof (induction xs arbitrary: ns z)
  case Nil
  then show ?case by simp
next
  case (Cons x xs)
  then show ?case by (cases ns) auto
qed

text \<open>The totals over the disks are exact: as long as the kilobyte counts sum to at most
  \<open>2\<^sup>5\<^sup>3\<close> (eight exbibytes), no addition rounds and the result is the sum divided by \<open>2\<^sup>3\<^sup>0\<close>, in any
  order of the rows.\<close>

theorem df_totals_exact:
  assumes "DiskInfoByDf out = Inr ds"
    and "map blocks ds = map double_of_nat ns" "sum_list ns \<le> 2 ^ 53"
    and "map used ds = map double_of_nat us" "sum_list us \<le> 2 ^ 53"
  shows "DiskTotalByDf out = Inr (DFin (of_nat (sum_list ns) / 2 ^ 30))
    \<and> DiskUsedByDf out = Inr (DFin (of_nat (sum_list us) / 2 ^ 30))"
  using sum_in_TB [of 0 ns] sum_in_TB [of 0 us] assms
  by (simp add: DiskTotalByDf_def DiskUsedByDf_def foldl_column [of blocks ds ns] foldl_column [of used ds us])

theorem df_totals_exact_witness:
  "DiskTotalByDf (Some (''Filesystem'' @ newline #
     df_table [sample_entry ''/dev/sda1'' (2 ^ 30) ''/'', sample_entry ''/dev/sdb1'' (2 ^ 29) ''/d''])) =
   Inr (DFin (3 / 2))"
proof -
  let ?es = "[sample_entry ''/dev/sda1'' (2 ^ 30) ''/'', sample_entry ''/dev/sdb1'' (2 ^ 29) ''/d'']"
  have wf: "\<forall>e\<in>set ?es. wf_df_entry e" by (simp add: wf_sample_entry token_def is_space_def)
  have "DiskInfoByDf (Some (''Filesystem'' @ newline # df_table ?es)) = Inr (map entry_info ?es)"
    using DiskInfoByDf_table [OF _ _ wf, of "''Filesystem''"]
    by (simp add: plain_line_def newline_def is_dev_def entry_info_def sample_entry_def strncmp_eq_def cstr_def)
  from df_totals_exact [OF this, of "[2 ^ 30, 2 ^ 29]" "[2 ^ 30, 2 ^ 29]"] show ?thesis
    by (simp add: entry_info_def sample_entry_def)
qed

text \<open>By \<open>statfs\<close>, for capacities up to \<open>2\<^sup>5\<^sup>3\<close> bytes, total, used and free are the exact
  byte counts over \<open>2\<^sup>3\<^sup>0\<close> (GiB, although the constant is named \<open>TB\<close>), and used and free add up to the total.\<close>

theorem statfs_exact:
  assumes "unat (f_bsize st) * unat (f_blocks st) \<le> 2 ^ 53" "unat (f_bavail st) \<le> unat (f_blocks st)"
  shows "\<exists>t u f. GetDiskTotal (Some st) = Inr (DFin t) \<and> GetDiskUsed (Some st) = Inr (DFin u)
    \<and> GetDiskFree (Some st) = Inr (DFin f) \<and> u + f = t
    \<and> t = of_nat (unat (f_bsize st) * unat (f_blocks st)) / 2 ^ 30
    \<and> f = of_nat (unat (f_bsize st) * unat (f_bavail st)) / 2 ^ 30"
proof -
  let ?t = "unat (f_bsize st) * unat (f_blocks st)" and ?f = "unat (f_bsize st) * unat (f_bavail st)"
  have le: "?f \<le> ?t" using assms(2) by simp
  have t: "unat (f_bsize st * f_blocks st) = ?t"
    using assms(1) by (intro unat_times_small) simp
  have f: "unat (f_bavail st * f_bsize st) = ?f"
  proof -
    have "?f \<le> 2 ^ 53" using le assms(1) by (rule order_trans)
    then have "?f < 2 ^ 64" by (rule le_less_trans) simp
    then have "unat (f_bavail st) * unat (f_bsize st) < 2 ^ LENGTH(64)" by (simp add: mult.commute)
    then show ?thesis by (simp only: unat_times_small mult.commute)
  qed
  have u: "dsub (DFin (of_nat ?t)) (DFin (of_nat ?f)) = DFin (of_nat (?t - ?f))"
  proof -
    have "dsub (DFin (of_nat ?t)) (DFin (of_nat ?f)) = to_double (of_nat ?t - of_nat ?f)"
      by (simp add: dsub_def)
    also have "of_nat ?t - of_nat ?f = (of_nat (?t - ?f) :: rat)" using le by (simp only: of_nat_diff)
    also have "to_double (of_nat (?t - ?f)) = DFin (of_nat (?t - ?f))"
      using assms(1) by (intro to_double_nat) simp
    finally show ?thesis .
  qed
  have d: "ddiv (DFin (of_nat n)) TB = DFin (of_nat n / 2 ^ 30)" if "n \<le> ?t" for n
    unfolding TB_power using that assms(1) by (intro ddiv_pow2) simp_all
  have "DiskInfoByStatfs (Some st) =
      Inr \<lparr>totalDisk = DFin (of_nat ?t), usedDisk = DFin (of_nat (?t - ?f)), freeDisk = DFin (of_nat ?f)\<rparr>"
    by (simp only: DiskInfoByStatfs_def Let_def option.case t f u
        double_of_nat_exact [OF assms(1)] double_of_nat_exact [OF order_trans [OF le assms(1)]])
  then show ?thesis
    using d [of ?t] d [of "?t - ?f"] d [of ?f] le
    by (intro exI [of _ "of_nat ?t / 2 ^ 30"] exI [of _ "of_nat (?t - ?f) / 2 ^ 30"]
          exI [of _ "of_nat ?f / 2 ^ 30"])
      (simp add: disk_size_defs of_nat_diff diff_divide_distrib del: of_nat_mult)
qed

theorem statfs_exact_witness:
  "\<exists>t u f. GetDiskTotal (Some \<lparr>f_bsize = 4096, f_blocks = 1000, f_bavail = 250\<rparr>) = Inr (DFin t)
    \<and> GetDiskUsed (Some \<lparr>f_bsize = 4096, f_blocks = 1000, f_bavail = 250\<rparr>) = Inr (DFin u)
    \<and> GetDiskFree (Some \<lparr>f_bsize = 4096, f_blocks = 1000, f_bavail = 250\<rparr>) = Inr (DFin f) \<and> u + f = t"
  using statfs_exact [of "\<lparr>f_bsize = 4096, f_blocks = 1000, f_bavail = 250\<rparr>"] by simp blast

section \<open>The transfer rates\<close>

text \<open>A row of \<open>iostat\<close>: a device and its numeric columns, each with its padding.\<close>

record io_row =
  r_dev :: string
  r_cols :: "(nat \<times> string \<times> double) list"

definition io_cols :: "(nat \<times> string \<times> double) list \<Rightarrow> string" where
  "io_cols cs = concat (map (\<lambda>(pad, t, v). replicate (Suc pad) (CHR '' '') @ t) cs)"

definition io_text :: "io_row \<Rightarrow> string" where
  "io_text r = r_dev r @ io_cols (r_cols r)"

definition wf_io_row :: "io_row \<Rightarrow> bool" where
  "wf_io_row r \<longleftrightarrow>
     token (r_dev r) \<and> length (r_dev r) < 20 \<and> take 6 (r_dev r) \<noteq> ''Device'' \<and>
     plain_line (io_text r) \<and> 3 \<le> length (r_cols r) \<and> length (r_cols r) \<le> 7 \<and>
     (\<forall>(pad, t, v)\<in>set (r_cols r). denotes t v)"

definition read_rate :: "io_row \<Rightarrow> double" where
  "read_rate r = snd (snd (r_cols r ! 1))"

definition write_rate :: "io_row \<Rightarrow> double" where
  "write_rate r = snd (snd (r_cols r ! 2))"

text \<open>A title line: a word that starts with \<open>Device\<close>, then no number.\<close>

definition io_title :: "string \<Rightarrow> string \<Rightarrow> bool" where
  "io_title w rest \<longleftrightarrow> token w \<and> length w < 20 \<and> take 6 w = ''Device'' \<and> delimited rest \<and>
     not_number (rest @ [newline]) \<and> plain_line (w @ rest)"

fun io_fold :: "string list \<Rightarrow> io_locals \<Rightarrow> io_locals outcome" where
  "io_fold [] l = Inr l"
| "io_fold (x # xs) l = bindE (io_line (x @ [newline]) l) (io_fold xs)"

lemma io_loop_lines:
  "\<forall>l\<in>set ls. plain_line l \<Longrightarrow> io_loop \<lparr>pending = unlines ls, at_eof = False\<rparr> l = io_fold ls l"
proof (induction ls arbitrary: l)
  case Nil
  then show ?case by (subst io_loop.simps) (simp add: unlines_def fgets_eof)
next
  case (Cons x xs)
  have "fgets 1023 \<lparr>pending = unlines (x # xs), at_eof = False\<rparr> =
      (Some (x @ [newline]), \<lparr>pending = unlines xs, at_eof = False\<rparr>)"
    using Cons.prems fgets_line [of x 1023 "\<lparr>pending = unlines (x # xs), at_eof = False\<rparr>" "unlines xs"]
    by (simp add: unlines_def plain_line_def)
  with Cons show ?case by (subst io_loop.simps) (simp add: bindE_def split: sum.split)
qed

lemma io_fold_append: "io_fold (xs @ ys) l = bindE (io_fold xs l) (io_fold ys)"
  by (induction xs arbitrary: l) (simp_all add: bindE_assoc [symmetric] bindE_def split: sum.split)

lemma DiskIO_lines:
  assumes "\<forall>l\<in>set ([h1, h2, h3] @ ls). plain_line l"
  shows "DiskIO (Some (unlines ([h1, h2, h3] @ ls))) = mapE (\<lambda>l. (readIO l, writeIO l)) (io_fold ls io_init)"
proof -
  have step: "fgets 1023 \<lparr>pending = unlines (x # xs), at_eof = False\<rparr> =
      (Some (x @ [newline]), \<lparr>pending = unlines xs, at_eof = False\<rparr>)" if "plain_line x" for x xs
    using that fgets_line [of x 1023 "\<lparr>pending = unlines (x # xs), at_eof = False\<rparr>" "unlines xs"]
    by (simp add: unlines_def plain_line_def)
  show ?thesis using assms by (simp add: DiskIO_def open_stream_def step io_loop_lines)
qed

lemma length_scan_data: "length (scan_data i s d) = length d"
  by (induction i s d rule: scan_data.induct) (subst scan_data.simps, simp split: option.split)

lemma scan_data_before: "j < i \<Longrightarrow> scan_data i s d ! j = d ! j"
proof (induction i s d rule: scan_data.induct)
  case (1 i s d)
  then show ?case by (subst scan_data.simps) (auto split: option.split)
qed

lemma io_cols_delimited: "delimited s \<Longrightarrow> delimited (io_cols cs @ s)"
  by (cases cs) (auto simp: io_cols_def delimited_def)

lemma scan_data_cols:
  "\<forall>(pad, t, v)\<in>set cs. denotes t v \<Longrightarrow> delimited s \<Longrightarrow> i + length cs \<le> 7 \<Longrightarrow> 7 \<le> length d \<Longrightarrow>
   j < length cs \<Longrightarrow> scan_data i (io_cols cs @ s) d ! (i + j) = snd (snd (cs ! j))"
proof (induction cs arbitrary: i d j)
  case Nil
  then show ?case by simp
next
  case (Cons c cs)
  obtain pad t v where c: "c = (pad, t, v)" by (cases c)
  let ?rest = "io_cols cs @ s"
  have "scan_double (replicate (Suc pad) (CHR '' '') @ t @ ?rest) = Some (v, ?rest)"
    using Cons.prems c by (intro denotesD io_cols_delimited) auto
  then have "scan_data i (io_cols (c # cs) @ s) d = scan_data (Suc i) ?rest (d[i := v])"
    using Cons.prems by (subst scan_data.simps) (simp add: io_cols_def c)
  moreover have "scan_data (Suc i) ?rest (d[i := v]) ! (i + j) = snd (snd ((c # cs) ! j))"
  proof (cases j)
    case 0
    then show ?thesis using Cons.prems by (simp add: scan_data_before c)
  next
    case (Suc k)
    then show ?thesis using Cons.prems Cons.IH [of "Suc i" "d[i := v]" k] by simp
  qed
  ultimately show ?case by simp
qed

definition quiet :: "io_locals \<Rightarrow> bool" where
  "quiet l \<longleftrightarrow> \<not> secondTime l \<and> readIO l = DFin 0 \<and> writeIO l = DFin 0 \<and> length (data l) = 8"

definition counting :: "double \<Rightarrow> double \<Rightarrow> io_locals \<Rightarrow> bool" where
  "counting r w l \<longleftrightarrow> secondTime l \<and> readIO l = r \<and> writeIO l = w \<and> length (data l) = 8"

text \<open>What the line of a row leaves in \<open>devName\<close> and \<open>data\<close>.\<close>

definition holds_row :: "io_row \<Rightarrow> io_locals \<Rightarrow> bool" where
  "holds_row r l \<longleftrightarrow> devName l = Some (cstr (r_dev r)) \<and> data l ! 1 = read_rate r \<and> data l ! 2 = write_rate r"

lemma row_not_device: "wf_io_row r \<Longrightarrow> \<not> strncmp_eq ''Device'' (cstr (r_dev r)) 6"
proof
  assume wf: "wf_io_row r" and eq: "strncmp_eq ''Device'' (cstr (r_dev r)) 6"
  have "CHR 0x00 \<notin> set (r_dev r)"
    using wf by (simp add: wf_io_row_def plain_line_def io_text_def)
  then have "cstr (cstr (r_dev r)) = r_dev r" by (simp add: cstr_id)
  moreover have "cstr ''Device'' = ''Device''" by (simp add: cstr_def)
  ultimately have "take 6 (r_dev r) = ''Device''" using eq by (simp add: strncmp_eq_def)
  with wf show False by (simp add: wf_io_row_def)
qed

lemma io_scan_row:
  assumes "wf_io_row r" "length (data l) = 8"
  shows "\<exists>d. io_scan (io_text r @ [newline]) l = Inr (l\<lparr>devName := Some (cstr (r_dev r)), data := d\<rparr>)
    \<and> length d = 8 \<and> d ! 1 = read_rate r \<and> d ! 2 = write_rate r"
proof -
  note wf = assms(1) [unfolded wf_io_row_def]
  let ?d = "scan_data 0 (io_cols (r_cols r) @ [newline]) (data l)"
  have nl: "delimited [newline]" by (simp add: delimited_def)
  have "cstr (io_text r @ [newline]) = io_text r @ [newline]" using wf by (intro cstr_line) simp
  moreover have "scan_str (r_dev r @ io_cols (r_cols r) @ [newline]) = Some (r_dev r, io_cols (r_cols r) @ [newline])"
    using scan_str_token [of "[]" "r_dev r"] io_cols_delimited [OF nl] wf by simp
  ultimately have "io_scan (io_text r @ [newline]) l = Inr (l\<lparr>devName := Some (cstr (r_dev r)), data := ?d\<rparr>)"
    using wf by (simp add: io_scan_def io_text_def)
  moreover have "?d ! j = snd (snd (r_cols r ! j))" if "j < 3" for j
    using scan_data_cols [of "r_cols r" "[newline]" 0 "data l" j] wf assms(2) nl that by simp
  ultimately show ?thesis
    using assms(2) by (intro exI [of _ ?d]) (simp add: length_scan_data read_rate_def write_rate_def)
qed

lemma quiet_row:
  assumes "quiet l" "wf_io_row r"
  shows "\<exists>l'. io_line (io_text r @ [newline]) l = Inr l' \<and> quiet l' \<and> holds_row r l'"
proof -
  obtain d where d: "io_scan (io_text r @ [newline]) l = Inr (l\<lparr>devName := Some (cstr (r_dev r)), data := d\<rparr>)"
    "length d = 8" "d ! 1 = read_rate r" "d ! 2 = write_rate r"
    using io_scan_row assms by (fastforce simp: quiet_def)
  then show ?thesis using assms row_not_device [OF assms(2)]
    by (simp add: io_line_def quiet_def holds_row_def)
qed

lemma counting_row:
  assumes "counting x y l" "wf_io_row r"
  shows "\<exists>l'. io_line (io_text r @ [newline]) l = Inr l' \<and>
    counting (dadd x (read_rate r)) (dadd y (write_rate r)) l' \<and> holds_row r l'"
proof -
  obtain d where d: "io_scan (io_text r @ [newline]) l = Inr (l\<lparr>devName := Some (cstr (r_dev r)), data := d\<rparr>)"
    "length d = 8" "d ! 1 = read_rate r" "d ! 2 = write_rate r"
    using io_scan_row assms by (fastforce simp: counting_def)
  then show ?thesis using assms row_not_device [OF assms(2)]
    by (simp add: io_line_def counting_def holds_row_def)
qed

lemma io_scan_blank: "\<forall>c\<in>set b. is_space c \<Longrightarrow> io_scan (b @ [newline]) l = Inr l"
proof -
  assume b: "\<forall>c\<in>set b. is_space c"
  then have "CHR 0x00 \<notin> set (b @ [newline])" by (auto simp: is_space_def newline_def)
  then show ?thesis using b scan_str_blank [of "b @ [newline]"] by (simp add: io_scan_def cstr_id)
qed

text \<open>A blank line converts nothing, so the last device is seen again.\<close>

lemma quiet_blank:
  "quiet l \<Longrightarrow> wf_io_row r \<Longrightarrow> holds_row r l \<Longrightarrow> \<forall>c\<in>set b. is_space c \<Longrightarrow>
   io_line (b @ [newline]) l = Inr l"
  using row_not_device [of r] by (simp add: io_line_def io_scan_blank quiet_def holds_row_def)

lemma counting_blank:
  "counting x y l \<Longrightarrow> wf_io_row r \<Longrightarrow> holds_row r l \<Longrightarrow> \<forall>c\<in>set b. is_space c \<Longrightarrow>
   \<exists>l'. io_line (b @ [newline]) l = Inr l' \<and>
     counting (dadd x (read_rate r)) (dadd y (write_rate r)) l' \<and> holds_row r l'"
  using row_not_device [of r] by (simp add: io_line_def io_scan_blank counting_def holds_row_def)

lemma quiet_rows:
  "quiet l \<Longrightarrow> \<forall>r\<in>set rs. wf_io_row r \<Longrightarrow> rs \<noteq> [] \<Longrightarrow>
   \<exists>l'. io_fold (map io_text rs) l = Inr l' \<and> quiet l' \<and> holds_row (last rs) l'"
proof (induction rs arbitrary: l)
  case Nil
  then show ?case by simp
next
  case (Cons r rs)
  obtain l' where "io_line (io_text r @ [newline]) l = Inr l'" "quiet l'" "holds_row r l'"
    using quiet_row Cons.prems by (metis list.set_intros(1))
  with Cons show ?case by (cases "rs = []") auto
qed

lemma quiet_blanks:
  "quiet l \<Longrightarrow> wf_io_row r \<Longrightarrow> holds_row r l \<Longrightarrow> \<forall>b\<in>set bs. \<forall>c\<in>set b. is_space c \<Longrightarrow> io_fold bs l = Inr l"
  by (induction bs) (simp_all add: quiet_blank)

lemma counting_rows:
  "counting x y l \<Longrightarrow> \<forall>r\<in>set rs. wf_io_row r \<Longrightarrow> rs \<noteq> [] \<Longrightarrow>
   \<exists>l'. io_fold (map io_text rs) l = Inr l' \<and>
     counting (foldl dadd x (map read_rate rs)) (foldl dadd y (map write_rate rs)) l' \<and> holds_row (last rs) l'"
proof (induction rs arbitrary: l x y)
  case Nil
  then show ?case by simp
next
  case (Cons r rs)
  obtain l' where "io_line (io_text r @ [newline]) l = Inr l'"
    "counting (dadd x (read_rate r)) (dadd y (write_rate r)) l'" "holds_row r l'"
    using counting_row Cons.prems by (metis list.set_intros(1))
  with Cons show ?case by (cases "rs = []") auto
qed

lemma counting_blanks:
  "counting x y l \<Longrightarrow> wf_io_row r \<Longrightarrow> holds_row r l \<Longrightarrow> \<forall>b\<in>set bs. \<forall>c\<in>set b. is_space c \<Longrightarrow>
   \<exists>l'. io_fold bs l = Inr l' \<and>
     counting (foldl dadd x (replicate (length bs) (read_rate r)))
              (foldl dadd y (replicate (length bs) (write_rate r))) l'"
proof (induction bs arbitrary: l x y)
  case Nil
  then show ?case by simp
next
  case (Cons b bs)
  obtain l' where "io_line (b @ [newline]) l = Inr l'"
    "counting (dadd x (read_rate r)) (dadd y (write_rate r)) l'" "holds_row r l'"
    using counting_blank Cons.prems by (metis list.set_intros(1))
  with Cons show ?case by auto
qed

lemma io_line_title:
  assumes "quiet l" "io_title w rest"
  shows "\<exists>l'. io_line ((w @ rest) @ [newline]) l = Inr l' \<and> counting (DFin 0) (DFin 0) l'"
proof -
  note t = assms(2) [unfolded io_title_def]
  have c: "cstr ((w @ rest) @ [newline]) = (w @ rest) @ [newline]" using t by (intro cstr_line) simp
  have "CHR 0x00 \<notin> set w" using t by (simp add: plain_line_def)
  then have w: "cstr w = w" by (rule cstr_id)
  moreover have "cstr ''Device'' = ''Device''" by (simp add: cstr_def)
  ultimately have d: "strncmp_eq ''Device'' w 6" using t by (simp add: strncmp_eq_def)
  have "delimited (rest @ [newline])" using t by (cases rest) (auto simp: delimited_def)
  then have "scan_str (w @ rest @ [newline]) = Some (w, rest @ [newline])"
    using scan_str_token [of "[]" w] t by simp
  moreover have "scan_data 0 (rest @ [newline]) d = d" for d
    using t by (subst scan_data.simps) (simp add: scan_double_not_number)
  ultimately show ?thesis
    using t w d c assms(1) by (simp add: io_line_def io_scan_def quiet_def counting_def)
qed

lemma io_init_quiet: "quiet io_init"
  by (simp add: quiet_def io_init_def)

lemma blank_line: "\<forall>c\<in>set b. is_space c \<Longrightarrow> newline \<notin> set b \<Longrightarrow> length b < 1022 \<Longrightarrow> plain_line b"
  by (auto simp: plain_line_def is_space_def)

text \<open>C16: The rates are the sums of the second report's columns, with one flaw of the code kept:
  a blank line leaves \<open>devName\<close> and \<open>data\<close> as they are, so each blank line after the last device
  of the report adds that device's rates once more.\<close>

theorem disk_io_rates:
  assumes "\<forall>r\<in>set (first @ second). wf_io_row r" "first \<noteq> []" "second \<noteq> []"
    and "\<forall>l\<in>set ([h1, h2, h3] @ gap1 @ gap2). plain_line l"
    and "\<forall>b\<in>set (gap1 @ gap2). \<forall>c\<in>set b. is_space c" "io_title w rest"
  shows "DiskIO (Some (unlines ([h1, h2, h3] @ map io_text first @ gap1 @ [w @ rest] @ map io_text second @ gap2))) =
    Inr (foldl dadd (DFin 0) (map read_rate (second @ replicate (length gap2) (last second))),
         foldl dadd (DFin 0) (map write_rate (second @ replicate (length gap2) (last second))))"
proof -
  obtain l1 where l1: "io_fold (map io_text first) io_init = Inr l1" "quiet l1" "holds_row (last first) l1"
    using quiet_rows [OF io_init_quiet, of first] assms(1,2) by auto
  have wf1: "wf_io_row (last first)" "wf_io_row (last second)" using assms(1-3) by auto
  have l2: "io_fold gap1 l1 = Inr l1" using quiet_blanks [OF l1(2) wf1(1) l1(3)] assms(5) by auto
  obtain l3 where l3: "io_line ((w @ rest) @ [newline]) l1 = Inr l3" "counting (DFin 0) (DFin 0) l3"
    using io_line_title [OF l1(2) assms(6)] by blast
  obtain l4 where l4: "io_fold (map io_text second) l3 = Inr l4"
    "counting (foldl dadd (DFin 0) (map read_rate second)) (foldl dadd (DFin 0) (map write_rate second)) l4"
    "holds_row (last second) l4"
    using counting_rows [OF l3(2), of second] assms(1,3) by auto
  obtain l5 where "io_fold gap2 l4 = Inr l5"
    "counting (foldl dadd (foldl dadd (DFin 0) (map read_rate second)) (replicate (length gap2) (read_rate (last second))))
       (foldl dadd (foldl dadd (DFin 0) (map write_rate second)) (replicate (length gap2) (write_rate (last second)))) l5"
    using counting_blanks [OF l4(2) wf1(2) l4(3), of gap2] assms(5) by auto
  moreover have "io_fold (map io_text first @ gap1 @ [w @ rest] @ map io_text second @ gap2) io_init = io_fold gap2 l4"
    using l1(1) l2 l3(1) l4(1) by (simp add: io_fold_append)
  moreover have "\<forall>l\<in>set ([h1, h2, h3] @ map io_text first @ gap1 @ [w @ rest] @ map io_text second @ gap2). plain_line l"
    using assms(1,4,6) by (auto simp: wf_io_row_def io_title_def)
  ultimately show ?thesis
    using DiskIO_lines [of h1 h2 h3 "map io_text first @ gap1 @ [w @ rest] @ map io_text second @ gap2"]
    by (simp add: counting_def)
qed

definition sample_row :: "string \<Rightarrow> nat \<Rightarrow> nat \<Rightarrow> io_row" where
  "sample_row dev r w =
     \<lparr>r_dev = dev, r_cols = [(8, fixed_digits 2 100, to_double (of_nat 100 / 10 ^ 2)),
        (4, dec_str r, double_of_nat r), (4, dec_str w, double_of_nat w)]\<rparr>"

lemma fixed_digits_plain: "newline \<notin> set (fixed_digits p n) \<and> CHR 0x00 \<notin> set (fixed_digits p n)"
  using dec_str_digits dec_pad_digits not_digit_special
  by (fastforce simp: fixed_digits_def newline_def)

lemma wf_sample_row:
  assumes "token dev" "length dev < 20" "take 6 dev \<noteq> ''Device''" "CHR 0x00 \<notin> set dev" "newline \<notin> set dev"
    and "r < 10" "w < 10"
  shows "wf_io_row (sample_row dev r w)"
proof -
  have "length (dec_str (100 div 10 ^ 2)) = 1" by simp
  then have "length (io_text (sample_row dev r w)) < 1022"
    using assms by (simp add: io_text_def io_cols_def sample_row_def fixed_digits_def)
  moreover have "denotes [digit_char r] (double_of_nat r)" "denotes [digit_char w] (double_of_nat w)"
    using denotes_dec [of r] denotes_dec [of w] assms by simp_all
  moreover have "newline \<notin> set [digit_char r, digit_char w]" "CHR 0x00 \<notin> set [digit_char r, digit_char w]"
    using assms is_digit_char [of r] is_digit_char [of w] not_digit_special(1,2) by (simp; metis)+
  ultimately show ?thesis
    using assms denotes_fixed [of 2 100] fixed_digits_plain [of 2 100] dec_str_no_special [of newline r]
      dec_str_no_special [of newline w]
    by (simp add: wf_io_row_def plain_line_def) (simp add: sample_row_def io_text_def io_cols_def newline_def)
qed

lemma sample_rates:
  "read_rate (sample_row d r w) = double_of_nat r" "write_rate (sample_row d r w) = double_of_nat w"
  by (simp_all add: read_rate_def write_rate_def sample_row_def)

lemma replicate_2: "replicate 2 x = [x, x]"
  by (simp add: numeral_2_eq_2)

theorem disk_io_rates_witness:
  "DiskIO (Some (unlines ([''Linux'', [], ''Device tps''] @ map io_text [sample_row ''sda'' 9 9] @ [[]] @
     [''Device'' @ '' tps''] @ map io_text [sample_row ''sda'' 2 3, sample_row ''sdb'' 4 5] @ [[], []]))) =
   Inr (DFin 14, DFin 18)"
proof -
  have wf: "\<forall>r\<in>set ([sample_row ''sda'' 9 9] @ [sample_row ''sda'' 2 3, sample_row ''sdb'' 4 5]). wf_io_row r"
    by (simp add: wf_sample_row token_def is_space_def newline_def)
  have "io_title ''Device'' '' tps''"
    by (simp add: io_title_def token_def is_space_def delimited_def not_number_def skip_ws_def is_digit_def
        plain_line_def newline_def)
  from disk_io_rates [OF wf _ _ _ _ this, of "''Linux''" "[]" "''Device tps''" "[[]]" "[[], []]"]
  have "DiskIO (Some (unlines ([''Linux'', [], ''Device tps''] @ map io_text [sample_row ''sda'' 9 9] @ [[]] @
     [''Device'' @ '' tps''] @ map io_text [sample_row ''sda'' 2 3, sample_row ''sdb'' 4 5] @ [[], []]))) =
     Inr (foldl dadd (DFin 0) (map double_of_nat [2, 4, 4, 4]), foldl dadd (DFin 0) (map double_of_nat [3, 5, 5, 5]))"
    by (simp add: plain_line_def newline_def sample_rates replicate_2)
  moreover have "foldl dadd (DFin 0) (map double_of_nat [2, 4, 4, 4]) = DFin 14"
    using to_double_nat [of 2] to_double_nat [of 6] to_double_nat [of 10] to_double_nat [of 14] by simp
  moreover have "foldl dadd (DFin 0) (map double_of_nat [3, 5, 5, 5]) = DFin 18"
    using to_double_nat [of 3] to_double_nat [of 8] to_double_nat [of 13] to_double_nat [of 18] by simp
  ultimately show ?thesis by simp
qed

section \<open>The life of the refreshing thread\<close>

inductive_cases disk_threadE: "disk_thread s t"
inductive_cases disk_stepE: "disk_step s t"

lemmas disk_owner_defs = disk_stop_def disk_join_def disk_free_def

lemma disk_thread_keeps:
  "disk_thread s t \<Longrightarrow> allocated t = allocated s \<and> ioThreadRunning t = ioThreadRunning s \<and> joined t = joined s"
  by (elim disk_threadE) auto

lemma disk_step_finished: "disk_step s t \<Longrightarrow> pc s = Finished \<Longrightarrow> pc t = Finished"
  by (elim disk_stepE disk_threadE) (auto simp: disk_owner_defs)

lemma disk_step_harm:
  "disk_step s t \<Longrightarrow> use_after_free t \<Longrightarrow> use_after_free s \<or> \<not> allocated s \<and> pc s \<noteq> Finished"
  by (elim disk_stepE disk_threadE) (auto simp: disk_owner_defs)

lemma joined_finished: "disk_reachable s \<Longrightarrow> joined s \<Longrightarrow> pc s = Finished"
proof (induction rule: rtranclp_induct)
  case (step y z)
  from step.hyps(2) show ?case
  proof cases
    case disk_runs
    then show ?thesis using step disk_step_finished [OF step.hyps(2)] disk_thread_keeps by blast
  qed (use step in \<open>auto simp: disk_owner_defs\<close>)
qed (simp add: DiskPrivate_init_def)

interpretation disk_object: joined_object disk_step DiskPrivate_init allocated "\<lambda>s. pc s = Finished" use_after_free
proof unfold_locales
  fix s t
  show "\<not> allocated t" if "disk_step s t" "\<not> allocated s"
    using that by (elim disk_stepE) (auto simp: disk_owner_defs dest: disk_thread_keeps)
  show "pc s = Finished" if "disk_reachable s" "disk_step s t" "allocated s" "\<not> allocated t"
    using that by (elim disk_stepE) (auto simp: disk_owner_defs dest: disk_thread_keeps joined_finished)
qed (auto simp: DiskPrivate_init_def dest: disk_step_finished disk_step_harm)

text \<open>The destructor joins the thread before the object is released, so in every interleaving
  of owner and thread no freed member is accessed, and the thread has returned when the object is
  gone.\<close>

theorem disk_thread_joined:
  assumes "disk_reachable s"
  shows "\<not> use_after_free s \<and> (\<not> allocated s \<longrightarrow> pc s = Finished)"
  using disk_object.never_harmed [OF assms] disk_object.freed_finished [OF assms] by blast

theorem disk_thread_joined_witness: "\<not> use_after_free DiskPrivate_init"
  using disk_thread_joined [of DiskPrivate_init] by simp

section \<open>Where the rates come from\<close>

definition iostat_report :: "double \<times> double \<Rightarrow> bool" where
  "iostat_report rw \<longleftrightarrow> (\<exists>out. DiskIO out = Inr rw)"

interpretation disk_rates: sampled_object disk_step DiskPrivate_init allocated "\<lambda>s. pc s = Finished"
    use_after_free "\<lambda>s. set (reports s)" iostat_report
proof unfold_locales
  fix s t
  show "set (reports t) \<subseteq> Collect iostat_report" if "disk_step s t" "set (reports s) \<subseteq> Collect iostat_report"
    using that by (elim disk_stepE disk_threadE) (auto simp: disk_owner_defs iostat_report_def)
qed (simp add: DiskPrivate_init_def)

text \<open>The reports whose read rate, and those whose write rate, the thread has stored: all it has read,
  except the last one while its stores are still to come.\<close>

definition read_stored :: "DiskPrivate \<Rightarrow> (double \<times> double) list" where
  "read_stored s = (case pc s of Store_Read rw \<Rightarrow> butlast (reports s) | _ \<Rightarrow> reports s)"

definition write_stored :: "DiskPrivate \<Rightarrow> (double \<times> double) list" where
  "write_stored s =
     (case pc s of
        Store_Read rw \<Rightarrow> butlast (reports s)
      | Store_Write rw \<Rightarrow> butlast (reports s)
      | _ \<Rightarrow> reports s)"

definition disk_history :: "DiskPrivate \<Rightarrow> bool" where
  "disk_history s \<longleftrightarrow>
     diskReadIO s = (if read_stored s = [] then None else Some (fst (last (read_stored s)))) \<and>
     diskWriteIO s = (if write_stored s = [] then None else Some (snd (last (write_stored s)))) \<and>
     (\<forall>rw. pc s = Store_Read rw \<or> pc s = Store_Write rw \<longrightarrow> reports s \<noteq> [] \<and> last (reports s) = rw)"

lemmas disk_history_defs = disk_history_def read_stored_def write_stored_def

lemma disk_thread_history: "disk_thread s t \<Longrightarrow> disk_history s \<Longrightarrow> disk_history t"
  by (induction rule: disk_thread.induct) (auto simp: disk_history_defs split: if_splits)

lemma disk_history_owner: "disk_history (disk_stop s) = disk_history s" "disk_history (disk_join s) = disk_history s"
    "disk_history (disk_free s) = disk_history s"
  by (simp_all add: disk_owner_defs disk_history_defs cong: disk_pc.case_cong)

lemma disk_step_history: "disk_step s t \<Longrightarrow> disk_history s \<Longrightarrow> disk_history t"
  by (elim disk_stepE) (auto simp: disk_history_owner intro: disk_thread_history)

lemma disk_reachable_history:
  assumes "disk_reachable s"
  shows "disk_history s"
proof -
  have "disk_history DiskPrivate_init" by (simp add: DiskPrivate_init_def disk_history_defs)
  with assms show ?thesis by (rule rtranclp_keeps) (rule disk_step_history)
qed

lemma GetDiskIO_loads:
  assumes "disk_reachable s" "disk_step\<^sup>*\<^sup>* s t"
  shows "GetDiskIO s t =
      (if read_stored s = [] \<or> write_stored t = [] then Inl Uninit_Read
       else Inr (fst (last (read_stored s)), snd (last (write_stored t))))"
proof -
  have "disk_reachable t" using assms by (rule rtranclp_trans)
  then show ?thesis
    using disk_reachable_history [OF assms(1)] disk_reachable_history [of t]
    by (simp add: GetDiskIO_def disk_history_def)
qed

lemma DiskIO_empty: "DiskIO (Some []) = Inr (DFin 0, DFin 0)"
proof -
  have "take_line n [] = ([], [])" for n by (cases n) simp_all
  then show ?thesis
    by (simp add: DiskIO_def open_stream_def fgets_def io_loop.simps io_init_def)
qed

text \<open>Two states of a run: after one report, and between the two stores of the next.\<close>

definition seen_once :: "double \<times> double \<Rightarrow> DiskPrivate" where
  "seen_once rw = DiskPrivate_init\<lparr>diskReadIO := Some (fst rw), diskWriteIO := Some (snd rw), reports := [rw]\<rparr>"

definition torn :: "double \<times> double \<Rightarrow> double \<times> double \<Rightarrow> DiskPrivate" where
  "torn rw rw' = (seen_once rw)\<lparr>diskReadIO := Some (fst rw'), pc := Store_Write rw', reports := [rw, rw']\<rparr>"

lemma one_report:
  assumes "DiskIO out = Inr rw" "pc s = Check_Running" "allocated s" "ioThreadRunning s"
  shows "disk_step\<^sup>*\<^sup>* s (s\<lparr>reports := reports s @ [rw], diskReadIO := Some (fst rw), pc := Store_Write rw\<rparr>)"
    (is "disk_step\<^sup>*\<^sup>* s ?u")
    and "disk_step\<^sup>*\<^sup>* s (s\<lparr>diskReadIO := Some (fst rw), diskWriteIO := Some (snd rw), reports := reports s @ [rw]\<rparr>)"
proof -
  have "disk_thread\<^sup>*\<^sup>* s ?u"
    using check_go [of s] command [of "s\<lparr>pc := Running_Command\<rparr>", OF _ assms(1)]
      store_read [of "s\<lparr>pc := Store_Read rw, reports := reports s @ [rw]\<rparr>" rw] assms
    by simp
  then show u: "disk_step\<^sup>*\<^sup>* s ?u"
    by (rule rtranclp_mono [THEN predicate2D, rotated]) (auto intro: disk_runs)
  have "disk_step ?u (?u\<lparr>diskWriteIO := Some (snd rw), pc := Check_Running\<rparr>)"
    using assms by (intro disk_runs store_write) simp_all
  with u show "disk_step\<^sup>*\<^sup>* s (s\<lparr>diskReadIO := Some (fst rw), diskWriteIO := Some (snd rw), reports := reports s @ [rw]\<rparr>)"
    using assms(2) by (cases s) simp
qed

lemma seen_once_reachable: "DiskIO out = Inr rw \<Longrightarrow> disk_reachable (seen_once rw)"
  using one_report(2) [of out rw DiskPrivate_init] by (simp add: seen_once_def DiskPrivate_init_def)

lemma torn_reachable:
  assumes "DiskIO out = Inr rw" "DiskIO out' = Inr rw'"
  shows "disk_reachable (torn rw rw')"
  using seen_once_reachable [OF assms(1)] one_report(1) [OF assms(2), of "seen_once rw"]
  by (simp add: seen_once_def torn_def DiskPrivate_init_def)

lemma torn_loads: "GetDiskIO (torn rw rw') (torn rw rw') = Inr (fst rw', snd rw)"
  by (simp add: torn_def seen_once_def GetDiskIO_def)

text \<open>C15: The first number of \<open>GetDiskIO\<close> is the read rate of the last report whose read rate the thread
  had stored at the first load, the second the write rate of the last report whose write rate it had
  stored at the second load, and if there is none yet an uninitialised member is read. All reports
  come from outputs of \<open>iostat\<close>. The two numbers need not be of one report: from any two
  consecutive reports the thread reaches a state in which the read rate of the second is returned
  with the write rate of the first.\<close>

theorem disk_io_source:
  assumes "disk_reachable s" "disk_step\<^sup>*\<^sup>* s t"
  shows "GetDiskIO s t =
      (if read_stored s = [] \<or> write_stored t = [] then Inl Uninit_Read
       else Inr (fst (last (read_stored s)), snd (last (write_stored t)))) \<and>
    (\<forall>rw\<in>set (reports t). iostat_report rw) \<and>
    (\<forall>rw rw'. iostat_report rw \<longrightarrow> iostat_report rw' \<longrightarrow>
      (\<exists>u. disk_reachable u \<and> reports u = [rw, rw'] \<and> GetDiskIO u u = Inr (fst rw', snd rw)))"
proof (intro conjI allI impI ballI)
  show "GetDiskIO s t =
      (if read_stored s = [] \<or> write_stored t = [] then Inl Uninit_Read
       else Inr (fst (last (read_stored s)), snd (last (write_stored t))))"
    using assms by (rule GetDiskIO_loads)
  have "disk_reachable t" using assms by (rule rtranclp_trans)
  then show "iostat_report rw" if "rw \<in> set (reports t)" for rw
    using that by (rule disk_rates.genuine_reachable)
  fix rw rw' assume "iostat_report rw" "iostat_report rw'"
  then have "disk_reachable (torn rw rw')" unfolding iostat_report_def by (elim exE) (rule torn_reachable)
  moreover have "reports (torn rw rw') = [rw, rw']" by (simp add: torn_def)
  ultimately show "\<exists>u. disk_reachable u \<and> reports u = [rw, rw'] \<and> GetDiskIO u u = Inr (fst rw', snd rw)"
    using torn_loads by blast
qed

theorem disk_io_source_witness:
  "GetDiskIO (seen_once (DFin 0, DFin 0)) (seen_once (DFin 0, DFin 0)) = Inr (DFin 0, DFin 0)"
  using disk_io_source [OF seen_once_reachable [OF DiskIO_empty] rtranclp.rtrancl_refl]
  by (simp add: read_stored_def write_stored_def seen_once_def DiskPrivate_init_def)

end
