(* ===== verification/Ordered_Map.thy ===== *)
theory Ordered_Map
  imports Prelude
begin

text \<open>
  \<open>std::map\<close> with \<open>std::less\<close>, the object type of \<open>nlohmann::json\<close>: the interface the JSON
  component relies on as a locale, and its interpretation on association lists kept strictly
  sorted by key, the order in which the container iterates.
\<close>

section \<open>The interface\<close>

text \<open>
  \<open>emplace\<close> does nothing when the key is there, \<open>store\<close> is the assignment through the
  reference \<open>operator[]\<close> returns, \<open>erase\<close> removes by key. Two well-formed maps with the same
  content are the same map, since iteration order is determined by the keys.
\<close>

locale ordered_map =
  fixes mempty :: "'m"
    and find :: "'k \<Rightarrow> 'm \<Rightarrow> 'v option"
    and emplace :: "'k \<Rightarrow> 'v \<Rightarrow> 'm \<Rightarrow> 'm"
    and store :: "'k \<Rightarrow> 'v \<Rightarrow> 'm \<Rightarrow> 'm"
    and erase :: "'k \<Rightarrow> 'm \<Rightarrow> 'm"
    and invar :: "'m \<Rightarrow> bool"
  assumes find_empty: "find k mempty = None"
    and find_emplace: "invar m \<Longrightarrow> find k' (emplace k v m) = (if k' = k \<and> find k m = None then Some v else find k' m)"
    and find_store: "invar m \<Longrightarrow> find k' (store k v m) = (if k' = k then Some v else find k' m)"
    and find_erase: "invar m \<Longrightarrow> find k' (erase k m) = (if k' = k then None else find k' m)"
    and invar_empty: "invar mempty"
    and invar_emplace: "invar m \<Longrightarrow> invar (emplace k v m)"
    and invar_store: "invar m \<Longrightarrow> invar (store k v m)"
    and invar_erase: "invar m \<Longrightarrow> invar (erase k m)"
    and extensional: "invar m \<Longrightarrow> invar n \<Longrightarrow> (\<And>k. find k m = find k n) \<Longrightarrow> m = n"
begin

lemma store_emplace: "invar m \<Longrightarrow> store k v (emplace k w m) = store k v m"
  by (rule extensional) (auto simp: find_emplace find_store invar_emplace invar_store)

lemma store_store: "invar m \<Longrightarrow> store k v (store k w m) = store k v m"
  by (rule extensional) (auto simp: find_store invar_store)

lemma store_commute: "invar m \<Longrightarrow> k \<noteq> l \<Longrightarrow> store k v (store l w m) = store l w (store k v m)"
  by (rule extensional) (auto simp: find_store invar_store)

lemma store_same: "invar m \<Longrightarrow> find k m = Some v \<Longrightarrow> store k v m = m"
  by (rule extensional) (auto simp: find_store invar_store)

lemma emplace_present: "invar m \<Longrightarrow> find k m \<noteq> None \<Longrightarrow> emplace k v m = m"
  by (rule extensional) (auto simp: find_emplace invar_emplace)

lemma emplace_absent: "invar m \<Longrightarrow> find k m = None \<Longrightarrow> emplace k v m = store k v m"
  by (rule extensional) (auto simp: find_emplace find_store invar_emplace invar_store)

lemma erase_store: "invar m \<Longrightarrow> erase k (store k v m) = erase k m"
  by (rule extensional) (auto simp: find_store find_erase invar_store invar_erase)

lemma erase_absent: "invar m \<Longrightarrow> find k m = None \<Longrightarrow> erase k m = m"
  by (rule extensional) (auto simp: find_erase invar_erase)

text \<open>The content after a sequence of emplaces: the first binding of each key wins.\<close>

lemma find_emplaces:
  "invar m \<Longrightarrow>
   find k (foldl (\<lambda>m (k, v). emplace k v m) m kvs) =
     (case find k m of Some v \<Rightarrow> Some v | None \<Rightarrow> map_of kvs k) \<and>
   invar (foldl (\<lambda>m (k, v). emplace k v m) m kvs)"
proof (induction kvs arbitrary: m)
  case Nil
  then show ?case by (simp split: option.split)
next
  case (Cons kv kvs)
  obtain l v where "kv = (l, v)" by (cases kv)
  with Cons.IH [of "emplace l v m"] Cons.prems show ?case
    by (auto simp: find_emplace invar_emplace split: option.split)
qed

end

section \<open>Sorted association lists\<close>

type_synonym ('k, 'v) members = "('k \<times> 'v) list"

fun member_find :: "'k::linorder \<Rightarrow> ('k, 'v) members \<Rightarrow> 'v option" where
  "member_find k [] = None"
| "member_find k ((l, v) # m) = (if k = l then Some v else if k < l then None else member_find k m)"

fun member_emplace :: "'k::linorder \<Rightarrow> 'v \<Rightarrow> ('k, 'v) members \<Rightarrow> ('k, 'v) members" where
  "member_emplace k v [] = [(k, v)]"
| "member_emplace k v ((l, w) # m) =
     (if k < l then (k, v) # (l, w) # m
      else if k = l then (l, w) # m
      else (l, w) # member_emplace k v m)"

fun member_store :: "'k::linorder \<Rightarrow> 'v \<Rightarrow> ('k, 'v) members \<Rightarrow> ('k, 'v) members" where
  "member_store k v [] = [(k, v)]"
| "member_store k v ((l, w) # m) =
     (if k < l then (k, v) # (l, w) # m
      else if k = l then (l, v) # m
      else (l, w) # member_store k v m)"

fun member_erase :: "'k::linorder \<Rightarrow> ('k, 'v) members \<Rightarrow> ('k, 'v) members" where
  "member_erase k [] = []"
| "member_erase k ((l, w) # m) =
     (if k < l then (l, w) # m else if k = l then m else (l, w) # member_erase k m)"

definition members_sorted :: "('k::linorder, 'v) members \<Rightarrow> bool" where
  "members_sorted m \<longleftrightarrow> sorted_wrt (<) (map fst m)"

lemma members_sorted_simps [simp]:
  "members_sorted []"
  "members_sorted ((k, v) # m) \<longleftrightarrow> (\<forall>l\<in>fst ` set m. k < l) \<and> members_sorted m"
  by (simp_all add: members_sorted_def)

lemma member_find_map_of: "members_sorted m \<Longrightarrow> member_find k m = map_of m k"
proof (induction k m rule: member_find.induct)
  case (2 k l v m)
  have "map_of m k = None" if "k < l"
    using that 2 by (force simp: map_of_eq_None_iff)
  with 2 show ?case by auto
qed simp

lemma member_find_in_set: "member_find k m = Some v \<Longrightarrow> (k, v) \<in> set m"
  by (induction k m rule: member_find.induct) (auto split: if_splits)

lemma keys_emplace: "fst ` set (member_emplace k v m) = insert k (fst ` set m)"
  by (induction k v m rule: member_emplace.induct) auto

lemma keys_store: "fst ` set (member_store k v m) = insert k (fst ` set m)"
  by (induction k v m rule: member_store.induct) auto

lemma set_erase: "set (member_erase k m) \<subseteq> set m"
  by (induction k m rule: member_erase.induct) auto

lemma set_store: "set (member_store k v m) \<subseteq> insert (k, v) (set m)"
  by (induction k v m rule: member_store.induct) auto

lemma set_emplace: "set (member_emplace k v m) \<subseteq> insert (k, v) (set m)"
  by (induction k v m rule: member_emplace.induct) auto

lemma sorted_emplace: "members_sorted m \<Longrightarrow> members_sorted (member_emplace k v m)"
proof (induction k v m rule: member_emplace.induct)
  case (2 k v l w m)
  have "\<forall>x\<in>fst ` set (member_emplace k v m). l < x" if "l < k"
    using that 2 by (auto simp: keys_emplace)
  with 2 show ?case by (auto intro: less_trans)
qed simp

lemma sorted_store: "members_sorted m \<Longrightarrow> members_sorted (member_store k v m)"
proof (induction k v m rule: member_store.induct)
  case (2 k v l w m)
  have "\<forall>x\<in>fst ` set (member_store k v m). l < x" if "l < k"
    using that 2 by (auto simp: keys_store)
  with 2 show ?case by (auto intro: less_trans)
qed simp

lemma sorted_erase: "members_sorted m \<Longrightarrow> members_sorted (member_erase k m)"
proof (induction k m rule: member_erase.induct)
  case (2 k l w m)
  then show ?case using set_erase [of k m] by fastforce
qed simp

lemma find_after_emplace:
  "member_find k' (member_emplace k v m) = (if k' = k \<and> member_find k m = None then Some v else member_find k' m)"
  by (induction k v m rule: member_emplace.induct) auto

lemma find_after_store: "member_find k' (member_store k v m) = (if k' = k then Some v else member_find k' m)"
  by (induction k v m rule: member_store.induct) auto

lemma member_find_below: "\<forall>l\<in>fst ` set m. k < l \<Longrightarrow> member_find k m = None"
  by (cases m) auto

lemma member_find_Cons:
  "members_sorted ((l, v) # m) \<Longrightarrow> member_find k ((l, v) # m) = (if k = l then Some v else member_find k m)"
proof -
  assume s: "members_sorted ((l, v) # m)"
  have "member_find k m = None" if "k < l"
    using that s by (intro member_find_below) (auto intro: less_trans)
  then show ?thesis by auto
qed

lemma find_after_erase:
  "members_sorted m \<Longrightarrow> member_find k' (member_erase k m) = (if k' = k then None else member_find k' m)"
proof (induction k m rule: member_erase.induct)
  case (2 k l w m)
  consider "k < l" | "k = l" | "l < k" by (rule linorder_cases)
  then show ?case
  proof cases
    case 1
    with 2 show ?thesis by auto
  next
    case 2
    with "2.prems" show ?thesis using member_find_below [of m k] by (auto simp: member_find_Cons simp del: member_find.simps)
  next
    case 3
    have ne: "\<not> k < l" "k \<noteq> l" using 3 by auto
    have s: "members_sorted ((l, w) # member_erase k m)"
      using sorted_erase [OF "2.prems", of k] ne by (simp only: member_erase.simps if_False)
    from 2 s ne show ?thesis by (auto simp: member_find_Cons simp del: member_find.simps)
  qed
qed simp

lemma members_ext:
  "members_sorted m \<Longrightarrow> members_sorted n \<Longrightarrow> (\<And>k. member_find k m = member_find k n) \<Longrightarrow> m = n"
proof (induction m arbitrary: n)
  case Nil
  show ?case
  proof (cases n)
    case (Cons x n')
    then show ?thesis using Nil.prems(3) [of "fst x"] by (cases x) simp
  qed simp
next
  case (Cons x m)
  obtain k v where x: "x = (k, v)" by (cases x)
  have "member_find k n = Some v" using Cons.prems(3) [of k] x by simp
  then obtain l w n' where n: "n = (l, w) # n'" by (cases n) auto
  have "k = l"
  proof (rule ccontr)
    assume "k \<noteq> l"
    then consider "k < l" | "l < k" by fastforce
    then show False using Cons.prems(3) [of k] Cons.prems(3) [of l] x n
      by cases (use \<open>k \<noteq> l\<close> in auto)
  qed
  have "v = w" using Cons.prems(3) [of k] x n \<open>k = l\<close> by simp
  have "member_find j m = member_find j n'" for j
  proof (cases "j = k")
    case True
    then show ?thesis using Cons.prems(1,2) x n \<open>k = l\<close> by (simp add: member_find_below)
  next
    case False
    then show ?thesis using Cons.prems x n \<open>k = l\<close> by (metis member_find_Cons)
  qed
  then have "m = n'" using Cons x n by simp
  then show ?case using x n \<open>k = l\<close> \<open>v = w\<close> by simp
qed

interpretation object: ordered_map "[]" member_find member_emplace member_store member_erase members_sorted
  by unfold_locales
    (simp_all add: find_after_emplace find_after_store find_after_erase sorted_emplace sorted_store
      sorted_erase members_ext)

end
