(* ===== verification/Json_Value.thy ===== *)
theory Json_Value
  imports Ordered_Map Ieee_Double
begin

text \<open>
  \<open>nlohmann::basic_json\<close> as the monitor uses it: the value type, construction from initializer
  lists, element access, \<open>push_back\<close>, \<open>erase\<close>, \<open>empty\<close>, \<open>size\<close> and \<open>merge_patch\<close>. An exception
  is \<open>Json_Error\<close> with the library's number. Objects are ordered maps; the facts about them come
  from the interpretation \<open>object\<close>.
\<close>

section \<open>Values\<close>

datatype value_t =
    null_t | object_t | array_t | string_t | boolean_t | number_integer_t | number_unsigned_t
  | number_float_t

text \<open>\<open>number_integer\<close> is \<open>std::int64_t\<close>, read with \<open>sint\<close>. The binary and discarded kinds are left out.\<close>

datatype json =
    JNull
  | JObject "(string \<times> json) list"
  | JArray "json list"
  | JString string
  | JBool bool
  | JInteger u64
  | JUnsigned u64
  | JFloat double

fun type_of :: "json \<Rightarrow> value_t" where
  "type_of JNull = null_t"
| "type_of (JObject m) = object_t"
| "type_of (JArray xs) = array_t"
| "type_of (JString s) = string_t"
| "type_of (JBool b) = boolean_t"
| "type_of (JInteger n) = number_integer_t"
| "type_of (JUnsigned n) = number_unsigned_t"
| "type_of (JFloat d) = number_float_t"

definition is_null :: "json \<Rightarrow> bool" where
  "is_null j \<longleftrightarrow> type_of j = null_t"

definition is_object :: "json \<Rightarrow> bool" where
  "is_object j \<longleftrightarrow> type_of j = object_t"

text \<open>Every object, at any depth, is a well-formed ordered map.\<close>

fun wf_json :: "json \<Rightarrow> bool" where
  "wf_json (JObject m) \<longleftrightarrow> members_sorted m \<and> (\<forall>(k, v)\<in>set m. wf_json v)"
| "wf_json (JArray xs) \<longleftrightarrow> (\<forall>x\<in>set xs. wf_json x)"
| "wf_json _ \<longleftrightarrow> True"

section \<open>Construction from an initializer list\<close>

fun is_pair :: "json \<Rightarrow> bool" where
  "is_pair (JArray [JString k, v]) = True"
| "is_pair _ = False"

fun pair_of :: "json \<Rightarrow> string \<times> json" where
  "pair_of (JArray [JString k, v]) = (k, v)"
| "pair_of j = ([], j)"

text \<open>\<open>emplace\<close> keeps the first of two equal keys.\<close>

definition basic_json_init :: "json list \<Rightarrow> bool \<Rightarrow> value_t \<Rightarrow> json outcome" where
  "basic_json_init init type_deduction manual_type =
     (let is_an_object = list_all is_pair init;
          is_an_object' = (if \<not> type_deduction \<and> manual_type = array_t then False else is_an_object)
      in if \<not> type_deduction \<and> manual_type = object_t \<and> \<not> is_an_object' then Inl (Json_Error 301)
         else if is_an_object'
         then Inr (JObject (foldl (\<lambda>m (k, v). member_emplace k v m) [] (map pair_of init)))
         else Inr (JArray init))"

text \<open>The braces of the monitor's source: \<open>type_deduction\<close> is true.\<close>

definition braces :: "json list \<Rightarrow> json" where
  "braces init = (case basic_json_init init True array_t of Inr j \<Rightarrow> j | Inl e \<Rightarrow> JNull)"

section \<open>Access and change\<close>

text \<open>
  \<open>operator[]\<close> on a mutable value returns a reference into it: here the value with the element
  in place, and the element. \<open>assign_key\<close> and \<open>assign_index\<close> are an assignment through that reference.
\<close>

definition index_key :: "json \<Rightarrow> string \<Rightarrow> ((string \<times> json) list \<times> json) outcome" where
  "index_key j key =
     (let j' = (if is_null j then JObject [] else j)
      in case j' of
           JObject m \<Rightarrow>
             let m' = member_emplace key JNull m
             in Inr (m', (case member_find key m' of Some v \<Rightarrow> v | None \<Rightarrow> JNull))
         | _ \<Rightarrow> Inl (Json_Error 305))"

definition assign_key :: "json \<Rightarrow> string \<Rightarrow> json \<Rightarrow> json outcome" where
  "assign_key j key v = mapE (\<lambda>(m, _). JObject (member_store key v m)) (index_key j key)"

definition at_key :: "json \<Rightarrow> string \<Rightarrow> json outcome" where
  "at_key j key =
     (case j of
        JObject m \<Rightarrow> (case member_find key m of Some v \<Rightarrow> Inr v | None \<Rightarrow> Inl Uninit_Read)
      | _ \<Rightarrow> Inl (Json_Error 305))"

definition index_pos :: "json \<Rightarrow> nat \<Rightarrow> (json list \<times> json) outcome" where
  "index_pos j idx =
     (let j' = (if is_null j then JArray [] else j)
      in case j' of
           JArray xs \<Rightarrow>
             let xs' = (if length xs \<le> idx then xs @ replicate (idx + 1 - length xs) JNull else xs)
             in Inr (xs', xs' ! idx)
         | _ \<Rightarrow> Inl (Json_Error 305))"

definition assign_index :: "json \<Rightarrow> nat \<Rightarrow> json \<Rightarrow> json outcome" where
  "assign_index j idx v = mapE (\<lambda>(xs, _). JArray (xs[idx := v])) (index_pos j idx)"

definition push_back :: "json \<Rightarrow> json \<Rightarrow> json outcome" where
  "push_back j v =
     (let j' = (if is_null j then JArray [] else j)
      in case j' of JArray xs \<Rightarrow> Inr (JArray (xs @ [v])) | _ \<Rightarrow> Inl (Json_Error 308))"

definition push_back_pair :: "json \<Rightarrow> string \<times> json \<Rightarrow> json outcome" where
  "push_back_pair j kv =
     (let j' = (if is_null j then JObject [] else j)
      in case j' of
           JObject m \<Rightarrow> Inr (JObject (member_emplace (fst kv) (snd kv) m))
         | _ \<Rightarrow> Inl (Json_Error 308))"

definition push_back_init :: "json \<Rightarrow> json list \<Rightarrow> json outcome" where
  "push_back_init j init =
     (case init of
        [JString k, v] \<Rightarrow> if is_object j then push_back_pair j (k, v) else push_back j (braces init)
      | _ \<Rightarrow> push_back j (braces init))"

definition erase_key :: "json \<Rightarrow> string \<Rightarrow> (json \<times> nat) outcome" where
  "erase_key j key =
     (case j of
        JObject m \<Rightarrow> Inr (JObject (member_erase key m), of_bool (member_find key m \<noteq> None))
      | _ \<Rightarrow> Inl (Json_Error 307))"

definition erase_index :: "json \<Rightarrow> nat \<Rightarrow> json outcome" where
  "erase_index j idx =
     (case j of
        JArray xs \<Rightarrow> if length xs \<le> idx then Inl (Json_Error 401)
                     else Inr (JArray (take idx xs @ drop (Suc idx) xs))
      | _ \<Rightarrow> Inl (Json_Error 307))"

definition json_empty :: "json \<Rightarrow> bool" where
  "json_empty j = (case j of JNull \<Rightarrow> True | JArray xs \<Rightarrow> xs = [] | JObject m \<Rightarrow> m = [] | _ \<Rightarrow> False)"

definition json_size :: "json \<Rightarrow> nat" where
  "json_size j = (case j of JNull \<Rightarrow> 0 | JArray xs \<Rightarrow> length xs | JObject m \<Rightarrow> length m | _ \<Rightarrow> 1)"

definition json_contains :: "json \<Rightarrow> string \<Rightarrow> bool" where
  "json_contains j key = (case j of JObject m \<Rightarrow> member_find key m \<noteq> None | _ \<Rightarrow> False)"

section \<open>merge\_patch\<close>

definition members_of :: "json \<Rightarrow> (string \<times> json) list" where
  "members_of j = (case j of JObject m \<Rightarrow> m | _ \<Rightarrow> [])"

definition or_null :: "json option \<Rightarrow> json" where
  "or_null v = (case v of Some j \<Rightarrow> j | None \<Rightarrow> JNull)"

text \<open>
  The loop over the patch is \<open>merge_members\<close>; inside it \<open>erase\<close> and \<open>operator[]\<close> are used on an
  object only, so neither can throw.
\<close>

function merge_patch :: "json \<Rightarrow> json \<Rightarrow> json"
  and merge_members :: "(string \<times> json) list \<Rightarrow> (string \<times> json) list \<Rightarrow> (string \<times> json) list" where
  "merge_patch j apply_patch =
     (case apply_patch of
        JObject p \<Rightarrow> JObject (merge_members (members_of j) p)
      | _ \<Rightarrow> apply_patch)"
| "merge_members m [] = m"
| "merge_members m ((k, v) # p) =
     (if v = JNull then merge_members (member_erase k m) p
      else let m' = member_emplace k JNull m
           in merge_members (member_store k (merge_patch (or_null (member_find k m')) v) m') p)"
  by pat_completeness auto
termination
  by (relation "measure (\<lambda>x. case x of Inl (j, p) \<Rightarrow> size p | Inr (m, p) \<Rightarrow> size_list (size_prod (\<lambda>_. 0) size) p)")
    auto

declare merge_patch.simps [simp del] merge_members.simps [simp del]

section \<open>Well-formedness\<close>

lemma wf_find: "\<forall>(k, v)\<in>set m. wf_json v \<Longrightarrow> wf_json (or_null (member_find k m))"
  by (auto simp: or_null_def dest: member_find_in_set split: option.split)

lemma wf_members_store:
  "wf_json (JObject m) \<Longrightarrow> wf_json v \<Longrightarrow> wf_json (JObject (member_store k v m))"
  using set_store [of k v m] by (auto simp: sorted_store)

lemma wf_members_emplace:
  "wf_json (JObject m) \<Longrightarrow> wf_json v \<Longrightarrow> wf_json (JObject (member_emplace k v m))"
  using set_emplace [of k v m] by (auto simp: sorted_emplace)

lemma wf_members_erase: "wf_json (JObject m) \<Longrightarrow> wf_json (JObject (member_erase k m))"
  using set_erase [of k m] by (auto simp: sorted_erase)

lemma wf_members_of: "wf_json j \<Longrightarrow> wf_json (JObject (members_of j))"
  by (cases j) (simp_all add: members_of_def)

lemma wf_merge:
  "wf_json j \<Longrightarrow> wf_json p \<Longrightarrow> wf_json (merge_patch j p)"
  "wf_json (JObject m) \<Longrightarrow> \<forall>(k, v)\<in>set ps. wf_json v \<Longrightarrow> wf_json (JObject (merge_members m ps))"
proof (induction j p and m ps rule: merge_patch_merge_members.induct)
  case (1 j p)
  then show ?case
    using wf_members_of [of j] by (cases p) (simp_all add: merge_patch.simps del: wf_json.simps(1), simp)
next
  case (2 m)
  then show ?case by (simp add: merge_members.simps)
next
  case (3 m k v p)
  let ?m = "member_emplace k JNull m"
  show ?case
  proof (cases "v = JNull")
    case True
    with 3 show ?thesis using wf_members_erase [of m k]
      by (simp add: merge_members.simps del: wf_json.simps(1))
  next
    case False
    have m: "wf_json (JObject ?m)" using 3 by (intro wf_members_emplace) simp_all
    then have "wf_json (merge_patch (or_null (member_find k ?m)) v)"
      using False 3 wf_find [of ?m k] by simp
    with m have "wf_json (JObject (member_store k (merge_patch (or_null (member_find k ?m)) v) ?m))"
      by (intro wf_members_store)
    with 3 False show ?thesis by (simp add: merge_members.simps Let_def del: wf_json.simps(1))
  qed
qed

lemma wf_emplaces:
  "wf_json (JObject m) \<Longrightarrow> \<forall>(k, v)\<in>set kvs. wf_json v \<Longrightarrow>
   wf_json (JObject (foldl (\<lambda>m (k, v). member_emplace k v m) m kvs))"
proof (induction kvs arbitrary: m)
  case (Cons kv kvs)
  then show ?case using wf_members_emplace [of m "snd kv" "fst kv"]
    by (cases kv) (simp del: wf_json.simps(1))
qed simp

lemma pair_cases: "is_pair j \<Longrightarrow> \<exists>k v. j = JArray [JString k, v]"
  by (cases j rule: is_pair.cases) auto

lemma wf_pair_of: "is_pair j \<Longrightarrow> wf_json j \<Longrightarrow> wf_json (snd (pair_of j))"
  by (auto dest!: pair_cases)

lemma wf_braces: "\<forall>j\<in>set init. wf_json j \<Longrightarrow> wf_json (braces init)"
proof -
  assume wf: "\<forall>j\<in>set init. wf_json j"
  have "wf_json (JObject (foldl (\<lambda>m (k, v). member_emplace k v m) [] (map pair_of init)))"
    if "list_all is_pair init"
    using wf that by (intro wf_emplaces) (auto simp: list_all_iff dest!: wf_pair_of)
  with wf show ?thesis by (simp add: braces_def basic_json_init_def)
qed

lemma wf_assign_key: "wf_json j \<Longrightarrow> wf_json v \<Longrightarrow> assign_key j key v = Inr j' \<Longrightarrow> wf_json j'"
  using wf_members_store [OF wf_members_emplace [of "members_of j" JNull key], of v key] wf_members_of [of j]
  by (cases j) (auto simp: assign_key_def index_key_def is_null_def members_of_def Let_def simp del: wf_json.simps(1))

lemma wf_push_back: "wf_json j \<Longrightarrow> wf_json v \<Longrightarrow> push_back j v = Inr j' \<Longrightarrow> wf_json j'"
  by (cases j) (auto simp: push_back_def is_null_def)

lemma wf_index_pos: "wf_json j \<Longrightarrow> index_pos j idx = Inr (xs, x) \<Longrightarrow> \<forall>x\<in>set xs. wf_json x"
  by (cases j) (auto simp: index_pos_def is_null_def Let_def split: if_splits)

lemma wf_assign_index: "wf_json j \<Longrightarrow> wf_json v \<Longrightarrow> assign_index j idx v = Inr j' \<Longrightarrow> wf_json j'"
proof -
  assume wf: "wf_json j" "wf_json v" and j': "assign_index j idx v = Inr j'"
  obtain xs x where xs: "index_pos j idx = Inr (xs, x)" "j' = JArray (xs[idx := v])"
    using j' by (auto simp: assign_index_def mapE_eq_Inr)
  have "set (xs[idx := v]) \<subseteq> insert v (set xs)" by (rule set_update_subset_insert)
  then show ?thesis using wf_index_pos [OF wf(1) xs(1)] wf(2) xs(2) by auto
qed

lemma wf_push_back_pair: "wf_json j \<Longrightarrow> wf_json v \<Longrightarrow> push_back_pair j (key, v) = Inr j' \<Longrightarrow> wf_json j'"
  using wf_members_emplace [of "members_of j" v key] wf_members_of [of j]
  by (cases j) (auto simp: push_back_pair_def is_null_def members_of_def simp del: wf_json.simps(1))

lemma wf_erase_index: "wf_json j \<Longrightarrow> erase_index j idx = Inr j' \<Longrightarrow> wf_json j'"
  by (cases j) (auto simp: erase_index_def dest!: in_set_takeD in_set_dropD split: if_splits)

lemma wf_erase_key: "wf_json j \<Longrightarrow> mapE fst (erase_key j key) = Inr j' \<Longrightarrow> wf_json j'"
  using wf_members_erase [of "members_of j" key]
  by (cases j) (auto simp: erase_key_def members_of_def simp del: wf_json.simps(1))

section \<open>The content of a merge\<close>

lemma merge_members_sorted: "members_sorted m \<Longrightarrow> members_sorted (merge_members m p)"
  by (induction p arbitrary: m)
    (auto simp: merge_members.simps Let_def sorted_store sorted_emplace sorted_erase)

lemma find_merge:
  "members_sorted m \<Longrightarrow> distinct (map fst p) \<Longrightarrow>
   member_find k (merge_members m p) =
     (case map_of p k of
        None \<Rightarrow> member_find k m
      | Some v \<Rightarrow> if v = JNull then None else Some (merge_patch (or_null (member_find k m)) v))"
proof (induction p arbitrary: m)
  case Nil
  then show ?case by (simp add: merge_members.simps)
next
  case (Cons kv p)
  obtain l v where kv: "kv = (l, v)" by (cases kv)
  let ?m = "if v = JNull then member_erase l m
    else member_store l (merge_patch (or_null (member_find l m)) v) (member_emplace l JNull m)"
  have same: "or_null (member_find l (member_emplace l JNull m)) = or_null (member_find l m)"
    by (simp add: find_after_emplace or_null_def)
  have "merge_members m (kv # p) = merge_members ?m p"
    by (simp add: kv merge_members.simps Let_def same)
  moreover have "members_sorted ?m"
    using Cons.prems by (simp add: sorted_erase sorted_store sorted_emplace)
  moreover have "map_of p l = None" using Cons.prems kv by (simp add: map_of_eq_None_iff)
  ultimately show ?case
    using Cons kv by (auto simp: find_after_store find_after_emplace find_after_erase split: option.split)
qed

lemma sorted_distinct: "members_sorted m \<Longrightarrow> distinct (map fst m)"
  by (simp add: members_sorted_def strict_sorted_iff)

text \<open>C13: \<open>merge_patch\<close> is the merge patch of RFC 7396: a patch that is no object replaces the
  value; an object patch yields an object in which, key by key, a null member of the patch
  deletes, any other member is merged into the old one, and keys the patch does not name are kept.\<close>

theorem merge_patch_rfc7396:
  assumes "wf_json j" "wf_json p"
  shows "case p of
      JObject ps \<Rightarrow> (\<exists>m. merge_patch j p = JObject m \<and> members_sorted m \<and>
        (\<forall>k. member_find k m =
          (case member_find k ps of
             None \<Rightarrow> member_find k (members_of j)
           | Some v \<Rightarrow> if v = JNull then None
                       else Some (merge_patch (or_null (member_find k (members_of j))) v))))
    | _ \<Rightarrow> merge_patch j p = p"
proof (cases p)
  case (JObject ps)
  have s: "members_sorted (members_of j)" "members_sorted ps"
    using wf_members_of [OF assms(1)] assms(2) JObject by simp_all
  have "member_find k ps = map_of ps k" for k using s(2) by (rule member_find_map_of)
  then show ?thesis
    using JObject merge_members_sorted [OF s(1)] find_merge [OF s(1) sorted_distinct [OF s(2)]]
    by (simp add: merge_patch.simps)
qed (simp_all add: merge_patch.simps)

theorem merge_patch_rfc7396_witness:
  "\<exists>m. merge_patch (JObject [(''a'', JBool True), (''b'', JNull)]) (JObject [(''a'', JNull), (''c'', JInteger 1)]) = JObject m
    \<and> member_find ''a'' m = None \<and> member_find ''b'' m = Some JNull \<and> member_find ''c'' m = Some (JInteger 1)"
proof -
  have "wf_json (JObject [(''a'', JBool True), (''b'', JNull)])"
    "wf_json (JObject [(''a'', JNull), (''c'', JInteger 1)])"
    by (simp_all add: less_list_code less_char_def)
  from merge_patch_rfc7396 [OF this] show ?thesis
    by (auto simp add: members_of_def or_null_def less_list_code less_char_def merge_patch.simps [of _ "JInteger 1"])
qed

lemma size_member: "(k, v) \<in> set m \<Longrightarrow> size v < size (JObject m)"
  by (induction m) auto

lemma merge_patch_idem: "wf_json j \<Longrightarrow> wf_json p \<Longrightarrow> merge_patch (merge_patch j p) p = merge_patch j p"
proof (induction p arbitrary: j rule: measure_induct_rule [where f = size])
  case (less p)
  show ?case
  proof (cases p)
    case (JObject ps)
    let ?m = "members_of j" and ?n = "merge_members (members_of j) ps"
    have wf: "wf_json (JObject ?m)" "wf_json (JObject ?n)"
      using less.prems wf_members_of wf_merge(1) [of j p] by (simp_all add: JObject merge_patch.simps del: wf_json.simps(1))
    then have s: "members_sorted ?m" "members_sorted ?n" and d: "distinct (map fst ps)"
      using less.prems JObject by (simp_all add: sorted_distinct)
    have "merge_members ?n ps = ?n"
    proof (rule members_ext)
      show "members_sorted (merge_members ?n ps)" "members_sorted ?n" using s merge_members_sorted by blast+
      fix k
      show "member_find k (merge_members ?n ps) = member_find k ?n"
      proof (cases "map_of ps k")
        case None
        then show ?thesis using find_merge [OF s(2) d] by simp
      next
        case (Some v)
        then have v: "(k, v) \<in> set ps" by (rule map_of_SomeD)
        have "wf_json v" using v less.prems(2) JObject by auto
        moreover have "wf_json (or_null (member_find k ?m))" using wf(1) wf_find [of ?m k] by simp
        ultimately have "merge_patch (merge_patch (or_null (member_find k ?m)) v) v =
            merge_patch (or_null (member_find k ?m)) v"
          using less.IH [of v] size_member [OF v] JObject by simp
        then show ?thesis
          using Some find_merge [OF s(2) d, of k] find_merge [OF s(1) d, of k] by (simp add: or_null_def)
      qed
    qed
    then show ?thesis by (simp add: JObject merge_patch.simps members_of_def)
  qed (simp_all add: merge_patch.simps)
qed

text \<open>Applying the same patch twice changes nothing more.\<close>

theorem merge_patch_idempotent:
  assumes "wf_json j" "wf_json p"
  shows "merge_patch (merge_patch j p) p = merge_patch j p"
  using assms by (rule merge_patch_idem)

theorem merge_patch_idempotent_witness:
  "merge_patch (merge_patch JNull (JObject [(''a'', JNull)])) (JObject [(''a'', JNull)]) =
   merge_patch JNull (JObject [(''a'', JNull)])"
  by (rule merge_patch_idempotent) simp_all

lemma braces_pairs:
  "braces (map (\<lambda>(k, v). JArray [JString k, v]) kvs) =
   JObject (foldl (\<lambda>m (k, v). member_emplace k v m) [] kvs)"
proof -
  have "list_all is_pair (map (\<lambda>(k, v). JArray [JString k, v]) kvs)" by (induction kvs) auto
  moreover have "map pair_of (map (\<lambda>(k, v). JArray [JString k, v]) kvs) = kvs" by (induction kvs) auto
  ultimately show ?thesis by (simp add: braces_def basic_json_init_def split_beta)
qed

text \<open>Braces around pairs \<open>{key, value}\<close> build the object with those members, the first of two
  equal keys winning, in key order whatever the order written; as soon as one element is not such
  a pair the braces build an array of the elements as written.\<close>

theorem braces_meaning:
  "(\<exists>m. braces (map (\<lambda>(k, v). JArray [JString k, v]) kvs) = JObject m \<and> members_sorted m \<and>
        (\<forall>k. member_find k m = map_of kvs k)) \<and>
   (\<not> list_all is_pair init \<longrightarrow> braces init = JArray init)"
  using object.find_emplaces [of "[]" _ kvs] braces_pairs [of kvs]
  by (auto simp: braces_def basic_json_init_def)

theorem braces_meaning_witness:
  "braces [JObject [], JArray [JString ''total'', JFloat (DFin 1)]] =
   JArray [JObject [], JArray [JString ''total'', JFloat (DFin 1)]]"
  using braces_meaning [of "[]" "[JObject [], JArray [JString ''total'', JFloat (DFin 1)]]"] by simp

section \<open>Assignment through the index operator\<close>

lemma assign_key_object:
  "members_sorted m \<Longrightarrow> assign_key (JObject m) key v = Inr (JObject (member_store key v m))"
  by (simp add: assign_key_def index_key_def is_null_def Let_def object.store_emplace)

lemma assign_key_null: "assign_key JNull key v = Inr (JObject [(key, v)])"
  by (simp add: assign_key_def index_key_def is_null_def Let_def)

lemma merge_into_empty:
  "members_sorted m \<Longrightarrow> \<forall>(k, v)\<in>set m. v \<noteq> JNull \<and> (\<forall>ps. v \<noteq> JObject ps) \<Longrightarrow> merge_members [] m = m"
proof (rule members_ext)
  fix k
  assume s: "members_sorted m" and v: "\<forall>(k, v)\<in>set m. v \<noteq> JNull \<and> (\<forall>ps. v \<noteq> JObject ps)"
  have "merge_patch j v = v" if "(k, v) \<in> set m" for j v
    using that v by (cases v) (auto simp: merge_patch.simps)
  then show "member_find k (merge_members [] m) = member_find k m"
    using s v by (auto simp: find_merge sorted_distinct member_find_map_of split: option.split dest: map_of_SomeD)
qed (auto simp: merge_members_sorted)

end
