(* ===== verification/Utf8.thy ===== *)
theory Utf8
  imports Prelude
begin

text \<open>
  The UTF-8 decoder of the JSON serializer (\<open>serializer::decode\<close>): the automaton with its table
  as the source has it, the encoding of RFC 3629 as the reference, and the proof that the
  automaton accepts exactly the concatenations of encoded code points and computes them.
\<close>

unbundle bit_operations_syntax

section \<open>The automaton\<close>

definition UTF8_ACCEPT :: u8 where
  "UTF8_ACCEPT = 0"

definition UTF8_REJECT :: u8 where
  "UTF8_REJECT = 1"

definition utf8d :: "nat list" where
  "utf8d = [
   0, 0, 0, 0, 0, 0, 0, 0, 0, 0, 0, 0, 0, 0, 0, 0, 0, 0, 0, 0, 0, 0, 0, 0, 0, 0, 0, 0, 0, 0, 0, 0,
   0, 0, 0, 0, 0, 0, 0, 0, 0, 0, 0, 0, 0, 0, 0, 0, 0, 0, 0, 0, 0, 0, 0, 0, 0, 0, 0, 0, 0, 0, 0, 0,
   0, 0, 0, 0, 0, 0, 0, 0, 0, 0, 0, 0, 0, 0, 0, 0, 0, 0, 0, 0, 0, 0, 0, 0, 0, 0, 0, 0, 0, 0, 0, 0,
   0, 0, 0, 0, 0, 0, 0, 0, 0, 0, 0, 0, 0, 0, 0, 0, 0, 0, 0, 0, 0, 0, 0, 0, 0, 0, 0, 0, 0, 0, 0, 0,
   1, 1, 1, 1, 1, 1, 1, 1, 1, 1, 1, 1, 1, 1, 1, 1, 9, 9, 9, 9, 9, 9, 9, 9, 9, 9, 9, 9, 9, 9, 9, 9,
   7, 7, 7, 7, 7, 7, 7, 7, 7, 7, 7, 7, 7, 7, 7, 7, 7, 7, 7, 7, 7, 7, 7, 7, 7, 7, 7, 7, 7, 7, 7, 7,
   8, 8, 2, 2, 2, 2, 2, 2, 2, 2, 2, 2, 2, 2, 2, 2, 2, 2, 2, 2, 2, 2, 2, 2, 2, 2, 2, 2, 2, 2, 2, 2,
   10, 3, 3, 3, 3, 3, 3, 3, 3, 3, 3, 3, 3, 4, 3, 3, 11, 6, 6, 6, 5, 8, 8, 8, 8, 8, 8, 8, 8, 8, 8, 8,
   0, 1, 2, 3, 5, 8, 7, 1, 1, 1, 4, 6, 1, 1, 1, 1, 1, 1, 1, 1, 1, 1, 1, 1, 1, 1, 1, 1, 1, 1, 1, 1,
   1, 0, 1, 1, 1, 1, 1, 0, 1, 0, 1, 1, 1, 1, 1, 1, 1, 2, 1, 1, 1, 1, 1, 2, 1, 2, 1, 1, 1, 1, 1, 1,
   1, 1, 1, 1, 1, 1, 1, 2, 1, 1, 1, 1, 1, 1, 1, 1, 1, 2, 1, 1, 1, 1, 1, 1, 1, 2, 1, 1, 1, 1, 1, 1,
   1, 1, 1, 1, 1, 1, 1, 3, 1, 3, 1, 1, 1, 1, 1, 1, 1, 3, 1, 1, 1, 1, 1, 3, 1, 3, 1, 1, 1, 1, 1, 1,
   1, 3, 1, 1, 1, 1, 1, 1, 1, 1, 1, 1, 1, 1, 1, 1]"

definition byte_type :: "u8 \<Rightarrow> nat" where
  "byte_type byte = utf8d ! unat byte"

definition next_state :: "u8 \<Rightarrow> nat \<Rightarrow> u8" where
  "next_state state type = of_nat (utf8d ! (256 + unat state * 16 + type))"

text \<open>\<open>decode(state, codep, byte)\<close>: the new state and the new code point.\<close>

definition decode :: "u8 \<Rightarrow> u32 \<Rightarrow> u8 \<Rightarrow> u8 \<times> u32" where
  "decode state codep byte =
     (let type = byte_type byte;
          codep' = (if state \<noteq> UTF8_ACCEPT
                    then (ucast byte AND 0x3f) OR push_bit 6 codep
                    else drop_bit type 0xFF AND ucast byte)
      in (next_state state type, codep'))"

fun decode_all :: "u8 \<Rightarrow> u32 \<Rightarrow> u8 list \<Rightarrow> u8 \<times> u32" where
  "decode_all state codep [] = (state, codep)"
| "decode_all state codep (b # bs) =
     (case decode state codep b of (state', codep') \<Rightarrow>
        if state' = UTF8_REJECT then (UTF8_REJECT, codep') else decode_all state' codep' bs)"

section \<open>The encoding\<close>

definition scalar_value :: "nat \<Rightarrow> bool" where
  "scalar_value c \<longleftrightarrow> c < 0xD800 \<or> (0xE000 \<le> c \<and> c < 0x110000)"

definition utf8_encode :: "nat \<Rightarrow> nat list" where
  "utf8_encode c =
     (if c < 0x80 then [c]
      else if c < 0x800 then [0xC0 + c div 64, 0x80 + c mod 64]
      else if c < 0x10000 then [0xE0 + c div 4096, 0x80 + c div 64 mod 64, 0x80 + c mod 64]
      else [0xF0 + c div 262144, 0x80 + c div 4096 mod 64, 0x80 + c div 64 mod 64, 0x80 + c mod 64])"

section \<open>The table\<close>

definition type_spec :: "nat \<Rightarrow> nat" where
  "type_spec b =
     (if b < 0x80 then 0 else if b < 0x90 then 1 else if b < 0xA0 then 9 else if b < 0xC0 then 7
      else if b < 0xC2 then 8 else if b < 0xE0 then 2 else if b = 0xE0 then 10 else if b < 0xED then 3
      else if b = 0xED then 4 else if b < 0xF0 then 3 else if b = 0xF0 then 11 else if b < 0xF4 then 6
      else if b = 0xF4 then 5 else 8)"

definition next_spec :: "nat \<Rightarrow> nat \<Rightarrow> nat" where
  "next_spec q t =
     (if q = 0 then [0, 1, 2, 3, 5, 8, 7, 1, 1, 1, 4, 6, 1, 1, 1, 1] ! t
      else if q = 2 then if t \<in> {1, 7, 9} then 0 else 1
      else if q = 3 then if t \<in> {1, 7, 9} then 2 else 1
      else if q = 4 then if t = 7 then 2 else 1
      else if q = 5 then if t \<in> {1, 9} then 2 else 1
      else if q = 6 then if t \<in> {7, 9} then 3 else 1
      else if q = 7 then if t \<in> {1, 7, 9} then 3 else 1
      else if q = 8 then if t = 1 then 3 else 1
      else 1)"

lemma utf8d_types: "take 256 utf8d = map type_spec [0..<256]"
  by code_simp

lemma utf8d_states: "drop 256 utf8d = map (\<lambda>i. next_spec (i div 16) (i mod 16)) [0..<144]"
  by code_simp

lemma length_utf8d: "length utf8d = 400"
  by (simp add: utf8d_def)

lemma utf8d_type: "b < 256 \<Longrightarrow> utf8d ! b = type_spec b"
  using arg_cong [OF utf8d_types, of "\<lambda>xs. xs ! b"] by simp

lemma utf8d_next: "q \<le> 8 \<Longrightarrow> t < 16 \<Longrightarrow> utf8d ! (256 + q * 16 + t) = next_spec q t"
  using arg_cong [OF utf8d_states, of "\<lambda>xs. xs ! (q * 16 + t)"] by (simp add: length_utf8d add.assoc)

lemma type_spec_less: "type_spec b < 12"
  by (simp add: type_spec_def)

lemma next_spec_le: "t < 16 \<Longrightarrow> next_spec q t \<le> 8"
proof -
  assume "t < 16"
  then have "[0, 1, 2, 3, 5, 8, 7, 1, 1, 1, 4, 6, 1, 1, 1, 1] ! t \<in> set [0, 1, 2, 3, 5, 8, 7, 1, 1, 1, 4, 6, 1, 1, 1, 1::nat]"
    by (intro nth_mem) simp
  then have "[0, 1, 2, 3, 5, 8, 7, 1, 1, 1, 4, 6, 1, 1, 1, 1] ! t \<le> (8::nat)" by auto
  then show ?thesis by (auto simp: next_spec_def)
qed

section \<open>The automaton on natural numbers\<close>

definition nstep :: "nat \<Rightarrow> nat \<Rightarrow> nat \<Rightarrow> nat \<times> nat" where
  "nstep q c b =
     (next_spec q (type_spec b), if q = 0 then b mod 2 ^ (8 - type_spec b) else c * 64 + b mod 64)"

fun nrun :: "nat \<Rightarrow> nat \<Rightarrow> nat list \<Rightarrow> nat \<times> nat" where
  "nrun q c [] = (q, c)"
| "nrun q c (b # bs) = (case nstep q c b of (q', c') \<Rightarrow> if q' = 1 then (1, c') else nrun q' c' bs)"

text \<open>The code point collected so far leaves room for the bytes still to come.\<close>

definition room :: "nat \<Rightarrow> nat \<Rightarrow> bool" where
  "room q c \<longleftrightarrow> q \<in> {0, 2, 3, 4, 5, 6, 7, 8} \<and>
     (q = 2 \<longrightarrow> c < 2 ^ 16) \<and> (q = 3 \<longrightarrow> c < 2 ^ 10) \<and> (q \<in> {4, 5} \<longrightarrow> c < 16) \<and> (q \<in> {6, 7, 8} \<longrightarrow> c < 8)"

lemma room_state: "room q c \<Longrightarrow> q \<le> 8"
  unfolding room_def by (elim conjE insertE) simp_all

lemma room_codep: "room q c \<Longrightarrow> c < 2 ^ 26 \<or> q = 0"
  unfolding room_def by (elim conjE insertE) simp_all

lemma drop_bit_255: "t < 12 \<Longrightarrow> drop_bit t (0xFF :: u32) = mask (8 - t)"
proof -
  assume "t < 12"
  then have "t = 0 \<or> t = 1 \<or> t = 2 \<or> t = 3 \<or> t = 4 \<or> t = 5 \<or> t = 6 \<or> t = 7 \<or> t = 8 \<or> t = 9
      \<or> t = 10 \<or> t = 11" by presburger
  then show ?thesis by (auto simp: mask_eq_exp_minus_1 drop_bit_eq_div)
qed

lemma unat_ucast_u8: "unat (ucast b :: u32) = unat (b :: u8)"
  using unat_bound [of b] by (simp add: unsigned_ucast_eq take_bit_nat_eq_self)

lemma codep_first: "t < 12 \<Longrightarrow> unat (drop_bit t 0xFF AND (ucast b :: u32)) = unat (b :: u8) mod 2 ^ (8 - t)"
proof -
  assume "t < 12"
  then have "drop_bit t 0xFF AND (ucast b :: u32) = take_bit (8 - t) (ucast b)"
    by (simp add: drop_bit_255 take_bit_eq_mask and.commute)
  then have "unat (drop_bit t 0xFF AND (ucast b :: u32)) = take_bit (8 - t) (unat (ucast b :: u32))"
    by (simp add: unsigned_take_bit_eq)
  then show ?thesis by (simp add: unat_ucast_u8 take_bit_eq_mod)
qed

lemma codep_next:
  "unat c < 2 ^ 26 \<Longrightarrow> unat ((ucast b AND 0x3f) OR push_bit 6 c) = unat (c :: u32) * 64 + unat (b :: u8) mod 64"
proof -
  assume c: "unat c < 2 ^ 26"
  have m: "(ucast b :: u32) AND 0x3f = take_bit 6 (ucast b)"
    by (simp add: take_bit_eq_mask mask_eq_exp_minus_1)
  have "(ucast b AND 0x3f) OR push_bit 6 c = take_bit 6 (ucast b) + push_bit 6 c"
    unfolding m by (rule disjunctive_add [symmetric]) (auto simp: bit_simps)
  moreover have "unat (push_bit 6 c) = unat c * 64"
    using c by (simp add: push_bit_eq_mult unat_word_ariths)
  moreover have "unat (take_bit 6 (ucast b :: u32)) = unat b mod 64"
  proof -
    have "unat (take_bit 6 (ucast b :: u32)) = take_bit 6 (unat b)"
      by (simp only: unsigned_take_bit_eq unat_ucast_u8)
    then show ?thesis by (simp add: take_bit_eq_mod)
  qed
  ultimately show ?thesis using c by (simp add: unat_word_ariths)
qed

lemma decode_nstep:
  assumes "decode state codep b = (state', codep')" "room (unat state) (unat codep)"
  shows "nstep (unat state) (unat codep) (unat b) = (unat state', unat codep')"
proof -
  have t: "byte_type b = type_spec (unat b)"
    using unat_bound [of b] by (simp add: byte_type_def utf8d_type)
  let ?t = "type_spec (unat b)"
  have q: "unat state \<le> 8" using assms(2) by (rule room_state)
  have "next_spec (unat state) ?t \<le> 8" using type_spec_less [of "unat b"] by (intro next_spec_le) simp
  then have "unat (next_state state ?t) = next_spec (unat state) ?t"
    using utf8d_next [OF q, of ?t] type_spec_less [of "unat b"] by (simp add: next_state_def unat_of_nat_small)
  moreover have "unat codep < 2 ^ 26 \<or> unat state = 0" using assms(2) by (rule room_codep)
  ultimately show ?thesis
    using assms(1) codep_first [OF type_spec_less, of "unat b" b] codep_next [of codep b]
    by (auto simp: decode_def t nstep_def UTF8_ACCEPT_def Let_def unat_eq_0)
qed

lemma lead_room: "next_spec 0 (type_spec b) \<noteq> 1 \<Longrightarrow> room (next_spec 0 (type_spec b)) (b mod 2 ^ (8 - type_spec b))"
proof -
  have m: "b mod 64 < 2 ^ 16" "b mod 32 < 2 ^ 10" "b mod 16 < 16" "b mod 8 < 8" "b mod 4 < 8"
    using mod_less_divisor [of 64 b] mod_less_divisor [of 32 b] mod_less_divisor [of 4 b]
    by (simp_all del: mod_less_divisor)
  have "type_spec b \<in> {0, 1, 2, 3, 4, 5, 6, 7, 8, 9, 10, 11}" by (simp add: type_spec_def)
  then show "next_spec 0 (type_spec b) \<noteq> 1 \<Longrightarrow> ?thesis"
    unfolding room_def by (elim insertE emptyE) (simp_all add: next_spec_def m [simplified])
qed

lemma next_cases:
  "next_spec q t = q' \<Longrightarrow> q' \<noteq> 1 \<Longrightarrow> q \<noteq> 0 \<Longrightarrow>
   q = 2 \<and> q' = 0 \<or> q \<in> {3, 4, 5} \<and> q' = 2 \<or> q \<in> {6, 7, 8} \<and> q' = 3"
  by (auto simp: next_spec_def split: if_splits)

lemma nstep_room:
  assumes "nstep q c b = (q', c')" "room q c" "q' \<noteq> 1" "b < 256"
  shows "room q' c'"
proof (cases "q = 0")
  case True
  then show ?thesis using assms lead_room by (auto simp: nstep_def)
next
  case False
  have "b mod 64 < 64" by simp
  moreover have "c' = c * 64 + b mod 64" "next_spec q (type_spec b) = q'"
    using assms(1) False by (simp_all add: nstep_def)
  ultimately show ?thesis
    using next_cases [OF _ assms(3) False, of "type_spec b"] assms(2) unfolding room_def
    by (elim disjE conjE insertE) simp_all
qed

lemma unat_neq_reject: "unat (q :: u8) \<noteq> 1 \<longleftrightarrow> q \<noteq> UTF8_REJECT"
  by (simp add: UTF8_REJECT_def word_unat_eq_iff)

lemma decode_all_nrun:
  "room (unat state) (unat codep) \<Longrightarrow> decode_all state codep bs = (state', codep') \<Longrightarrow>
   nrun (unat state) (unat codep) (map unat bs) = (unat state', unat codep')"
proof (induction state codep bs rule: decode_all.induct)
  case (2 state codep b bs)
  obtain q c where d: "decode state codep b = (q, c)" by fastforce
  have n: "nstep (unat state) (unat codep) (unat b) = (unat q, unat c)"
    by (rule decode_nstep) (use d "2.prems" in auto)
  show ?case
  proof (cases "q = UTF8_REJECT")
    case True
    then show ?thesis using "2.prems" d n by (auto simp: UTF8_REJECT_def)
  next
    case False
    then have q: "unat q \<noteq> 1" using unat_neq_reject by blast
    have "room (unat q) (unat c)"
      using nstep_room [OF n] "2.prems" q unat_bound [of b] by simp
    then show ?thesis using "2.IH" [OF d [symmetric]] "2.prems" d n q False by simp
  qed
qed auto

section \<open>Encoded code points are accepted\<close>

lemma nrun_append:
  "nrun q c (xs @ ys) = (case nrun q c xs of (q', c') \<Rightarrow> if q' = 1 \<and> xs \<noteq> [] then (1, c') else nrun q' c' ys)"
  by (induction xs arbitrary: q c) (auto split: prod.split)

lemma lead1: "x < 128 \<Longrightarrow> nstep 0 c x = (0, x)"
  by (simp add: nstep_def type_spec_def next_spec_def)

lemma mod_offset: "k < n \<Longrightarrow> (q * n + k) mod n = (k::nat)"
  by simp

lemma lead2: "2 \<le> k \<Longrightarrow> k < 32 \<Longrightarrow> nstep 0 c (192 + k) = (2, k)"
proof -
  assume k: "2 \<le> k" "k < 32"
  then have "(192 + k) mod 64 = k" using mod_offset [of k 64 3] by simp
  moreover have "type_spec (192 + k) = 2" using k by (simp add: type_spec_def)
  ultimately show ?thesis by (simp add: nstep_def next_spec_def)
qed

lemma lead3: "k < 16 \<Longrightarrow> nstep 0 c (224 + k) = (if k = 0 then 4 else if k = 13 then 5 else 3, k)"
proof -
  assume k: "k < 16"
  then have "(224 + k) mod 32 = k" "k < 16 \<Longrightarrow> (224 + k) mod 16 = k"
    using mod_offset [of k 32 7] mod_offset [of k 16 14] by simp_all
  moreover have "type_spec (224 + k) = (if k = 0 then 10 else if k = 13 then 4 else 3)"
    using k by (simp add: type_spec_def)
  ultimately show ?thesis using k by (simp add: nstep_def next_spec_def)
qed

lemma lead4: "k < 5 \<Longrightarrow> nstep 0 c (240 + k) = (if k = 0 then 6 else if k = 4 then 8 else 7, k)"
proof -
  assume k: "k < 5"
  then have "k < 4 \<Longrightarrow> (240 + k) mod 4 = k" using mod_offset [of k 4 60] by simp
  moreover have "type_spec (240 + k) = (if k = 0 then 11 else if k = 4 then 5 else 6)"
    using k by (simp add: type_spec_def)
  ultimately show ?thesis using k by (simp add: nstep_def next_spec_def)
qed

definition continuation_type :: "nat \<Rightarrow> nat" where
  "continuation_type m = (if m < 16 then 1 else if m < 32 then 9 else 7)"

lemma nstep_continuation:
  "m < 64 \<Longrightarrow> q \<noteq> 0 \<Longrightarrow> nstep q c (128 + m) = (next_spec q (continuation_type m), c * 64 + m)"
proof -
  assume m: "m < 64" "q \<noteq> 0"
  then have "(128 + m) mod 64 = m" using mod_offset [of m 64 2] by simp
  moreover have "type_spec (128 + m) = continuation_type m"
    using m by (simp add: type_spec_def continuation_type_def)
  ultimately show ?thesis using m by (simp add: nstep_def)
qed

lemma next_continuation [simp]:
  "next_spec 2 (continuation_type m) = 0"
  "next_spec 3 (continuation_type m) = 2"
  "next_spec 4 (continuation_type m) = (if 32 \<le> m then 2 else 1)"
  "next_spec 5 (continuation_type m) = (if m < 32 then 2 else 1)"
  "next_spec 6 (continuation_type m) = (if 16 \<le> m then 3 else 1)"
  "next_spec 7 (continuation_type m) = 3"
  "next_spec 8 (continuation_type m) = (if m < 16 then 3 else 1)"
  by (simp_all add: next_spec_def continuation_type_def)

text \<open>The sextets of a code point.\<close>

lemma sextets3:
  fixes x :: nat
  defines "k \<equiv> x div 4096" and "m \<equiv> x div 64 mod 64" and "l \<equiv> x mod 64"
  shows "x = (k * 64 + m) * 64 + l" "m < 64" "l < 64"
proof -
  have "x div 4096 = x div 64 div 64" by (simp add: div_mult2_eq [symmetric])
  then show "x = (k * 64 + m) * 64 + l"
    unfolding k_def m_def l_def by (metis div_mult_mod_eq)
qed (simp_all add: m_def l_def)

lemma sextets4:
  fixes x :: nat
  defines "k \<equiv> x div 262144" and "m \<equiv> x div 4096 mod 64" and "n \<equiv> x div 64 mod 64" and "l \<equiv> x mod 64"
  shows "x = ((k * 64 + m) * 64 + n) * 64 + l" "m < 64" "n < 64" "l < 64"
proof -
  have "x div 262144 = x div 64 div 4096" "x div 4096 = x div 64 div 64"
    by (simp_all add: div_mult2_eq [symmetric])
  then have "x div 64 = (k * 64 + m) * 64 + n"
    using sextets3(1) [of "x div 64"] by (simp add: k_def m_def n_def)
  then show "x = ((k * 64 + m) * 64 + n) * 64 + l"
    unfolding l_def by (metis div_mult_mod_eq)
qed (simp_all add: m_def n_def l_def)

lemma nrun_encode:
  assumes "scalar_value x"
  shows "nrun 0 c (utf8_encode x @ bs) = nrun 0 x bs"
proof -
  consider "x < 0x80" | "0x80 \<le> x" "x < 0x800" | "0x800 \<le> x" "x < 0x10000" | "0x10000 \<le> x"
    by linarith
  then show ?thesis
  proof cases
    case 1
    then show ?thesis by (simp add: utf8_encode_def lead1)
  next
    case 2
    then have "2 \<le> x div 64" "x div 64 < 32" by auto
    then show ?thesis using 2 by (simp add: utf8_encode_def lead2 nstep_continuation)
  next
    case 3
    obtain k m l where x: "x = (k * 64 + m) * 64 + l" "m < 64" "l < 64"
      and e: "k = x div 4096" "m = x div 64 mod 64" "l = x mod 64"
      using sextets3 [of x] by blast
    have k: "k < 16" using x 3 by simp
    have "k = 0 \<Longrightarrow> 32 \<le> m" "k = 13 \<Longrightarrow> m < 32" using 3 x assms by (auto simp: scalar_value_def)
    then have "nrun 0 c ([224 + k, 128 + m, 128 + l] @ bs) = nrun 0 ((k * 64 + m) * 64 + l) bs"
      using k x by (auto simp: lead3 nstep_continuation)
    moreover have "utf8_encode x = [224 + k, 128 + m, 128 + l]" using 3 by (simp add: utf8_encode_def e)
    ultimately show ?thesis using x by simp
  next
    case 4
    obtain k m n l where x: "x = ((k * 64 + m) * 64 + n) * 64 + l" "m < 64" "n < 64" "l < 64"
      and e: "k = x div 262144" "m = x div 4096 mod 64" "n = x div 64 mod 64" "l = x mod 64"
      using sextets4 [of x] by blast
    have "x < 0x110000" using assms 4 by (simp add: scalar_value_def)
    then have k: "k < 5" "k = 4 \<Longrightarrow> m < 16" "k = 0 \<Longrightarrow> 16 \<le> m" using x 4 by auto
    then have "nrun 0 c ([240 + k, 128 + m, 128 + n, 128 + l] @ bs) = nrun 0 (((k * 64 + m) * 64 + n) * 64 + l) bs"
      using x by (auto simp: lead4 nstep_continuation)
    moreover have "utf8_encode x = [240 + k, 128 + m, 128 + n, 128 + l]" using 4 by (simp add: utf8_encode_def e)
    ultimately show ?thesis using x by simp
  qed
qed

lemma nrun_encodes:
  "\<forall>x\<in>set xs. scalar_value x \<Longrightarrow> nrun 0 c (concat (map utf8_encode xs)) = (0, last (c # xs))"
proof (induction xs arbitrary: c)
  case (Cons x xs)
  then show ?case by (simp add: nrun_encode)
qed simp

section \<open>Nothing else is accepted\<close>

lemma lead_inv:
  assumes "fst (nstep 0 c b) \<noteq> 1" "b < 256"
  shows "b < 128 \<or> (\<exists>k\<ge>2. k < 32 \<and> b = 192 + k) \<or> (\<exists>k<16. b = 224 + k) \<or> (\<exists>k<5. b = 240 + k)"
proof (rule ccontr)
  assume "\<not> ?thesis"
  then have "128 \<le> b" and b: "\<not> (194 \<le> b \<and> b < 224)" "\<not> (224 \<le> b \<and> b < 240)" "\<not> (240 \<le> b \<and> b < 245)"
    by (auto simp: not_less dest: spec [of _ "b - 192"] spec [of _ "b - 224"] spec [of _ "b - 240"])
  then have "128 \<le> b \<and> b < 194 \<or> 245 \<le> b" by linarith
  then have "type_spec b \<in> {1, 7, 8, 9}" by (auto simp: type_spec_def)
  with assms(1) show False by (auto simp: nstep_def next_spec_def)
qed

lemma continuation_inv:
  assumes "fst (nstep q c b) \<noteq> 1" "q \<noteq> 0"
  shows "\<exists>m<64. b = 128 + m"
proof -
  have "type_spec b \<in> {1, 7, 9}"
    using assms by (auto simp: nstep_def next_spec_def split: if_splits)
  then have "128 \<le> b" "b < 192" by (auto simp: type_spec_def split: if_splits)
  then show ?thesis by (intro exI [of _ "b - 128"]) simp
qed

lemma sextet_div: "l < 64 \<Longrightarrow> (a * 64 + l) div 64 = (a::nat)"
  by simp

lemma sextet_mod: "l < 64 \<Longrightarrow> (a * 64 + l) mod 64 = (l::nat)"
  by simp

lemma utf8_encode2: "2 \<le> k \<Longrightarrow> k < 32 \<Longrightarrow> l < 64 \<Longrightarrow> utf8_encode (k * 64 + l) = [192 + k, 128 + l]"
  using sextet_div [of l k] sextet_mod [of l k] by (simp add: utf8_encode_def)

lemma utf8_encode3:
  assumes "k < 16" "m < 64" "l < 64" "k = 0 \<Longrightarrow> 32 \<le> m"
  shows "utf8_encode ((k * 64 + m) * 64 + l) = [224 + k, 128 + m, 128 + l]"
proof -
  define x where "x = (k * 64 + m) * 64 + l"
  have d: "x div 64 = k * 64 + m" "x mod 64 = l"
    unfolding x_def by (rule sextet_div, fact) (rule sextet_mod, fact)
  have "x div 4096 = x div 64 div 64" by (simp add: div_mult2_eq [symmetric])
  then have "x div 4096 = k" "x div 64 mod 64 = m"
    unfolding d using sextet_div [OF assms(2)] sextet_mod [OF assms(2)] by simp_all
  moreover have "0x800 \<le> x" "x < 0x10000" unfolding x_def using assms by (cases "k = 0"; simp)+
  ultimately show ?thesis unfolding x_def [symmetric] by (simp add: utf8_encode_def d)
qed

lemma utf8_encode4:
  assumes "k < 5" "m < 64" "n < 64" "l < 64" "k = 0 \<Longrightarrow> 16 \<le> m"
  shows "utf8_encode (((k * 64 + m) * 64 + n) * 64 + l) = [240 + k, 128 + m, 128 + n, 128 + l]"
proof -
  define x where "x = ((k * 64 + m) * 64 + n) * 64 + l"
  have d: "x div 64 = (k * 64 + m) * 64 + n" "x mod 64 = l"
    unfolding x_def by (rule sextet_div, fact) (rule sextet_mod, fact)
  have d': "x div 64 div 64 = k * 64 + m" "x div 64 mod 64 = n"
    unfolding d by (rule sextet_div, fact) (rule sextet_mod, fact)
  have "x div 4096 = x div 64 div 64" "x div 262144 = x div 64 div 64 div 64"
    by (simp_all add: div_mult2_eq [symmetric])
  then have "x div 262144 = k" "x div 4096 mod 64 = m"
    unfolding d' using sextet_div [OF assms(2)] sextet_mod [OF assms(2)] by simp_all
  moreover have "0x10000 \<le> x" unfolding x_def using assms by (cases "k = 0") simp_all
  ultimately show ?thesis unfolding x_def [symmetric] by (simp add: utf8_encode_def d' d(2))
qed

lemma nrun_Cons_accept:
  "fst (nrun q c (b # bs)) = 0 \<Longrightarrow>
   fst (nstep q c b) \<noteq> 1 \<and> nrun q c (b # bs) = nrun (fst (nstep q c b)) (snd (nstep q c b)) bs"
  by (auto split: prod.splits if_splits)

lemma nrun_open: "q \<noteq> 0 \<Longrightarrow> fst (nrun q c bs) = 0 \<Longrightarrow> \<exists>b bs'. bs = b # bs'"
  by (cases bs) auto

declare nrun.simps(2) [simp del]

text \<open>One continuation byte of an accepted run.\<close>

lemma nrun_continuation:
  assumes "fst (nrun q c bs) = 0" "q \<noteq> 0"
  shows "\<exists>m bs'. bs = (128 + m) # bs' \<and> m < 64 \<and> next_spec q (continuation_type m) \<noteq> 1
    \<and> nrun q c bs = nrun (next_spec q (continuation_type m)) (c * 64 + m) bs'"
proof -
  obtain b bs' where bs: "bs = b # bs'" using nrun_open assms by blast
  note s = nrun_Cons_accept [OF assms(1) [unfolded bs]]
  obtain m where m: "m < 64" "b = 128 + m" using continuation_inv s assms(2) by blast
  with s assms(2) show ?thesis by (intro exI [of _ m] exI [of _ bs']) (simp add: bs nstep_continuation)
qed

lemma nrun_first:
  assumes "fst (nrun 0 c bs) = 0" "bs \<noteq> []" "\<forall>b\<in>set bs. b < 256"
  shows "\<exists>x bs'. scalar_value x \<and> bs = utf8_encode x @ bs' \<and> nrun 0 c bs = nrun 0 x bs'"
proof -
  obtain b rest where bs: "bs = b # rest" using assms(2) by (cases bs) auto
  note s = nrun_Cons_accept [OF assms(1) [unfolded bs]]
  have acc: "fst (nrun (fst (nstep 0 c b)) (snd (nstep 0 c b)) rest) = 0" using s assms(1) bs by simp
  have "b < 256" using assms(3) bs by simp
  then consider (one) "b < 128" | (two) k where "2 \<le> k" "k < 32" "b = 192 + k"
    | (three) k where "k < 16" "b = 224 + k" | (four) k where "k < 5" "b = 240 + k"
    using lead_inv s by blast
  then show ?thesis
  proof cases
    case one
    then show ?thesis using s bs
      by (intro exI [of _ b] exI [of _ rest]) (simp add: lead1 scalar_value_def utf8_encode_def)
  next
    case two
    then have "fst (nrun 2 k rest) = 0" using acc by (simp add: lead2)
    from nrun_continuation [OF this] obtain l bs' where
      l: "rest = (128 + l) # bs'" "l < 64" "nrun 2 k rest = nrun 0 (k * 64 + l) bs'" by auto
    with two s bs show ?thesis
      by (intro exI [of _ "k * 64 + l"] exI [of _ bs']) (simp add: lead2 utf8_encode2 scalar_value_def)
  next
    case three
    define q where "q = (if k = 0 then 4 else if k = 13 then 5 else (3::nat))"
    have q: "q \<noteq> 0" by (simp add: q_def)
    have "fst (nrun q k rest) = 0" using acc three by (simp add: lead3 q_def)
    from nrun_continuation [OF this q] obtain m bs1 where
      m: "rest = (128 + m) # bs1" "m < 64" "next_spec q (continuation_type m) \<noteq> 1"
      "nrun q k rest = nrun (next_spec q (continuation_type m)) (k * 64 + m) bs1" by blast
    then have r: "k = 0 \<Longrightarrow> 32 \<le> m" "k = 13 \<Longrightarrow> m < 32" "next_spec q (continuation_type m) = 2"
      by (auto simp: q_def split: if_splits)
    then have "fst (nrun 2 (k * 64 + m) bs1) = 0" using m acc three by (simp add: lead3 q_def)
    from nrun_continuation [OF this] obtain l bs' where
      l: "bs1 = (128 + l) # bs'" "l < 64" "nrun 2 (k * 64 + m) bs1 = nrun 0 ((k * 64 + m) * 64 + l) bs'" by auto
    have "scalar_value ((k * 64 + m) * 64 + l)"
      using r(2) m(2) l(2) three(1) by (cases "k < 13"; cases "k = 13") (auto simp: scalar_value_def)
    with utf8_encode3 [of k m l] three s bs m l r show ?thesis
      by (intro exI [of _ "(k * 64 + m) * 64 + l"] exI [of _ bs']) (simp add: lead3 q_def)
  next
    case four
    define q where "q = (if k = 0 then 6 else if k = 4 then 8 else (7::nat))"
    have q: "q \<noteq> 0" by (simp add: q_def)
    have "fst (nrun q k rest) = 0" using acc four by (simp add: lead4 q_def)
    from nrun_continuation [OF this q] obtain m bs1 where
      m: "rest = (128 + m) # bs1" "m < 64" "next_spec q (continuation_type m) \<noteq> 1"
      "nrun q k rest = nrun (next_spec q (continuation_type m)) (k * 64 + m) bs1" by blast
    then have r: "k = 0 \<Longrightarrow> 16 \<le> m" "k = 4 \<Longrightarrow> m < 16" "next_spec q (continuation_type m) = 3"
      by (auto simp: q_def split: if_splits)
    then have "fst (nrun 3 (k * 64 + m) bs1) = 0" using m acc four by (simp add: lead4 q_def)
    from nrun_continuation [OF this] obtain n bs2 where
      n: "bs1 = (128 + n) # bs2" "n < 64" "nrun 3 (k * 64 + m) bs1 = nrun 2 ((k * 64 + m) * 64 + n) bs2" by auto
    then have "fst (nrun 2 ((k * 64 + m) * 64 + n) bs2) = 0"
      using \<open>fst (nrun 3 (k * 64 + m) bs1) = 0\<close> by simp
    from nrun_continuation [OF this] obtain l bs' where
      l: "bs2 = (128 + l) # bs'" "l < 64"
      "nrun 2 ((k * 64 + m) * 64 + n) bs2 = nrun 0 (((k * 64 + m) * 64 + n) * 64 + l) bs'" by auto
    have "scalar_value (((k * 64 + m) * 64 + n) * 64 + l)"
      using r(1,2) m(2) n(2) l(2) four(1) by (cases "k = 0"; cases "k = 4") (auto simp: scalar_value_def)
    with utf8_encode4 [of k m n l] four s bs m n l r show ?thesis
      by (intro exI [of _ "((k * 64 + m) * 64 + n) * 64 + l"] exI [of _ bs']) (simp add: lead4 q_def)
  qed
qed

lemma utf8_encode_not_Nil: "utf8_encode x \<noteq> []"
  by (simp add: utf8_encode_def)

lemma nrun_sound:
  "fst (nrun 0 c bs) = 0 \<Longrightarrow> \<forall>b\<in>set bs. b < 256 \<Longrightarrow>
   \<exists>xs. (\<forall>x\<in>set xs. scalar_value x) \<and> bs = concat (map utf8_encode xs)"
proof (induction bs arbitrary: c rule: length_induct)
  case (1 bs)
  show ?case
  proof (cases "bs = []")
    case True
    then show ?thesis by (intro exI [of _ "[]"]) simp
  next
    case False
    then obtain x bs' where x: "scalar_value x" "bs = utf8_encode x @ bs'" "nrun 0 c bs = nrun 0 x bs'"
      using nrun_first 1 by blast
    then have "length bs' < length bs" using utf8_encode_not_Nil [of x] by simp
    moreover have "fst (nrun 0 x bs') = 0" "\<forall>b\<in>set bs'. b < 256" using x 1 by auto
    ultimately obtain xs where "\<forall>x\<in>set xs. scalar_value x" "bs' = concat (map utf8_encode xs)"
      using 1 by blast
    with x show ?thesis by (intro exI [of _ "x # xs"]) simp
  qed
qed

section \<open>The decoder accepts exactly UTF-8\<close>

definition valid_utf8 :: "u8 list \<Rightarrow> bool" where
  "valid_utf8 bs \<longleftrightarrow> fst (decode_all UTF8_ACCEPT 0 bs) = UTF8_ACCEPT"

lemma unat_accept: "unat (q :: u8) = 0 \<longleftrightarrow> q = UTF8_ACCEPT"
  by (simp add: UTF8_ACCEPT_def unat_eq_0)

lemma room_start: "room (unat UTF8_ACCEPT) c"
  by (simp add: room_def UTF8_ACCEPT_def)

lemma decode_all_start:
  "decode_all UTF8_ACCEPT c bs = (q, c') \<Longrightarrow> nrun 0 (unat c) (map unat bs) = (unat q, unat c')"
  using decode_all_nrun [OF room_start, of c bs q c'] by (simp add: UTF8_ACCEPT_def)

lemma accepted_encodes:
  "fst (decode_all UTF8_ACCEPT c bs) = UTF8_ACCEPT \<longleftrightarrow>
   (\<exists>xs. (\<forall>x\<in>set xs. scalar_value x) \<and> map unat bs = concat (map utf8_encode xs))"
proof -
  obtain q c' where d: "decode_all UTF8_ACCEPT c bs = (q, c')" by fastforce
  note n = decode_all_start [OF d]
  have b: "\<forall>b\<in>set (map unat bs). b < 256" using unat_bound [where 'a = 8] by auto
  show ?thesis
  proof
    assume "fst (decode_all UTF8_ACCEPT c bs) = UTF8_ACCEPT"
    then have "fst (nrun 0 (unat c) (map unat bs)) = 0" using d n by (simp add: unat_accept)
    then show "\<exists>xs. (\<forall>x\<in>set xs. scalar_value x) \<and> map unat bs = concat (map utf8_encode xs)"
      using nrun_sound b by blast
  next
    assume "\<exists>xs. (\<forall>x\<in>set xs. scalar_value x) \<and> map unat bs = concat (map utf8_encode xs)"
    then obtain xs where "\<forall>x\<in>set xs. scalar_value x" "map unat bs = concat (map utf8_encode xs)" by blast
    then have "unat q = 0" using n nrun_encodes [of xs "unat c"] by simp
    then show "fst (decode_all UTF8_ACCEPT c bs) = UTF8_ACCEPT" using d by (simp add: unat_accept)
  qed
qed

text \<open>C12: The table-driven decoder accepts a byte string exactly when it is the UTF-8 encoding of a
  sequence of Unicode scalar values (RFC 3629: shortest forms only, no surrogates, nothing above
  U+10FFFF), and after such a string its code point register holds the last one.\<close>

theorem utf8_decoder_exact:
  "valid_utf8 bs \<longleftrightarrow> (\<exists>xs. (\<forall>x\<in>set xs. scalar_value x) \<and> map unat bs = concat (map utf8_encode xs))"
  unfolding valid_utf8_def by (rule accepted_encodes)

theorem utf8_decoder_exact_witness: "valid_utf8 [0xE2, 0x82, 0xAC]"
  unfolding utf8_decoder_exact
  by (rule exI [of _ "[0x20AC]"]) (simp add: scalar_value_def utf8_encode_def)

lemma map_unat_of_nat: "\<forall>x\<in>set xs. x < 256 \<Longrightarrow> map unat (map of_nat xs :: u8 list) = xs"
  by (induction xs) (simp_all add: unat_of_nat_small)

lemma utf8_encode_bytes: "scalar_value x \<Longrightarrow> \<forall>b\<in>set (utf8_encode x). b < 256"
proof -
  assume "scalar_value x"
  then have "x < 0x110000" by (auto simp: scalar_value_def)
  then show ?thesis by (auto simp: utf8_encode_def less_mult_imp_div_less)
qed

definition utf8_bytes :: "nat \<Rightarrow> u8 list" where
  "utf8_bytes x = map of_nat (utf8_encode x)"

lemma map_unat_utf8_bytes: "scalar_value x \<Longrightarrow> map unat (utf8_bytes x) = utf8_encode x"
  unfolding utf8_bytes_def by (rule map_unat_of_nat) (rule utf8_encode_bytes)

end
