(* ===== verification/Json_String.thy ===== *)
theory Json_String
  imports Utf8 Decimal
begin

text \<open>
  \<open>serializer::dump_escaped\<close>: the escaping of strings through the 512-byte buffer, with the
  three error handlers and both settings of \<open>ensure_ascii\<close>; a reader of JSON string literals (RFC
  8259) as the reference; and the proofs that the strict writer emits the escape of each code
  point, rejects exactly the invalid strings, never overruns its buffer, and is read back.
\<close>

section \<open>Escapes\<close>

definition byte_of :: "char \<Rightarrow> u8" where
  "byte_of c = of_char c"

definition hex_digit :: "nat \<Rightarrow> char" where
  "hex_digit d = (if d < 10 then char_of (48 + d) else char_of (87 + d))"

text \<open>\<open>"\\u%04x"\<close> of a 16-bit value.\<close>

definition hex4 :: "u16 \<Rightarrow> string" where
  "hex4 w = (let n = unat w in
     CHR 0x5C # CHR ''u'' # map hex_digit [n div 4096 mod 16, n div 256 mod 16, n div 16 mod 16, n mod 16])"

datatype error_handler_t = strict | replace | ignore

text \<open>What the \<open>switch\<close> on the code point writes, and how many bytes of the buffer it may touch
  (\<open>snprintf\<close> also writes a terminating zero).\<close>

definition escape_codepoint :: "bool \<Rightarrow> u32 \<Rightarrow> char \<Rightarrow> string \<times> nat" where
  "escape_codepoint ensure_ascii codepoint byte =
     (if codepoint = 0x08 then ([CHR 0x5C, CHR ''b''], 2)
      else if codepoint = 0x09 then ([CHR 0x5C, CHR ''t''], 2)
      else if codepoint = 0x0A then ([CHR 0x5C, CHR ''n''], 2)
      else if codepoint = 0x0C then ([CHR 0x5C, CHR ''f''], 2)
      else if codepoint = 0x0D then ([CHR 0x5C, CHR ''r''], 2)
      else if codepoint = 0x22 then ([CHR 0x5C, CHR 0x22], 2)
      else if codepoint = 0x5C then ([CHR 0x5C, CHR 0x5C], 2)
      else if codepoint \<le> 0x1F \<or> (ensure_ascii \<and> 0x7F \<le> codepoint)
      then (if codepoint \<le> 0xFFFF then (hex4 (ucast codepoint), 7)
            else (hex4 (ucast (0xD7C0 + drop_bit 10 codepoint)) @
                  hex4 (ucast (0xDC00 + (codepoint AND 0x3FF))), 13))
      else ([byte], 1))"

section \<open>The loop\<close>

record esc_state =
  state :: u8
  codepoint :: u32
  string_buffer :: string
  written :: string
  bytes_after_last_accept :: nat
  undumped_chars :: nat

definition esc_init :: esc_state where
  "esc_init = \<lparr>state = UTF8_ACCEPT, codepoint = 0, string_buffer = [], written = [],
               bytes_after_last_accept = 0, undumped_chars = 0\<rparr>"

definition put :: "string \<Rightarrow> nat \<Rightarrow> esc_state \<Rightarrow> esc_state outcome" where
  "put out touched e =
     (if 512 < length (string_buffer e) + touched then Inl Buffer_Overflow
      else Inr (e\<lparr>string_buffer := string_buffer e @ out\<rparr>))"

definition flush :: "esc_state \<Rightarrow> esc_state" where
  "flush e =
     (let e' = (if 512 - length (string_buffer e) < 13
                then e\<lparr>written := written e @ string_buffer e, string_buffer := []\<rparr> else e)
      in e'\<lparr>bytes_after_last_accept := length (string_buffer e'), undumped_chars := 0\<rparr>)"

definition replacement :: "bool \<Rightarrow> string" where
  "replacement ensure_ascii = (if ensure_ascii then CHR 0x5C # ''ufffd'' else [CHR 0xEF, CHR 0xBF, CHR 0xBD])"

text \<open>The branch for an invalid byte in the two lenient modes: back to the last accepted byte.\<close>

definition recover :: "error_handler_t \<Rightarrow> bool \<Rightarrow> esc_state \<Rightarrow> esc_state outcome" where
  "recover h ensure_ascii e =
     (let e1 = e\<lparr>string_buffer := take (bytes_after_last_accept e) (string_buffer e)\<rparr>
      in mapE (\<lambda>e. e\<lparr>undumped_chars := 0, state := UTF8_ACCEPT\<rparr>)
           (if h = replace
            then mapE flush (put (replacement ensure_ascii) (length (replacement ensure_ascii)) e1)
            else Inr e1))"

text \<open>An invalid byte after pending ones is read again: \<open>--i\<close> undoes the increment of the loop.\<close>

function escape_loop :: "error_handler_t \<Rightarrow> bool \<Rightarrow> string \<Rightarrow> nat \<Rightarrow> esc_state \<Rightarrow> esc_state outcome" where
  "escape_loop h ensure_ascii s i e =
     (if length s \<le> i then Inr e
      else let (st, cp) = decode (state e) (codepoint e) (byte_of (s ! i));
               e' = e\<lparr>state := st, codepoint := cp\<rparr>
           in if st = UTF8_ACCEPT
              then (let (out, touched) = escape_codepoint ensure_ascii cp (s ! i)
                    in case put out touched e' of
                         Inl x \<Rightarrow> Inl x
                       | Inr e2 \<Rightarrow> escape_loop h ensure_ascii s (Suc i) (flush e2))
              else if st = UTF8_REJECT
              then (if h = strict then Inl (Json_Error 316)
                    else case recover h ensure_ascii e' of
                           Inl x \<Rightarrow> Inl x
                         | Inr e2 \<Rightarrow> escape_loop h ensure_ascii s (if 0 < undumped_chars e then i else Suc i) e2)
              else (case (if ensure_ascii then Inr e' else put [s ! i] 1 e') of
                      Inl x \<Rightarrow> Inl x
                    | Inr e2 \<Rightarrow> escape_loop h ensure_ascii s (Suc i) (e2\<lparr>undumped_chars := Suc (undumped_chars e)\<rparr>)))"
  by pat_completeness auto
termination
  by (relation "measure (\<lambda>(h, a, s, i, e). 2 * (length s - i) + (if 0 < undumped_chars e then 1 else 0))")
    (auto simp: flush_def put_def recover_def Let_def mapE_eq_Inr split: if_splits)

declare escape_loop.simps [simp del]

definition escape_end :: "error_handler_t \<Rightarrow> bool \<Rightarrow> esc_state \<Rightarrow> string outcome" where
  "escape_end h ensure_ascii e =
     (if state e = UTF8_ACCEPT then Inr (written e @ string_buffer e)
      else case h of
             strict \<Rightarrow> Inl (Json_Error 316)
           | ignore \<Rightarrow> Inr (written e @ take (bytes_after_last_accept e) (string_buffer e))
           | replace \<Rightarrow> Inr (written e @ take (bytes_after_last_accept e) (string_buffer e) @ replacement ensure_ascii))"

definition dump_escaped :: "error_handler_t \<Rightarrow> bool \<Rightarrow> string \<Rightarrow> string outcome" where
  "dump_escaped h ensure_ascii s = bindE (escape_loop h ensure_ascii s 0 esc_init) (escape_end h ensure_ascii)"

section \<open>The strict writer, without its buffer\<close>

definition json_escape :: "bool \<Rightarrow> nat \<Rightarrow> string" where
  "json_escape ea x =
     (if x = 0x08 then [CHR 0x5C, CHR ''b'']
      else if x = 0x09 then [CHR 0x5C, CHR ''t'']
      else if x = 0x0A then [CHR 0x5C, CHR ''n'']
      else if x = 0x0C then [CHR 0x5C, CHR ''f'']
      else if x = 0x0D then [CHR 0x5C, CHR ''r'']
      else if x = 0x22 then [CHR 0x5C, CHR 0x22]
      else if x = 0x5C then [CHR 0x5C, CHR 0x5C]
      else if x < 0x10000 then hex4 (of_nat x)
      else hex4 (of_nat (0xD800 + (x - 0x10000) div 1024)) @ hex4 (of_nat (0xDC00 + x mod 1024)))"

definition escaped :: "bool \<Rightarrow> nat \<Rightarrow> bool" where
  "escaped ea x \<longleftrightarrow> x < 0x20 \<or> x = 0x22 \<or> x = 0x5C \<or> (ea \<and> 0x7F \<le> x)"

definition utf8_chars :: "nat \<Rightarrow> string" where
  "utf8_chars x = map char_of (utf8_encode x)"

text \<open>What a code point becomes: an escape, or its UTF-8 bytes as they are.\<close>

definition json_char :: "bool \<Rightarrow> nat \<Rightarrow> string" where
  "json_char ea x = (if escaped ea x then json_escape ea x else utf8_chars x)"

fun esc_run :: "bool \<Rightarrow> string \<Rightarrow> nat \<Rightarrow> nat \<Rightarrow> string \<Rightarrow> string outcome" where
  "esc_run ea [] q c out = (if q = 0 then Inr out else Inl (Json_Error 316))"
| "esc_run ea (b # s) q c out =
     (case nstep q c (of_char b) of (q', c') \<Rightarrow>
        if q' = 0 then esc_run ea s 0 c' (out @ (if escaped ea c' then json_escape ea c' else [b]))
        else if q' = 1 then Inl (Json_Error 316)
        else esc_run ea s q' c' (if ea then out else out @ [b]))"

lemma unat_byte_of [simp]: "unat (byte_of b) = of_char b"
proof -
  have "byte_of b = of_nat (of_char b)" by (simp add: byte_of_def of_nat_of_char)
  then show ?thesis by (simp add: unat_of_nat_small)
qed

lemma word_eq_unat: "w = v \<longleftrightarrow> unat w = unat (v :: 'a::len word)"
  by (rule word_unat_eq_iff)

lemma ucast_of_unat: "ucast w = (of_nat (unat w) :: 'a::len word)"
  by simp

lemma high_surrogate:
  assumes "0x10000 \<le> unat (c :: u32)"
  shows "ucast (0xD7C0 + drop_bit 10 c) = (of_nat (0xD800 + (unat c - 0x10000) div 1024) :: u16)"
proof -
  have d: "unat (drop_bit 10 c) = unat c div 1024"
    by (simp add: drop_bit_eq_div unat_div_distrib)
  have "unat c div 1024 < 2 ^ 22" using unat_bound [of c] by (simp add: less_mult_imp_div_less)
  then have "unat (0xD7C0 + drop_bit 10 c) = 0xD7C0 + unat c div 1024"
    using d by (simp add: unat_word_ariths)
  also have "\<dots> = 0xD800 + (unat c - 0x10000) div 1024"
  proof -
    obtain k where "unat c = k + 0x10000" using assms by (metis add.commute le_Suc_ex)
    then have "unat c div 1024 = k div 1024 + 64" "unat c - 0x10000 = k"
      using div_mult_self1 [of 1024 k 64] by simp_all
    then show ?thesis by simp
  qed
  finally show ?thesis by (simp only: ucast_of_unat)
qed

lemma low_surrogate: "ucast (0xDC00 + (c AND 0x3FF)) = (of_nat (0xDC00 + unat (c :: u32) mod 1024) :: u16)"
proof -
  have "c AND 0x3FF = take_bit 10 c" by (simp add: take_bit_eq_mask mask_eq_exp_minus_1)
  then have "unat (c AND 0x3FF) = unat c mod 1024"
    by (simp add: take_bit_eq_mod unat_mod_distrib)
  moreover have "unat c mod 1024 < 1024" by simp
  ultimately have "unat (0xDC00 + (c AND 0x3FF)) = 0xDC00 + unat c mod 1024"
    by (simp add: unat_word_ariths)
  then show ?thesis by (simp only: ucast_of_unat)
qed

lemma escape_codepoint_out:
  fixes c :: u32
  shows "fst (escape_codepoint ea c b) = (if escaped ea (unat c) then json_escape ea (unat c) else [b])"
    and "snd (escape_codepoint ea c b) \<le> (if ea then 13 else 7)"
    and "length (fst (escape_codepoint ea c b)) \<le> snd (escape_codepoint ea c b)"
proof -
  have eqs: "c = 8 \<longleftrightarrow> unat c = 8" "c = 9 \<longleftrightarrow> unat c = 9" "c = 10 \<longleftrightarrow> unat c = 10" "c = 12 \<longleftrightarrow> unat c = 12"
    "c = 13 \<longleftrightarrow> unat c = 13" "c = 34 \<longleftrightarrow> unat c = 34" "c = 92 \<longleftrightarrow> unat c = 92"
    "c \<le> 31 \<longleftrightarrow> unat c < 32" "127 \<le> c \<longleftrightarrow> 127 \<le> unat c" "c \<le> 65535 \<longleftrightarrow> unat c < 65536"
    by (auto simp: word_unat_eq_iff word_le_nat_alt)
  have u: "ucast c = (of_nat (unat c) :: u16)" by simp
  have h: "\<not> unat c < 65536 \<Longrightarrow> ucast (0xD7C0 + drop_bit 10 c) = (of_nat (0xD800 + (unat c - 0x10000) div 1024) :: u16)"
    by (intro high_surrogate) simp
  show "fst (escape_codepoint ea c b) = (if escaped ea (unat c) then json_escape ea (unat c) else [b])"
    unfolding escape_codepoint_def json_escape_def escaped_def eqs u low_surrogate
    using h by simp
  show "snd (escape_codepoint ea c b) \<le> (if ea then 13 else 7)"
    unfolding escape_codepoint_def eqs by (simp; linarith?)
  show "length (fst (escape_codepoint ea c b)) \<le> snd (escape_codepoint ea c b)"
    unfolding escape_codepoint_def by (simp add: hex4_def Let_def)
qed

definition pending_bytes :: "nat \<Rightarrow> nat" where
  "pending_bytes q = (if q = 0 then 0 else if q = 2 then 3 else if q = 3 then 2 else 1)"

definition esc_inv :: "bool \<Rightarrow> esc_state \<Rightarrow> bool" where
  "esc_inv ea e \<longleftrightarrow>
     room (unat (state e)) (unat (codepoint e)) \<and>
     length (string_buffer e) \<le> 499 + (if ea then 0 else pending_bytes (unat (state e)))"

lemma pending_step:
  assumes "nstep q c b = (q', c')" "q' \<noteq> 0" "q' \<noteq> 1" "room q c"
  shows "pending_bytes q + 1 \<le> pending_bytes q'"
proof (cases "q = 0")
  case True
  with assms show ?thesis by (simp add: pending_bytes_def)
next
  case False
  then have "next_spec q (type_spec b) = q'" using assms(1) by (simp add: nstep_def)
  then have "q = 2 \<and> q' = 0 \<or> q \<in> {3, 4, 5} \<and> q' = 2 \<or> q \<in> {6, 7, 8} \<and> q' = 3"
    using assms(3) False by (rule next_cases)
  with assms(2) show ?thesis by (auto simp: pending_bytes_def)
qed

lemma pending_le: "pending_bytes q \<le> 3"
  by (simp add: pending_bytes_def)

lemma flush_out: "written (flush e) @ string_buffer (flush e) = written e @ string_buffer e"
  "state (flush e) = state e" "codepoint (flush e) = codepoint e"
  "length (string_buffer e) \<le> 512 \<Longrightarrow> length (string_buffer (flush e)) \<le> 499"
  by (auto simp: flush_def Let_def)

lemma escape_accept:
  assumes "esc_inv ea e" "decode (state e) (codepoint e) (byte_of b) = (UTF8_ACCEPT, cp)"
  shows "\<exists>e2. put (fst (escape_codepoint ea cp b)) (snd (escape_codepoint ea cp b))
      (e\<lparr>state := UTF8_ACCEPT, codepoint := cp\<rparr>) = Inr e2
    \<and> esc_inv ea (flush e2) \<and> state (flush e2) = UTF8_ACCEPT \<and> codepoint (flush e2) = cp
    \<and> written (flush e2) @ string_buffer (flush e2) =
      (written e @ string_buffer e) @ (if escaped ea (unat cp) then json_escape ea (unat cp) else [b])"
proof -
  let ?o = "escape_codepoint ea cp b" and ?e = "e\<lparr>state := UTF8_ACCEPT, codepoint := cp\<rparr>"
  note o = escape_codepoint_out [of ea cp b]
  have len: "length (string_buffer e) + snd ?o \<le> 512"
    using assms(1) o(2) pending_le [of "unat (state e)"] by (auto simp: esc_inv_def split: if_splits)
  define e2 where "e2 = ?e\<lparr>string_buffer := string_buffer e @ fst ?o\<rparr>"
  have "put (fst ?o) (snd ?o) ?e = Inr e2" using len by (simp add: put_def e2_def)
  moreover have "length (string_buffer (flush e2)) \<le> 499"
    using len o(3) by (intro flush_out(4)) (simp add: e2_def)
  then have "esc_inv ea (flush e2)"
    using room_start by (auto simp: esc_inv_def flush_out(2,3)) (simp_all add: e2_def)
  ultimately show ?thesis
    by (intro exI [of _ e2]) (simp add: flush_out, simp add: e2_def o(1))
qed

lemma escape_strict_run:
  "esc_inv ea e \<Longrightarrow> bindE (escape_loop strict ea s i e) (escape_end strict ea) =
   esc_run ea (drop i s) (unat (state e)) (unat (codepoint e)) (written e @ string_buffer e)"
proof (induction "length s - i" arbitrary: i e)
  case 0
  then have "length s \<le> i" by simp
  then show ?case by (subst escape_loop.simps) (simp add: escape_end_def unat_accept)
next
  case (Suc n)
  then have i: "i < length s" by simp
  let ?b = "s ! i"
  obtain st cp where d: "decode (state e) (codepoint e) (byte_of ?b) = (st, cp)" by fastforce
  have room: "room (unat (state e)) (unat (codepoint e))" using Suc.prems by (simp add: esc_inv_def)
  have n: "nstep (unat (state e)) (unat (codepoint e)) (of_char ?b) = (unat st, unat cp)"
    using decode_nstep [OF d room] by simp
  have s: "drop i s = ?b # drop (Suc i) s" using i by (rule Cons_nth_drop_Suc [symmetric])
  let ?run = "esc_run ea (drop i s) (unat (state e)) (unat (codepoint e)) (written e @ string_buffer e)"
  consider "st = UTF8_ACCEPT" | "st = UTF8_REJECT" "st \<noteq> UTF8_ACCEPT" | "st \<noteq> UTF8_ACCEPT" "st \<noteq> UTF8_REJECT" by blast
  then show ?case
  proof cases
    case 1
    obtain e2 where e2: "put (fst (escape_codepoint ea cp ?b)) (snd (escape_codepoint ea cp ?b))
        (e\<lparr>state := UTF8_ACCEPT, codepoint := cp\<rparr>) = Inr e2" "esc_inv ea (flush e2)"
      "state (flush e2) = UTF8_ACCEPT" "codepoint (flush e2) = cp"
      "written (flush e2) @ string_buffer (flush e2) =
        (written e @ string_buffer e) @ (if escaped ea (unat cp) then json_escape ea (unat cp) else [?b])"
      using escape_accept [OF Suc.prems, of ?b cp] d 1 by blast
    have "escape_loop strict ea s i e = escape_loop strict ea s (Suc i) (flush e2)"
      using i d 1 e2(1) by (subst escape_loop.simps) (simp add: split_beta)
    moreover have "unat UTF8_ACCEPT = 0" by (simp add: UTF8_ACCEPT_def)
    ultimately show ?thesis
      using Suc.hyps(1) [of "Suc i" "flush e2"] Suc.hyps(2) e2(2-) n s 1 by simp
  next
    case 2
    have "escape_loop strict ea s i e = Inl (Json_Error 316)"
      using i d 2 by (subst escape_loop.simps) simp
    moreover have "unat st = 1" "unat st \<noteq> 0" using 2 by (simp_all add: UTF8_REJECT_def)
    ultimately show ?thesis using n s by simp
  next
    case 3
    then have q: "unat st \<noteq> 0" "unat st \<noteq> 1" using unat_accept [of st] unat_neq_reject [of st] by blast+
    have r: "room (unat st) (unat cp)" using nstep_room [OF n room q(2)] by simp
    have p: "pending_bytes (unat (state e)) + 1 \<le> pending_bytes (unat st)"
      using pending_step [OF n q room] .
    have len: "length (string_buffer e) + 1 \<le> 499 + pending_bytes (unat st)" if "\<not> ea"
      using Suc.prems that p by (simp add: esc_inv_def)
    define e2 where "e2 = (if ea then e\<lparr>state := st, codepoint := cp\<rparr>
      else e\<lparr>state := st, codepoint := cp, string_buffer := string_buffer e @ [?b]\<rparr>)\<lparr>undumped_chars := Suc (undumped_chars e)\<rparr>"
    have "escape_loop strict ea s i e = escape_loop strict ea s (Suc i) e2"
      using i d 3 len pending_le [of "unat st"]
      by (subst escape_loop.simps) (auto simp: put_def e2_def)
    moreover have "esc_inv ea e2" using r len Suc.prems by (auto simp: esc_inv_def e2_def)
    ultimately show ?thesis
      using Suc.hyps(1) [of "Suc i" e2] Suc.hyps(2) n s q by (auto simp: e2_def)
  qed
qed

lemma dump_escaped_strict_run: "dump_escaped strict ea s = esc_run ea s 0 0 []"
  using escape_strict_run [of ea esc_init s 0] room_start [of 0]
  by (simp add: dump_escaped_def esc_inv_def esc_init_def UTF8_ACCEPT_def)

lemma of_char_of_small: "x < 256 \<Longrightarrow> of_char (char_of x) = (x :: nat)"
  by (simp add: of_char_of)

lemma esc_run_invalid:
  "fst (nrun q c (map of_char s)) \<noteq> 0 \<Longrightarrow> esc_run ea s q c out = Inl (Json_Error 316)"
  by (induction ea s q c out rule: esc_run.induct) (auto simp: nrun.simps split: prod.splits if_splits)

lemma esc_run_char:
  assumes "scalar_value x"
  shows "esc_run ea (utf8_chars x @ s) 0 c out = esc_run ea s 0 x (out @ json_char ea x)"
proof -
  consider "x < 0x80" | "0x80 \<le> x" "x < 0x800" | "0x800 \<le> x" "x < 0x10000" | "0x10000 \<le> x"
    by linarith
  then show ?thesis
  proof cases
    case 1
    then show ?thesis by (simp add: utf8_chars_def utf8_encode_def json_char_def of_char_of_small lead1)
  next
    case 2
    obtain k l where e: "k = x div 64" "l = x mod 64" by blast
    then have x: "x = k * 64 + l" "l < 64" by simp_all
    then have k: "2 \<le> k" "k < 32" using 2 by simp_all
    have esc: "escaped ea x \<longleftrightarrow> ea" using 2 by (auto simp: escaped_def)
    have u: "utf8_chars x = map char_of [192 + k, 128 + l]"
      using 2 by (simp add: utf8_chars_def utf8_encode_def e)
    show ?thesis using k x esc
      unfolding json_char_def u
      by (auto simp: lead2 nstep_continuation of_char_of_small)
  next
    case 3
    obtain k m l where x: "x = (k * 64 + m) * 64 + l" "m < 64" "l < 64"
      and e: "k = x div 4096" "m = x div 64 mod 64" "l = x mod 64"
      using sextets3 [of x] by blast
    have k: "k < 16" using x 3 by simp
    have km: "k = 0 \<Longrightarrow> 32 \<le> m" "k = 13 \<Longrightarrow> m < 32" using 3 x assms by (auto simp: scalar_value_def)
    have esc: "escaped ea x \<longleftrightarrow> ea" using 3 by (auto simp: escaped_def)
    have u: "utf8_chars x = map char_of [224 + k, 128 + m, 128 + l]"
      using 3 by (simp add: utf8_chars_def utf8_encode_def e)
    show ?thesis using k x km esc
      unfolding json_char_def u
      by (auto simp: lead3 nstep_continuation of_char_of_small)
  next
    case 4
    obtain k m n l where x: "x = ((k * 64 + m) * 64 + n) * 64 + l" "m < 64" "n < 64" "l < 64"
      and e: "k = x div 262144" "m = x div 4096 mod 64" "n = x div 64 mod 64" "l = x mod 64"
      using sextets4 [of x] by blast
    have "x < 0x110000" using assms 4 by (simp add: scalar_value_def)
    then have k: "k < 5" "k = 4 \<Longrightarrow> m < 16" "k = 0 \<Longrightarrow> 16 \<le> m" using x 4 by auto
    have esc: "escaped ea x \<longleftrightarrow> ea" using 4 by (auto simp: escaped_def)
    have u: "utf8_chars x = map char_of [240 + k, 128 + m, 128 + n, 128 + l]"
      using 4 by (simp add: utf8_chars_def utf8_encode_def e)
    show ?thesis using k x esc
      unfolding json_char_def u
      by (auto simp: lead4 nstep_continuation of_char_of_small)
  qed
qed

lemma esc_run_chars:
  "\<forall>x\<in>set xs. scalar_value x \<Longrightarrow>
   esc_run ea (concat (map utf8_chars xs)) 0 c out = Inr (out @ concat (map (json_char ea) xs))"
proof (induction xs arbitrary: c out)
  case (Cons x xs)
  then show ?case by (simp add: esc_run_char)
qed simp

lemma utf8_chars_bytes: "scalar_value x \<Longrightarrow> map of_char (utf8_chars x) = utf8_encode x"
  using utf8_encode_bytes [of x] by (induction "utf8_encode x") (simp_all add: utf8_chars_def map_idI of_char_of_small)

definition text_of :: "nat list \<Rightarrow> string" where
  "text_of xs = concat (map utf8_chars xs)"

lemma utf8_text_cases:
  "(\<exists>xs. (\<forall>x\<in>set xs. scalar_value x) \<and> s = text_of xs) \<longleftrightarrow> fst (nrun 0 c (map of_char s)) = 0"
proof
  assume "\<exists>xs. (\<forall>x\<in>set xs. scalar_value x) \<and> s = text_of xs"
  then obtain xs where xs: "\<forall>x\<in>set xs. scalar_value x" "s = text_of xs" by blast
  have "map of_char s = concat (map utf8_encode xs)"
    using xs(1) unfolding xs(2) text_of_def by (induction xs) (simp_all add: utf8_chars_bytes)
  then show "fst (nrun 0 c (map of_char s)) = 0" using nrun_encodes [OF xs(1), of c] by simp
next
  assume "fst (nrun 0 c (map of_char s)) = 0"
  then obtain xs where xs: "\<forall>x\<in>set xs. scalar_value x" "map of_char s = concat (map utf8_encode xs)"
    using nrun_sound [of c "map of_char s"] by auto
  have "s = map char_of (map of_char s :: nat list)" by (simp add: comp_def)
  also have "\<dots> = text_of xs" unfolding xs(2) text_of_def utf8_chars_def by (simp add: map_concat comp_def)
  finally show "\<exists>xs. (\<forall>x\<in>set xs. scalar_value x) \<and> s = text_of xs" using xs(1) by blast
qed

lemma dump_escaped_text:
  "\<forall>x\<in>set xs. scalar_value x \<Longrightarrow> dump_escaped strict ea (text_of xs) = Inr (concat (map (json_char ea) xs))"
  unfolding dump_escaped_strict_run text_of_def using esc_run_chars by simp

lemma dump_escaped_invalid:
  "\<nexists>xs. (\<forall>x\<in>set xs. scalar_value x) \<and> s = text_of xs \<Longrightarrow> dump_escaped strict ea s = Inl (Json_Error 316)"
  unfolding dump_escaped_strict_run using utf8_text_cases [of s 0] esc_run_invalid by blast

text \<open>C11: In strict mode a string that is UTF-8 text is written as the concatenation of what each of
  its code points becomes (an escape, or its bytes), every other string raises \<open>type_error.316\<close>,
  and in neither case does the writer pass the end of its 512-byte buffer.\<close>

theorem dump_escaped_exact:
  "(\<forall>xs. (\<forall>x\<in>set xs. scalar_value x) \<and> s = text_of xs \<longrightarrow>
      dump_escaped strict ea s = Inr (concat (map (json_char ea) xs))) \<and>
   ((\<nexists>xs. (\<forall>x\<in>set xs. scalar_value x) \<and> s = text_of xs) \<longrightarrow>
      dump_escaped strict ea s = Inl (Json_Error 316))"
  using dump_escaped_text dump_escaped_invalid by blast

theorem dump_escaped_exact_witness:
  "dump_escaped strict False (text_of [0x22, 0x41, 0x20AC]) =
   Inr (concat (map (json_char False) [0x22, 0x41, 0x20AC]))"
  using dump_escaped_exact [of "text_of [0x22, 0x41, 0x20AC]" False] by (auto simp: scalar_value_def)

section \<open>Reading a string literal\<close>

text \<open>
  The reference: RFC 8259's reading of a string after its opening quotation mark, up to the
  closing one, returning the text it denotes (in UTF-8) and the rest of the input.
\<close>

definition hex_val :: "char \<Rightarrow> nat option" where
  "hex_val c =
     (let n = of_char c
      in if 48 \<le> n \<and> n < 58 then Some (n - 48) else if 97 \<le> n \<and> n < 103 then Some (n - 87)
         else if 65 \<le> n \<and> n < 71 then Some (n - 55) else None)"

fun read_hex :: "nat \<Rightarrow> nat \<Rightarrow> string \<Rightarrow> (nat \<times> string) option" where
  "read_hex 0 v s = Some (v, s)"
| "read_hex (Suc k) v [] = None"
| "read_hex (Suc k) v (c # s) = (case hex_val c of None \<Rightarrow> None | Some d \<Rightarrow> read_hex k (v * 16 + d) s)"

definition simple_escape :: "char \<Rightarrow> char option" where
  "simple_escape c =
     map_of [(CHR 0x22, CHR 0x22), (CHR 0x5C, CHR 0x5C), (CHR ''/'', CHR ''/''), (CHR ''b'', CHR 0x08),
             (CHR ''f'', CHR 0x0C), (CHR ''n'', CHR 0x0A), (CHR ''r'', CHR 0x0D), (CHR ''t'', CHR 0x09)] c"

text \<open>After \<open>\\u\<close>: a code unit, or a pair of surrogates.\<close>

definition read_unicode :: "string \<Rightarrow> (nat \<times> string) option" where
  "read_unicode s =
     (case read_hex 4 0 s of
        None \<Rightarrow> None
      | Some (h, r) \<Rightarrow>
          if 0xD800 \<le> h \<and> h < 0xDC00
          then (if take 2 r = [CHR 0x5C, CHR ''u'']
                then (case read_hex 4 0 (drop 2 r) of
                        None \<Rightarrow> None
                      | Some (l, r') \<Rightarrow>
                          if 0xDC00 \<le> l \<and> l < 0xE000
                          then Some (0x10000 + (h - 0xD800) * 1024 + (l - 0xDC00), r') else None)
                else None)
          else if 0xDC00 \<le> h \<and> h < 0xE000 then None else Some (h, r))"

lemma length_read_hex: "read_hex k v s = Some (h, r) \<Longrightarrow> length r \<le> length s"
  by (induction k v s rule: read_hex.induct) (auto split: option.splits)

lemma length_read_unicode: "read_unicode s = Some (h, r) \<Longrightarrow> length r \<le> length s"
proof -
  assume "read_unicode s = Some (h, r)"
  then obtain h1 r1 where 1: "read_hex 4 0 s = Some (h1, r1)"
    and "r = r1 \<or> (\<exists>l. read_hex 4 0 (drop 2 r1) = Some (l, r))"
    by (auto simp: read_unicode_def split: option.splits if_splits)
  then show ?thesis using length_read_hex [OF 1] length_read_hex [of 4 0 "drop 2 r1"] by fastforce
qed

definition prepend :: "string \<Rightarrow> (string \<times> string) option \<Rightarrow> (string \<times> string) option" where
  "prepend t x = map_option (\<lambda>(u, r). (t @ u, r)) x"

function read_string :: "string \<Rightarrow> (string \<times> string) option" where
  "read_string [] = None"
| "read_string (c # s) =
     (if c = CHR 0x22 then Some ([], s)
      else if of_char c < (0x20::nat) then None
      else if c = CHR 0x5C
      then (case s of
              [] \<Rightarrow> None
            | e # s' \<Rightarrow>
                if e = CHR ''u''
                then (case read_unicode s' of None \<Rightarrow> None | Some (x, r) \<Rightarrow> prepend (utf8_chars x) (read_string r))
                else (case simple_escape e of None \<Rightarrow> None | Some d \<Rightarrow> prepend [d] (read_string s')))
      else prepend [c] (read_string s))"
  by pat_completeness auto
termination
  by (relation "measure length") (auto dest: length_read_unicode)

declare read_string.simps(2) [simp del]

lemma hex_val_digit: "d < 16 \<Longrightarrow> hex_val (hex_digit d) = Some d"
  by (simp add: hex_val_def hex_digit_def of_char_of)

definition hex_digits :: "nat \<Rightarrow> string" where
  "hex_digits n = map hex_digit [n div 4096 mod 16, n div 256 mod 16, n div 16 mod 16, n mod 16]"

lemma read_hex_4: "read_hex 4 v s = read_hex (Suc (Suc (Suc (Suc 0)))) v s"
  by (simp add: eval_nat_numeral)

lemma hex_horner:
  "n = a * 16 + d \<Longrightarrow> a = b * 16 + c \<Longrightarrow> b = e * 16 + f \<Longrightarrow> g = e \<Longrightarrow> ((g * 16 + f) * 16 + c) * 16 + d = (n::nat)"
  by simp

lemma hex_value:
  fixes n :: nat
  assumes "n < 65536"
  shows "(((n div 4096 mod 16) * 16 + n div 256 mod 16) * 16 + n div 16 mod 16) * 16 + n mod 16 = n"
proof -
  have "n = n div 16 * 16 + n mod 16" by simp
  moreover have "n div 16 = n div 256 * 16 + n div 16 mod 16"
    using div_mult_mod_eq [of "n div 16" 16] by (simp add: div_mult2_eq [symmetric])
  moreover have "n div 256 = n div 4096 * 16 + n div 256 mod 16"
    using div_mult_mod_eq [of "n div 256" 16] by (simp add: div_mult2_eq [symmetric])
  moreover have "n div 4096 mod 16 = n div 4096" using assms by (simp add: less_mult_imp_div_less)
  ultimately show ?thesis by (rule hex_horner)
qed

lemma read_hex4: "n < 65536 \<Longrightarrow> read_hex 4 0 (hex_digits n @ s) = Some (n, s)"
  using hex_value [of n] by (simp add: hex_digits_def read_hex_4 hex_val_digit)

lemma unat_hex4: "n < 65536 \<Longrightarrow> hex4 (of_nat n) @ s = CHR 0x5C # CHR ''u'' # hex_digits n @ s"
  by (simp add: hex4_def unat_of_nat_small Let_def hex_digits_def)

lemma read_unicode_bmp:
  "x < 0x10000 \<Longrightarrow> scalar_value x \<Longrightarrow> read_unicode (hex_digits x @ s) = Some (x, s)"
  using read_hex4 [of x s] by (auto simp: read_unicode_def scalar_value_def)

lemma read_string_unicode:
  "read_unicode s' = Some (x, r) \<Longrightarrow>
   read_string (CHR 0x5C # CHR ''u'' # s') = prepend (utf8_chars x) (read_string r)"
  by (simp add: read_string.simps(2))

lemma read_string_hex4:
  "x < 0x10000 \<Longrightarrow> scalar_value x \<Longrightarrow> read_string (hex4 (of_nat x) @ s) = prepend (utf8_chars x) (read_string s)"
  by (subst unat_hex4, simp) (rule read_string_unicode, rule read_unicode_bmp)

lemma read_unicode_pair:
  assumes "0x10000 \<le> x" "x < 0x110000"
  shows "\<exists>t. hex4 (of_nat (0xD800 + (x - 0x10000) div 1024)) @ hex4 (of_nat (0xDC00 + x mod 1024)) @ s =
      CHR 0x5C # CHR ''u'' # t \<and> read_unicode t = Some (x, s)"
proof -
  define h where "h = 0xD800 + (x - 0x10000) div 1024"
  define l where "l = 0xDC00 + x mod 1024"
  have h: "0xD800 \<le> h" "h < 0xDC00" using assms by (auto simp: h_def)
  have l: "0xDC00 \<le> l" "l < 0xE000" by (auto simp: l_def)
  obtain k where k: "x = k + 0x10000" using assms(1) by (metis add.commute le_Suc_ex)
  have "x mod 1024 = k mod 1024" using k mod_mult_self1 [of k 64 1024] by simp
  then have x: "0x10000 + (h - 0xD800) * 1024 + (l - 0xDC00) = x"
    using k by (simp add: h_def l_def)
  have "hex4 (of_nat h) @ hex4 (of_nat l) @ s = CHR 0x5C # CHR ''u'' # hex_digits h @ CHR 0x5C # CHR ''u'' # hex_digits l @ s"
    using h l by (simp add: unat_hex4)
  moreover have "read_unicode (hex_digits h @ CHR 0x5C # CHR ''u'' # hex_digits l @ s) = Some (x, s)"
    using h l x read_hex4 [of h "CHR 0x5C # CHR ''u'' # hex_digits l @ s"] read_hex4 [of l s]
    by (simp add: read_unicode_def)
  ultimately show ?thesis unfolding h_def [symmetric] l_def [symmetric] by blast
qed

lemma read_string_raw:
  "\<forall>c\<in>set cs. c \<noteq> CHR 0x22 \<and> c \<noteq> CHR 0x5C \<and> 0x20 \<le> (of_char c :: nat) \<Longrightarrow>
   read_string (cs @ s) = prepend cs (read_string s)"
proof (induction cs)
  case Nil
  then show ?case by (cases "read_string s") (auto simp: prepend_def)
next
  case (Cons c cs)
  then show ?case by (cases "read_string s") (auto simp: read_string.simps(2) prepend_def)
qed

lemma raw_utf8:
  assumes "scalar_value x" "\<not> x < 0x20" "x \<noteq> 0x22" "x \<noteq> 0x5C"
  shows "\<forall>c\<in>set (utf8_chars x). c \<noteq> CHR 0x22 \<and> c \<noteq> CHR 0x5C \<and> 0x20 \<le> (of_char c :: nat)"
proof -
  have "\<forall>b\<in>set (utf8_encode x). b \<noteq> 0x22 \<and> b \<noteq> 0x5C \<and> 0x20 \<le> b \<and> b < 256"
    using utf8_encode_bytes [OF assms(1)] assms(2-) by (auto simp: utf8_encode_def split: if_splits)
  moreover have "char_of b = CHR 0x22 \<longleftrightarrow> b = 0x22" "char_of b = CHR 0x5C \<longleftrightarrow> b = 0x5C" if "b < 256" for b :: nat
    using that by (simp_all add: char_of_eq_iff take_bit_nat_eq_self)
  ultimately show ?thesis by (auto simp: utf8_chars_def of_char_of)
qed

lemma read_json_char:
  assumes "scalar_value x"
  shows "read_string (json_char ea x @ s) = prepend (utf8_chars x) (read_string s)"
proof (cases "escaped ea x")
  case False
  then have "\<not> x < 0x20" "x \<noteq> 0x22" "x \<noteq> 0x5C" by (auto simp: escaped_def)
  then show ?thesis using raw_utf8 [OF assms] read_string_raw [of "utf8_chars x" s] False
    by (simp add: json_char_def)
next
  case True
  consider "x \<in> {0x08, 0x09, 0x0A, 0x0C, 0x0D, 0x22, 0x5C}"
    | "x \<notin> {0x08, 0x09, 0x0A, 0x0C, 0x0D, 0x22, 0x5C}" "x < 0x10000"
    | "x \<notin> {0x08, 0x09, 0x0A, 0x0C, 0x0D, 0x22, 0x5C}" "0x10000 \<le> x"
    by linarith
  then show ?thesis
  proof cases
    case 1
    then show ?thesis using True
      by (elim insertE) (simp_all add: json_char_def json_escape_def read_string.simps(2) simple_escape_def
          utf8_chars_def utf8_encode_def char_of_def bit_Suc_0_iff)
  next
    case 2
    then have "json_escape ea x = hex4 (of_nat x)" by (simp add: json_escape_def)
    then show ?thesis using True read_string_hex4 [OF 2(2) assms] by (simp add: json_char_def)
  next
    case 3
    then have "json_escape ea x = hex4 (of_nat (0xD800 + (x - 0x10000) div 1024)) @ hex4 (of_nat (0xDC00 + x mod 1024))"
      by (simp add: json_escape_def)
    moreover have "x < 0x110000" using assms 3 by (simp add: scalar_value_def)
    ultimately show ?thesis
      using True read_unicode_pair [of x s] 3 read_string_unicode [of _ x s] by (auto simp: json_char_def)
  qed
qed

lemma read_json_chars:
  "\<forall>x\<in>set xs. scalar_value x \<Longrightarrow>
   read_string (concat (map (json_char ea) xs) @ CHR 0x22 # s) = Some (text_of xs, s)"
proof (induction xs)
  case Nil
  then show ?case by (simp add: read_string.simps(2) text_of_def)
next
  case (Cons x xs)
  then show ?case by (simp add: read_json_char prepend_def text_of_def)
qed

lemma dump_escaped_read:
  "dump_escaped strict ea s = Inr t \<Longrightarrow> read_string (t @ CHR 0x22 # r) = Some (s, r)"
proof -
  assume t: "dump_escaped strict ea s = Inr t"
  then obtain xs where "\<forall>x\<in>set xs. scalar_value x" "s = text_of xs"
    using dump_escaped_invalid [of s ea] by force
  with t show ?thesis using dump_escaped_text [of xs ea] read_json_chars [of xs ea r] by simp
qed

text \<open>What the strict writer emits is read back: followed by a closing quotation mark and any
  further text, a JSON reader gets exactly the original string and exactly the further text, so no
  string value can break out of its literal.\<close>

theorem json_string_roundtrip:
  assumes "dump_escaped strict ea s = Inr t"
  shows "read_string (t @ CHR 0x22 # r) = Some (s, r)"
  using assms by (rule dump_escaped_read)

theorem json_string_roundtrip_witness:
  "read_string (concat (map (json_char True) [0x22, 0x1F600]) @ CHR 0x22 # ''}'') = Some (text_of [0x22, 0x1F600], ''}'')"
proof -
  have "\<forall>x\<in>set [0x22, 0x1F600]. scalar_value x" by (simp add: scalar_value_def)
  from json_string_roundtrip [OF dump_escaped_text [OF this]] show ?thesis .
qed

end
