(* ===== verification/Json_Integer.thy ===== *)
theory Json_Integer
  imports Prelude Decimal
begin

text \<open>
  \<open>serializer::dump_integer\<close>: counting the digits by ten thousands, then filling the 64-byte
  number buffer backwards two digits at a time from a table of pairs, on 64-bit words; and the
  proof that the result is the decimal numeral, minus sign and \<open>INT64_MIN\<close> included.
\<close>

section \<open>count\_digits\<close>

function count_digits_loop :: "u64 \<Rightarrow> nat \<Rightarrow> nat" where
  "count_digits_loop x n_digits =
     (if x < 10 then n_digits
      else if x < 100 then n_digits + 1
      else if x < 1000 then n_digits + 2
      else if x < 10000 then n_digits + 3
      else count_digits_loop (x div 10000) (n_digits + 4))"
  by pat_completeness auto
termination
proof (relation "measure (\<lambda>(x, n). unat x)")
  fix x :: u64 and n
  assume "\<not> x < 10000"
  then have "10000 \<le> unat x" by (simp add: word_le_nat_alt not_less)
  then show "((x div 10000, n + 4), (x, n)) \<in> measure (\<lambda>(x, n). unat x)"
    by (simp add: unat_div_distrib)
qed simp

declare count_digits_loop.simps [simp del]

definition count_digits :: "u64 \<Rightarrow> nat" where
  "count_digits x = count_digits_loop x 1"

section \<open>dump\_integer\<close>

text \<open>The table \<open>digits_to_99\<close>: the two digits of each number below 100.\<close>

definition digits_to_99 :: "(char \<times> char) list" where
  "digits_to_99 = map (\<lambda>i. (digit_char (i div 10), digit_char (i mod 10))) [0..<100]"

text \<open>\<open>buffer_ptr\<close> is the position; the last branches write one or two leading digits.\<close>

function fill_digits :: "u64 \<Rightarrow> nat \<Rightarrow> char list \<Rightarrow> char list" where
  "fill_digits abs_value ptr buf =
     (if 100 \<le> abs_value
      then let (hi, lo) = digits_to_99 ! unat (abs_value mod 100)
           in fill_digits (abs_value div 100) (ptr - 2) (buf[ptr - 1 := lo, ptr - 2 := hi])
      else if 10 \<le> abs_value
      then let (hi, lo) = digits_to_99 ! unat abs_value in buf[ptr - 1 := lo, ptr - 2 := hi]
      else buf[ptr - 1 := char_of (48 + unat abs_value)])"
  by pat_completeness auto
termination
proof (relation "measure (\<lambda>(x, p, b). unat x)")
  fix x :: u64 and p b hi lo
  assume "100 \<le> x"
  then have "100 \<le> unat x" by (simp add: word_le_nat_alt)
  then show "((x div 100, p - 2, b[p - 1 := lo, p - 2 := hi]), (x, p, b)) \<in> measure (\<lambda>(x, p, b). unat x)"
    by (simp add: unat_div_distrib)
qed simp

declare fill_digits.simps [simp del]

definition number_buffer :: "char list" where
  "number_buffer = replicate 64 (CHR 0x00)"

text \<open>\<open>remove_sign\<close>: the magnitude of a negative number without overflow at \<open>INT64_MIN\<close>.\<close>

definition remove_sign :: "u64 \<Rightarrow> u64" where
  "remove_sign x = - (x + 1) + 1"

definition dump_abs :: "bool \<Rightarrow> u64 \<Rightarrow> string" where
  "dump_abs negative abs_value =
     (let buf = (if negative then number_buffer[0 := CHR ''-''] else number_buffer);
          n_chars = (if negative then 1 else 0) + count_digits abs_value
      in take n_chars (fill_digits abs_value n_chars buf))"

definition dump_integer_signed :: "u64 \<Rightarrow> string" where
  "dump_integer_signed x =
     (if x = 0 then ''0'' else if sint x < 0 then dump_abs True (remove_sign x) else dump_abs False x)"

definition dump_integer_unsigned :: "u64 \<Rightarrow> string" where
  "dump_integer_unsigned x = (if x = 0 then ''0'' else dump_abs False x)"

section \<open>The numeral\<close>

lemma length_dec_str_div: "10 \<le> n \<Longrightarrow> length (dec_str n) = Suc (length (dec_str (n div 10)))"
  by (simp add: dec_str_large not_less)

lemma count_digits_loop_length: "count_digits_loop x n = n + length (dec_str (unat x)) - 1"
proof (induction x n rule: count_digits_loop.induct)
  case (1 x n)
  have le: "x < 10 \<longleftrightarrow> unat x < 10" "x < 100 \<longleftrightarrow> unat x < 100" "x < 1000 \<longleftrightarrow> unat x < 1000"
    "x < 10000 \<longleftrightarrow> unat x < 10000"
    by (simp_all add: word_less_nat_alt)
  show ?case
  proof (cases "unat x < 10000")
    case True
    then show ?thesis
      by (subst count_digits_loop.simps) (auto simp: le length_dec_str_div not_less div_mult2_eq [symmetric])
  next
    case False
    let ?y = "unat x"
    have "length (dec_str ?y) = 4 + length (dec_str (?y div 10000))"
      using False by (simp add: length_dec_str_div div_mult2_eq [symmetric] not_less)
    moreover have "0 < length (dec_str (?y div 10000))" by simp
    ultimately show ?thesis
      using 1 False by (subst count_digits_loop.simps) (simp add: le unat_div_distrib)
  qed
qed

lemma count_digits_length: "count_digits x = length (dec_str (unat x))"
  by (simp add: count_digits_def count_digits_loop_length)

lemma length_fill_digits: "length (fill_digits x p b) = length b"
  by (induction x p b rule: fill_digits.induct) (subst fill_digits.simps, simp add: split_beta Let_def)

lemma digits_to_99_nth: "i < 100 \<Longrightarrow> digits_to_99 ! i = (digit_char (i div 10), digit_char (i mod 10))"
  by (simp add: digits_to_99_def)

lemma dec_str_two: "10 \<le> n \<Longrightarrow> n < 100 \<Longrightarrow> dec_str n = [digit_char (n div 10), digit_char (n mod 10)]"
  by (simp add: dec_str_large not_less)

lemma dec_str_hundreds:
  "100 \<le> n \<Longrightarrow> dec_str n = dec_str (n div 100) @ [digit_char (n div 10 mod 10), digit_char (n mod 10)]"
  by (simp add: dec_str_large not_less div_mult2_eq [symmetric])

lemma char_of_digit: "n < 10 \<Longrightarrow> char_of (48 + n) = digit_char n"
  by (simp add: digit_char_def)

lemma update_last_two:
  assumes "2 \<le> p" "p \<le> length b"
  shows "b[p - 1 := y, p - 2 := x] = take (p - 2) b @ [x, y] @ drop p b"
proof (rule nth_equalityI)
  fix i assume "i < length (b[p - 1 := y, p - 2 := x])"
  then show "b[p - 1 := y, p - 2 := x] ! i = (take (p - 2) b @ [x, y] @ drop p b) ! i"
    using assms by (auto simp: nth_append nth_Cons' nth_list_update min_def)
qed (use assms in simp)

lemma hundreds_ones: "(y mod 100) mod 10 = (y::nat) mod 10"
  by (simp add: mod_mod_cancel)

lemma hundreds_tens: "(y mod 100) div 10 = (y::nat) div 10 mod 10"
proof -
  have "y mod (10 * 10) = 10 * (y div 10 mod 10) + y mod 10" by (rule mod_mult2_eq)
  then have "(y mod 100) div 10 = (10 * (y div 10 mod 10) + y mod 10) div 10"
    by (simp only: mult_numeral_1 numeral_times_numeral semiring_norm)
  then show ?thesis by simp
qed

lemma fill_digits_step:
  assumes "100 \<le> unat x" "2 \<le> p" "p \<le> length b"
  shows "fill_digits x p b = fill_digits (x div 100) (p - 2)
    (take (p - 2) b @ [digit_char (unat x div 10 mod 10), digit_char (unat x mod 10)] @ drop p b)"
proof -
  have "unat (x mod 100) = unat x mod 100" by (simp add: unat_mod_distrib)
  then have "digits_to_99 ! unat (x mod 100) = (digit_char (unat x div 10 mod 10), digit_char (unat x mod 10))"
    by (simp only: digits_to_99_nth mod_less_divisor zero_less_numeral hundreds_tens hundreds_ones)
  moreover have "100 \<le> x" using assms(1) by (simp add: word_le_nat_alt)
  ultimately show ?thesis
    using update_last_two [OF assms(2,3)] by (subst fill_digits.simps) (simp only: if_True Let_def prod.case)
qed

lemma fill_digits_text:
  "length (dec_str (unat x)) \<le> p \<Longrightarrow> p \<le> length b \<Longrightarrow>
   fill_digits x p b = take (p - length (dec_str (unat x))) b @ dec_str (unat x) @ drop p b"
proof (induction "unat x" arbitrary: x p b rule: less_induct)
  case less
  have le: "100 \<le> x \<longleftrightarrow> 100 \<le> unat x" "10 \<le> x \<longleftrightarrow> 10 \<le> unat x"
    by (simp_all add: word_le_nat_alt)
  consider "100 \<le> unat x" | "10 \<le> unat x" "unat x < 100" | "unat x < 10" by linarith
  then show ?case
  proof cases
    case 1
    define t where "t = [digit_char (unat x div 10 mod 10), digit_char (unat x mod 10)]"
    define b' where "b' = take (p - 2) b @ t @ drop p b"
    have q: "unat (x div 100) = unat x div 100" by (simp add: unat_div_distrib)
    have d: "dec_str (unat x) = dec_str (unat (x div 100)) @ t"
      unfolding q t_def using 1 by (rule dec_str_hundreds)
    then have p: "length (dec_str (unat (x div 100))) \<le> p - 2" "2 \<le> p"
      using less.prems by (auto simp: t_def)
    have b': "length b' = length b" using p less.prems by (simp add: b'_def t_def)
    have "fill_digits x p b = fill_digits (x div 100) (p - 2) b'"
      unfolding b'_def t_def using 1 p less.prems by (intro fill_digits_step)
    also have "\<dots> = take (p - 2 - length (dec_str (unat (x div 100)))) b' @ dec_str (unat (x div 100)) @ drop (p - 2) b'"
      by (rule less.hyps) (use 1 p less.prems b' q in simp_all)
    also have "drop (p - 2) b' = t @ drop p b" using p less.prems by (simp add: b'_def)
    also have "take (p - 2 - length (dec_str (unat (x div 100)))) b' = take (p - length (dec_str (unat x))) b"
    proof -
      have "p - 2 - length (dec_str (unat (x div 100))) = p - length (dec_str (unat x))"
        by (simp add: d t_def)
      then show ?thesis using p less.prems by (simp add: b'_def)
    qed
    finally show ?thesis by (simp add: d)
  next
    case 2
    have "\<not> 100 \<le> unat x" using 2 by simp
    then have "fill_digits x p b = b[p - 1 := digit_char (unat x mod 10), p - 2 := digit_char (unat x div 10)]"
      using 2 by (subst fill_digits.simps) (simp add: le digits_to_99_nth)
    also have "\<dots> = take (p - 2) b @ [digit_char (unat x div 10), digit_char (unat x mod 10)] @ drop p b"
      using less.prems 2 by (intro update_last_two) (simp_all add: dec_str_two)
    finally show ?thesis using 2 by (simp add: dec_str_two numeral_2_eq_2)
  next
    case 3
    have "fill_digits x p b = b[p - 1 := digit_char (unat x)]"
      using 3 by (subst fill_digits.simps) (simp add: le char_of_digit)
    also have "\<dots> = take (p - 1) b @ [digit_char (unat x)] @ drop p b"
      using less.prems 3 by (simp add: upd_conv_take_nth_drop)
    finally show ?thesis using 3 by simp
  qed
qed

lemma dump_abs_text: "dump_abs neg x = (if neg then ''-'' else []) @ dec_str (unat x)"
proof -
  have "length (dec_str (unat x)) \<le> 20"
    using unat_bound [of x] by (intro length_dec_str_le) simp_all
  then show ?thesis
    by (simp add: dump_abs_def count_digits_length fill_digits_text number_buffer_def take_Cons' upd_conv_take_nth_drop)
qed

lemma digit_char_0: "digit_char 0 = CHR ''0''"
  by (simp add: digit_char_def char_of_def bit_iff_odd)

lemma dump_unsigned_text: "dump_integer_unsigned x = dec_str (unat x)"
  by (simp add: dump_integer_unsigned_def dump_abs_text digit_char_0)

lemma unat_of_int_eq: "w = of_int k \<Longrightarrow> 0 \<le> k \<Longrightarrow> k < 2 ^ 64 \<Longrightarrow> unat (w :: u64) = nat k"
proof -
  assume w: "w = of_int k" "0 \<le> k" "k < 2 ^ 64"
  then have "w = of_nat (nat k)" by simp
  moreover have "nat k < 2 ^ LENGTH(64)" using w by simp
  ultimately show ?thesis by (simp only: unat_of_nat_small)
qed

lemma dump_signed_text:
  "dump_integer_signed x = (if sint x < 0 then ''-'' @ dec_str (nat (- sint x)) else dec_str (nat (sint x)))"
proof -
  have "remove_sign x = - x" by (simp add: remove_sign_def)
  moreover have "unat (- x) = nat (- sint x)" if "sint x < 0"
    by (rule unat_of_int_eq) (use that sint_ge [of x] in simp_all)
  moreover have "unat x = nat (sint x)" if "\<not> sint x < 0"
    by (rule unat_of_int_eq) (use that sint_lt [of x] in simp_all)
  ultimately show ?thesis by (simp add: dump_integer_signed_def dump_abs_text digit_char_0)
qed

text \<open>The two-digits-at-a-time writer prints every unsigned and every signed 64-bit value as its
  decimal numeral, \<open>INT64_MIN\<close> included; the digit count is exact, so no byte of the buffer is
  left unwritten or written outside the number.\<close>

theorem dump_integer_decimal:
  "dump_integer_unsigned u = dec_str (unat u)
   \<and> dump_integer_signed x = (if sint x < 0 then ''-'' @ dec_str (nat (- sint x)) else dec_str (nat (sint x)))
   \<and> count_digits u = length (dec_str (unat u))"
  by (simp add: dump_unsigned_text dump_signed_text count_digits_length)

end
