(* ===== verification/Dtoa.thy ===== *)
theory Dtoa
  imports Prelude Decimal Ieee_Double Cstdio
begin

text \<open>
  \<open>detail/conversions/to_chars.hpp\<close>, the Grisu2 conversion of a double to a short decimal:
  64-bit significands with a binary exponent (\<open>diyfp\<close>), the boundaries of a double, the table of
  cached powers of ten, digit generation and rounding, and the layout of the digits. Significands
  are 64-bit words with their wrap-around; \<open>int\<close> exponents stay far inside their range and are
  integers. A loop the code leaves only by its exit test is a partial function, \<open>None\<close> meaning it
  does not return.
\<close>

unbundle bit_operations_syntax

section \<open>diyfp\<close>

record diyfp =
  sf :: u64
  ex :: int

definition diyfp_sub :: "diyfp \<Rightarrow> diyfp \<Rightarrow> diyfp" where
  "diyfp_sub x y = \<lparr>sf = sf x - sf y, ex = ex x\<rparr>"

definition mul_high :: "u64 \<Rightarrow> u64 \<Rightarrow> u64" where
  "mul_high u v =
     (let u_lo = u AND 0xFFFFFFFF; u_hi = drop_bit 32 u;
          v_lo = v AND 0xFFFFFFFF; v_hi = drop_bit 32 v;
          p0 = u_lo * v_lo; p1 = u_lo * v_hi; p2 = u_hi * v_lo; p3 = u_hi * v_hi;
          p0_hi = drop_bit 32 p0;
          p1_lo = p1 AND 0xFFFFFFFF; p1_hi = drop_bit 32 p1;
          p2_lo = p2 AND 0xFFFFFFFF; p2_hi = drop_bit 32 p2;
          Q = p0_hi + p1_lo + p2_lo;
          Q' = Q + push_bit (64 - 32 - 1) 1
      in p3 + p2_hi + p1_hi + drop_bit 32 Q')"

definition diyfp_mul :: "diyfp \<Rightarrow> diyfp \<Rightarrow> diyfp" where
  "diyfp_mul x y = \<lparr>sf = mul_high (sf x) (sf y), ex = ex x + ex y + 64\<rparr>"

text \<open>The loop of \<open>normalize\<close> ends when the top bit is set; for a zero significand it does not end.\<close>

partial_function (option) diyfp_normalize :: "diyfp \<Rightarrow> diyfp option" where
  [code]: "diyfp_normalize x =
     (if drop_bit 63 (sf x) = 0 then diyfp_normalize \<lparr>sf = push_bit 1 (sf x), ex = ex x - 1\<rparr>
      else Some x)"

definition normalize_to :: "diyfp \<Rightarrow> int \<Rightarrow> diyfp" where
  "normalize_to x target_exponent =
     (let delta = nat (ex x - target_exponent) in \<lparr>sf = push_bit delta (sf x), ex = target_exponent\<rparr>)"

section \<open>The boundaries of a double\<close>

text \<open>The fields of the IEEE representation of a positive double: biased exponent and fraction.\<close>

definition double_fields :: "rat \<Rightarrow> u64 \<times> u64" where
  "double_fields r =
     (let e = ulp_exponent r; m = nat \<lfloor>r / 2 powi e\<rfloor>
      in if m < 2 ^ 52 then (0, of_nat m) else (of_int (e + 1075), of_nat (m - 2 ^ 52)))"

record boundaries =
  b_w :: diyfp
  b_minus :: diyfp
  b_plus :: diyfp

definition kBias :: int where
  "kBias = 1075"

definition kHiddenBit :: u64 where
  "kHiddenBit = push_bit 52 1"

definition diyfp_of :: "u64 \<times> u64 \<Rightarrow> diyfp" where
  "diyfp_of EF =
     (case EF of (E, F) \<Rightarrow>
        if E = 0 then \<lparr>sf = F, ex = 1 - kBias\<rparr> else \<lparr>sf = F + kHiddenBit, ex = uint E - kBias\<rparr>)"

definition compute_boundaries :: "rat \<Rightarrow> boundaries option" where
  "compute_boundaries value =
     (let (E, F) = double_fields value;
          v = diyfp_of (E, F);
          lower_boundary_is_closer = (F = 0 \<and> 1 < E);
          m_plus = \<lparr>sf = 2 * sf v + 1, ex = ex v - 1\<rparr>;
          m_minus = (if lower_boundary_is_closer then \<lparr>sf = 4 * sf v - 1, ex = ex v - 2\<rparr>
                     else \<lparr>sf = 2 * sf v - 1, ex = ex v - 1\<rparr>)
      in case diyfp_normalize m_plus of
           None \<Rightarrow> None
         | Some w_plus \<Rightarrow>
             (case diyfp_normalize v of
                None \<Rightarrow> None
              | Some w \<Rightarrow> Some \<lparr>b_w = w, b_minus = normalize_to m_minus (ex w_plus), b_plus = w_plus\<rparr>))"

section \<open>Cached powers of ten\<close>

record cached_power =
  c_f :: u64
  c_e :: int
  c_k :: int

definition kAlpha :: int where
  "kAlpha = - 60"

definition kGamma :: int where
  "kGamma = - 32"

definition kCachedPowersMinDecExp :: int where
  "kCachedPowersMinDecExp = - 300"

definition kCachedPowersDecStep :: int where
  "kCachedPowersDecStep = 8"

definition kCachedPowers :: "(nat \<times> int \<times> int) list" where
  "kCachedPowers = [
    (0xAB70FE17C79AC6CA, - 1060, - 300),
    (0xFF77B1FCBEBCDC4F, - 1034, - 292),
    (0xBE5691EF416BD60C, - 1007, - 284),
    (0x8DD01FAD907FFC3C, - 980, - 276),
    (0xD3515C2831559A83, - 954, - 268),
    (0x9D71AC8FADA6C9B5, - 927, - 260),
    (0xEA9C227723EE8BCB, - 901, - 252),
    (0xAECC49914078536D, - 874, - 244),
    (0x823C12795DB6CE57, - 847, - 236),
    (0xC21094364DFB5637, - 821, - 228),
    (0x9096EA6F3848984F, - 794, - 220),
    (0xD77485CB25823AC7, - 768, - 212),
    (0xA086CFCD97BF97F4, - 741, - 204),
    (0xEF340A98172AACE5, - 715, - 196),
    (0xB23867FB2A35B28E, - 688, - 188),
    (0x84C8D4DFD2C63F3B, - 661, - 180),
    (0xC5DD44271AD3CDBA, - 635, - 172),
    (0x936B9FCEBB25C996, - 608, - 164),
    (0xDBAC6C247D62A584, - 582, - 156),
    (0xA3AB66580D5FDAF6, - 555, - 148),
    (0xF3E2F893DEC3F126, - 529, - 140),
    (0xB5B5ADA8AAFF80B8, - 502, - 132),
    (0x87625F056C7C4A8B, - 475, - 124),
    (0xC9BCFF6034C13053, - 449, - 116),
    (0x964E858C91BA2655, - 422, - 108),
    (0xDFF9772470297EBD, - 396, - 100),
    (0xA6DFBD9FB8E5B88F, - 369, - 92),
    (0xF8A95FCF88747D94, - 343, - 84),
    (0xB94470938FA89BCF, - 316, - 76),
    (0x8A08F0F8BF0F156B, - 289, - 68),
    (0xCDB02555653131B6, - 263, - 60),
    (0x993FE2C6D07B7FAC, - 236, - 52),
    (0xE45C10C42A2B3B06, - 210, - 44),
    (0xAA242499697392D3, - 183, - 36),
    (0xFD87B5F28300CA0E, - 157, - 28),
    (0xBCE5086492111AEB, - 130, - 20),
    (0x8CBCCC096F5088CC, - 103, - 12),
    (0xD1B71758E219652C, - 77, - 4),
    (0x9C40000000000000, - 50, 4),
    (0xE8D4A51000000000, - 24, 12),
    (0xAD78EBC5AC620000, 3, 20),
    (0x813F3978F8940984, 30, 28),
    (0xC097CE7BC90715B3, 56, 36),
    (0x8F7E32CE7BEA5C70, 83, 44),
    (0xD5D238A4ABE98068, 109, 52),
    (0x9F4F2726179A2245, 136, 60),
    (0xED63A231D4C4FB27, 162, 68),
    (0xB0DE65388CC8ADA8, 189, 76),
    (0x83C7088E1AAB65DB, 216, 84),
    (0xC45D1DF942711D9A, 242, 92),
    (0x924D692CA61BE758, 269, 100),
    (0xDA01EE641A708DEA, 295, 108),
    (0xA26DA3999AEF774A, 322, 116),
    (0xF209787BB47D6B85, 348, 124),
    (0xB454E4A179DD1877, 375, 132),
    (0x865B86925B9BC5C2, 402, 140),
    (0xC83553C5C8965D3D, 428, 148),
    (0x952AB45CFA97A0B3, 455, 156),
    (0xDE469FBD99A05FE3, 481, 164),
    (0xA59BC234DB398C25, 508, 172),
    (0xF6C69A72A3989F5C, 534, 180),
    (0xB7DCBF5354E9BECE, 561, 188),
    (0x88FCF317F22241E2, 588, 196),
    (0xCC20CE9BD35C78A5, 614, 204),
    (0x98165AF37B2153DF, 641, 212),
    (0xE2A0B5DC971F303A, 667, 220),
    (0xA8D9D1535CE3B396, 694, 228),
    (0xFB9B7CD9A4A7443C, 720, 236),
    (0xBB764C4CA7A44410, 747, 244),
    (0x8BAB8EEFB6409C1A, 774, 252),
    (0xD01FEF10A657842C, 800, 260),
    (0x9B10A4E5E9913129, 827, 268),
    (0xE7109BFBA19C0C9D, 853, 276),
    (0xAC2820D9623BF429, 880, 284),
    (0x80444B5E7AA7CF85, 907, 292),
    (0xBF21E44003ACDD2D, 933, 300),
    (0x8E679C2F5E44FF8F, 960, 308),
    (0xD433179D9C8CB841, 986, 316),
    (0x9E19DB92B4E31BA9, 1013, 324)]"

text \<open>The division of C: towards zero.\<close>

definition c_div :: "int \<Rightarrow> int \<Rightarrow> int" where
  "c_div a b = (if a < 0 then - ((- a) div b) else a div b)"

definition cached_index :: "int \<Rightarrow> nat" where
  "cached_index e =
     (let f = kAlpha - e - 1;
          k = c_div (f * 78913) (2 ^ 18) + (if 0 < f then 1 else 0)
      in nat (c_div (- kCachedPowersMinDecExp + k + (kCachedPowersDecStep - 1)) kCachedPowersDecStep))"

definition get_cached_power_for_binary_exponent :: "int \<Rightarrow> cached_power" where
  "get_cached_power_for_binary_exponent e =
     (case kCachedPowers ! cached_index e of (f, ce, k) \<Rightarrow> \<lparr>c_f = of_nat f, c_e = ce, c_k = k\<rparr>)"

section \<open>Digit generation\<close>

definition find_largest_pow10 :: "u32 \<Rightarrow> nat \<times> u32" where
  "find_largest_pow10 n =
     (if 1000000000 \<le> n then (10, 1000000000)
      else if 100000000 \<le> n then (9, 100000000)
      else if 10000000 \<le> n then (8, 10000000)
      else if 1000000 \<le> n then (7, 1000000)
      else if 100000 \<le> n then (6, 100000)
      else if 10000 \<le> n then (5, 10000)
      else if 1000 \<le> n then (4, 1000)
      else if 100 \<le> n then (3, 100)
      else if 10 \<le> n then (2, 10)
      else (1, 1))"

definition decrement_last :: "string \<Rightarrow> string" where
  "decrement_last buf = butlast buf @ [char_of (of_char (last buf) - 1 :: nat)]"

partial_function (option) grisu2_round :: "string \<Rightarrow> u64 \<Rightarrow> u64 \<Rightarrow> u64 \<Rightarrow> u64 \<Rightarrow> string option" where
  [code]: "grisu2_round buf dst delta rest ten_k =
     (if rest < dst \<and> ten_k \<le> delta - rest \<and> (rest + ten_k < dst \<or> rest + ten_k - dst < dst - rest)
      then grisu2_round (decrement_last buf) dst delta (rest + ten_k) ten_k
      else Some buf)"

text \<open>The fractional part: \<open>m\<close> counts the digits produced; the state after the loop is returned.\<close>

partial_function (option) digit_gen_fraction ::
  "u64 \<Rightarrow> nat \<Rightarrow> string \<Rightarrow> u64 \<Rightarrow> u64 \<Rightarrow> u64 \<Rightarrow> int \<Rightarrow> (string \<times> u64 \<times> u64 \<times> u64 \<times> int) option" where
  [code]: "digit_gen_fraction one_f sh buffer p2 delta dst m =
     (let p2' = p2 * 10;
          d = drop_bit sh p2';
          r = p2' AND (one_f - 1);
          buffer' = buffer @ [char_of (48 + unat d)];
          delta' = delta * 10;
          dst' = dst * 10
      in if r \<le> delta' then Some (buffer', r, delta', dst', m + 1)
         else digit_gen_fraction one_f sh buffer' r delta' dst' (m + 1))"

text \<open>The integral part: \<open>Inl\<close> a finished number, \<open>Inr\<close> the digits when the fraction is needed.\<close>

fun digit_gen_integral ::
  "nat \<Rightarrow> nat \<Rightarrow> string \<Rightarrow> u32 \<Rightarrow> u32 \<Rightarrow> u64 \<Rightarrow> u64 \<Rightarrow> u64 \<Rightarrow> (string \<times> int) option + string" where
  "digit_gen_integral 0 sh buffer p1 pow10 p2 delta dst = Inr buffer"
| "digit_gen_integral (Suc n) sh buffer p1 pow10 p2 delta dst =
     (let d = p1 div pow10;
          r = p1 mod pow10;
          buffer' = buffer @ [char_of (48 + unat d)];
          rest = push_bit sh (ucast r) + p2
      in if rest \<le> delta
         then Inl (map_option (\<lambda>b. (b, int n)) (grisu2_round buffer' dst delta rest (push_bit sh (ucast pow10))))
         else digit_gen_integral n sh buffer' r (pow10 div 10) p2 delta dst)"

definition grisu2_digit_gen :: "int \<Rightarrow> diyfp \<Rightarrow> diyfp \<Rightarrow> diyfp \<Rightarrow> (string \<times> int) option" where
  "grisu2_digit_gen decimal_exponent M_minus w M_plus =
     (let delta = sf (diyfp_sub M_plus M_minus);
          dst = sf (diyfp_sub M_plus w);
          sh = nat (- ex M_plus);
          one_f = push_bit sh 1;
          p1 = ucast (drop_bit sh (sf M_plus));
          p2 = sf M_plus AND (one_f - 1);
          (k, pow10) = find_largest_pow10 p1
      in case digit_gen_integral k sh [] p1 pow10 p2 delta dst of
           Inl res \<Rightarrow> map_option (\<lambda>(b, n). (b, decimal_exponent + n)) res
         | Inr buffer \<Rightarrow>
             (case digit_gen_fraction one_f sh buffer p2 delta dst 0 of
                None \<Rightarrow> None
              | Some (b, rest, delta', dst', m) \<Rightarrow>
                  map_option (\<lambda>b'. (b', decimal_exponent - m)) (grisu2_round b dst' delta' rest one_f)))"

definition grisu2_diyfp :: "diyfp \<Rightarrow> diyfp \<Rightarrow> diyfp \<Rightarrow> (string \<times> int) option" where
  "grisu2_diyfp m_minus v m_plus =
     (let cached = get_cached_power_for_binary_exponent (ex m_plus);
          c_minus_k = \<lparr>sf = c_f cached, ex = c_e cached\<rparr>;
          w = diyfp_mul v c_minus_k;
          w_minus = diyfp_mul m_minus c_minus_k;
          w_plus = diyfp_mul m_plus c_minus_k;
          M_minus = \<lparr>sf = sf w_minus + 1, ex = ex w_minus\<rparr>;
          M_plus = \<lparr>sf = sf w_plus - 1, ex = ex w_plus\<rparr>
      in grisu2_digit_gen (- c_k cached) M_minus w M_plus)"

definition grisu2 :: "rat \<Rightarrow> (string \<times> int) option" where
  "grisu2 value =
     (case compute_boundaries value of
        None \<Rightarrow> None
      | Some w \<Rightarrow> grisu2_diyfp (b_minus w) (b_w w) (b_plus w))"

section \<open>Layout\<close>

definition append_exponent :: "int \<Rightarrow> string" where
  "append_exponent e =
     (let k = nat \<bar>e\<bar>
      in (if e < 0 then ''-'' else ''+'') @
         (if k < 10 then [CHR ''0'', digit_char k]
          else if k < 100 then [digit_char (k div 10), digit_char (k mod 10)]
          else [digit_char (k div 100), digit_char (k mod 100 div 10), digit_char (k mod 100 mod 10)]))"

definition format_buffer :: "string \<Rightarrow> int \<Rightarrow> int \<Rightarrow> int \<Rightarrow> string" where
  "format_buffer buf decimal_exponent min_exp max_exp =
     (let k = int (length buf); n = k + decimal_exponent
      in if k \<le> n \<and> n \<le> max_exp then buf @ replicate (nat (n - k)) (CHR ''0'') @ ''.0''
         else if 0 < n \<and> n \<le> max_exp then take (nat n) buf @ ''.'' @ drop (nat n) buf
         else if min_exp < n \<and> n \<le> 0 then ''0.'' @ replicate (nat (- n)) (CHR ''0'') @ buf
         else (if k = 1 then buf else [hd buf] @ ''.'' @ tl buf) @ ''e'' @ append_exponent (n - 1))"

text \<open>\<open>to_chars\<close> of a finite double; \<open>None\<close> only if a loop of the conversion did not end.\<close>

definition to_chars :: "double \<Rightarrow> string option" where
  "to_chars d =
     (let sign = (if dsign d then ''-'' else []); value = \<bar>dval d\<bar>
      in if value = 0 then Some (sign @ ''0.0'')
         else map_option (\<lambda>(buf, e). sign @ format_buffer buf e (- 4) 15) (grisu2 value))"

section \<open>The product of significands\<close>

lemma low_half: "unat (u AND 0xFFFFFFFF :: u64) = unat u mod 2 ^ 32"
proof -
  have "u AND 0xFFFFFFFF = take_bit 32 u" by (simp add: take_bit_eq_mask mask_eq_exp_minus_1)
  moreover have "unat (take_bit 32 u) = take_bit 32 (unat u)" by (rule unsigned_take_bit_eq)
  ultimately show ?thesis by (simp only: take_bit_eq_mod)
qed

lemma high_half: "unat (drop_bit 32 u :: u64) = unat u div 2 ^ 32"
  by (simp add: drop_bit_eq_div unat_div_distrib)

lemma unat_u64_mult: "unat a < 2 ^ 32 \<Longrightarrow> unat b < 2 ^ 32 \<Longrightarrow> unat (a * b :: u64) = unat a * unat b"
proof -
  assume ab: "unat a < 2 ^ 32" "unat b < 2 ^ 32"
  have "unat a * unat b < 2 ^ 32 * 2 ^ 32" using ab by (intro mult_strict_mono) simp_all
  then have "unat a * unat b < 2 ^ LENGTH(64)" by simp
  then show ?thesis by (rule unat_times_small)
qed

lemma unat_u64_add: "unat a + unat b < 2 ^ 64 \<Longrightarrow> unat (a + b :: u64) = unat a + unat b"
  by (rule unat_plus_small) simp

lemma unat_u64_add4:
  assumes "unat a + unat b + unat c + unat d < 2 ^ 64"
  shows "unat (a + b + c + d :: u64) = unat a + unat b + unat c + unat d"
proof -
  have "unat (a + b) = unat a + unat b" using assms by (intro unat_u64_add) linarith
  moreover from this have "unat (a + b + c) = unat a + unat b + unat c"
    using assms by (subst unat_u64_add) linarith+
  ultimately show ?thesis using assms by (subst unat_u64_add) linarith+
qed

text \<open>The schoolbook identity behind the code, on natural numbers.\<close>

lemma schoolbook_sum:
  fixes B :: nat
  assumes "p1 = x1 * B + y1" "p2 = x2 * B + y2" "p0 = x0 * B + y0" "x0 + y1 + y2 + r = qh * B + ql"
  shows "p3 * (B * B) + p1 * B + p2 * B + p0 + r * B = (p3 + x1 + x2 + qh) * (B * B) + (ql * B + y0)"
proof -
  have "p3 * (B * B) + p1 * B + p2 * B + p0 + r * B = (p3 + x1 + x2) * (B * B) + (x0 + y1 + y2 + r) * B + y0"
    unfolding assms(1-3) by (simp add: algebra_simps)
  also have "\<dots> = (p3 + x1 + x2 + qh) * (B * B) + (ql * B + y0)"
    unfolding assms(4) by (simp add: algebra_simps)
  finally show ?thesis .
qed

lemma two_digits_less: "x < B \<Longrightarrow> y < B \<Longrightarrow> x * B + y < B * (B :: nat)"
proof -
  assume "x < B" "y < B"
  then have "x * B + y < Suc x * B" by simp
  also have "\<dots> \<le> B * B" using \<open>x < B\<close> by (intro mult_right_mono) simp_all
  finally show ?thesis .
qed

lemma schoolbook:
  fixes a b c d B r :: nat
  assumes "0 < B"
  defines "q \<equiv> b * d div B + a * d mod B + b * c mod B + r"
  shows "((a * B + b) * (c * B + d) + r * B) div (B * B) = a * c + a * d div B + b * c div B + q div B"
proof -
  have "(a * B + b) * (c * B + d) = a * c * (B * B) + a * d * B + b * c * B + b * d"
    by (simp add: algebra_simps)
  moreover have "a * c * (B * B) + a * d * B + b * c * B + b * d + r * B =
      (a * c + a * d div B + b * c div B + q div B) * (B * B) + (q mod B * B + b * d mod B)"
    by (rule schoolbook_sum) (simp_all add: q_def)
  moreover have "q mod B * B + b * d mod B < B * B" using assms(1) by (intro two_digits_less) simp_all
  ultimately show ?thesis using assms(1) by simp
qed

lemma product_less: "a < B \<Longrightarrow> b < B \<Longrightarrow> a * b < B * (B :: nat)"
  by (intro mult_strict_mono) simp_all

lemma mul_high_value: "unat (mul_high u v) = (unat u * unat v + 2 ^ 63) div 2 ^ 64"
proof -
  define B where "B = (2 ^ 32 :: nat)"
  define a b c d where "a = unat u div B" and "b = unat u mod B" and "c = unat v div B" and "d = unat v mod B"
  define q where "q = b * d div B + a * d mod B + b * c mod B + 2 ^ 31"
  have BB: "0 < B" "B * B = 2 ^ 64" "2 ^ 31 * B = 2 ^ 63" by (simp_all add: B_def)
  have u: "unat u = a * B + b" and v: "unat v = c * B + d"
    unfolding a_def b_def c_def d_def by (simp_all only: div_mult_mod_eq)
  have lt: "a < B" "b < B" "c < B" "d < B"
    using unat_bound [of u] unat_bound [of v]
    by (simp_all add: a_def b_def c_def d_def B_def less_mult_imp_div_less)
  define p0 p1 p2 p3 where "p0 = (u AND 0xFFFFFFFF) * (v AND 0xFFFFFFFF)"
    and "p1 = (u AND 0xFFFFFFFF) * drop_bit 32 v" and "p2 = drop_bit 32 u * (v AND 0xFFFFFFFF)"
    and "p3 = drop_bit 32 u * drop_bit 32 v"
  have h: "unat (u AND 0xFFFFFFFF) = b" "unat (v AND 0xFFFFFFFF) = d" "unat (drop_bit 32 u) = a" "unat (drop_bit 32 v) = c"
    unfolding low_half high_half a_def b_def c_def d_def B_def by (rule refl)+
  have p: "unat p0 = b * d" "unat p1 = b * c" "unat p2 = a * d" "unat p3 = a * c"
    unfolding p0_def p1_def p2_def p3_def h [symmetric]
    by (rule unat_u64_mult; use lt h B_def in simp)+
  define Q where "Q = drop_bit 32 p0 + (p1 AND 0xFFFFFFFF) + (p2 AND 0xFFFFFFFF) + push_bit (64 - 32 - 1) 1"
  have s: "unat (drop_bit 32 p0) = b * d div B" "unat (p1 AND 0xFFFFFFFF) = b * c mod B" "unat (p2 AND 0xFFFFFFFF) = a * d mod B"
    "unat (drop_bit 32 p1) = b * c div B" "unat (drop_bit 32 p2) = a * d div B"
    unfolding low_half high_half p B_def by (rule refl)+
  have one: "unat (push_bit (64 - 32 - 1) 1 :: u64) = 2 ^ 31" by (simp add: push_bit_eq_mult)
  have small: "b * d div B < B" "b * c mod B < B" "a * d mod B < B"
    using product_less [OF lt(2,4)] BB(1) by (simp_all add: less_mult_imp_div_less)
  then have "b * d div B + b * c mod B + a * d mod B + 2 ^ 31 < 2 ^ 64" unfolding B_def by simp
  then have Q: "unat Q = q"
    unfolding Q_def q_def using unat_u64_add4 [of "drop_bit 32 p0" "p1 AND 0xFFFFFFFF" "p2 AND 0xFFFFFFFF" "push_bit (64 - 32 - 1) 1"]
    by (simp only: s one)
  have total: "(unat u * unat v + 2 ^ 63) div 2 ^ 64 = a * c + a * d div B + b * c div B + q div B"
    using schoolbook [OF BB(1), of a b c d "2 ^ 31"] unfolding BB u v q_def .
  have "unat u * unat v \<le> (2 ^ 64 - 1) * (2 ^ 64 - 1)"
    using unat_bound [of u] unat_bound [of v] by (intro mult_mono) simp_all
  then have "unat u * unat v + 2 ^ 63 < 2 ^ 64 * 2 ^ 64" by simp
  then have "(unat u * unat v + 2 ^ 63) div 2 ^ 64 < 2 ^ 64" by (rule less_mult_imp_div_less)
  then have "unat p3 + unat (drop_bit 32 p2) + unat (drop_bit 32 p1) + unat (drop_bit 32 Q) < 2 ^ 64"
    unfolding total by (simp only: s p high_half Q B_def [symmetric])
  then have "unat (p3 + drop_bit 32 p2 + drop_bit 32 p1 + drop_bit 32 Q) = a * c + a * d div B + b * c div B + q div B"
    by (simp only: unat_u64_add4 s p high_half [of Q] Q B_def [symmetric])
  moreover have "mul_high u v = p3 + drop_bit 32 p2 + drop_bit 32 p1 + drop_bit 32 Q"
    by (simp only: mul_high_def Let_def p0_def p1_def p2_def p3_def Q_def)
  ultimately show ?thesis by (simp only: total)
qed

text \<open>The product of two significands is the upper half of the exact 128-bit product, rounded
  to nearest with ties up; no intermediate sum overflows.\<close>

theorem diyfp_mul_rounds:
  "unat (sf (diyfp_mul x y)) = (unat (sf x) * unat (sf y) + 2 ^ 63) div 2 ^ 64
   \<and> ex (diyfp_mul x y) = ex x + ex y + 64"
  by (simp only: diyfp_mul_def diyfp.simps mul_high_value simp_thms)

section \<open>The largest power of ten\<close>

lemma find_largest_pow10_value:
  "find_largest_pow10 n = (k, p) \<Longrightarrow>
   0 < k \<and> k \<le> 10 \<and> unat p = 10 ^ (k - 1) \<and> unat n < 10 ^ k \<and> (0 < n \<longrightarrow> unat p \<le> unat n)"
  using unat_bound [of n]
  by (auto simp: find_largest_pow10_def word_le_nat_alt word_less_nat_alt not_le split: if_splits)

section \<open>The text of a number\<close>

lemma scan_sign_digit: "s \<noteq> [] \<Longrightarrow> is_digit (hd s) \<Longrightarrow> scan_sign s = (False, s)"
  using is_digit_not_sign [of "hd s"] by (cases s) auto

lemma skip_ws_digit: "s \<noteq> [] \<Longrightarrow> is_digit (hd s) \<Longrightarrow> skip_ws s = s"
  using is_digit_not_space [of "hd s"] by (cases s) (auto simp: skip_ws_def)

text \<open>What \<open>strtod\<close> makes of digits, an optional point with digits, and an exponent.\<close>

lemma scan_double_number:
  assumes "a \<noteq> []" "\<forall>c\<in>set (a @ b). is_digit c"
    and "tail = (if b = [] then [] else CHR ''.'' # b) @ x"
    and "scan_exponent x = (e, [])" "x = [] \<or> \<not> is_digit (hd x)" "x = [] \<or> hd x \<noteq> CHR ''.''"
  shows "scan_double (a @ tail) = Some (to_double (of_nat (dec_val (a @ b)) * 10 powi (e - int (length b))), [])"
proof -
  have hd: "is_digit (hd (a @ tail))" using assms(1,2) by (cases a) auto
  have "tail = [] \<or> \<not> is_digit (hd tail)" using assms(3,5) by auto
  then have t: "takeWhile is_digit (a @ tail) = a \<and> dropWhile is_digit (a @ tail) = tail"
    using assms(2) by (intro takeWhile_digits_stop) auto
  have f: "scan_fraction tail = (b, x)"
  proof (cases "b = []")
    case True
    then show ?thesis using assms(3,6) by (auto simp: scan_fraction_def)
  next
    case False
    have "takeWhile is_digit (b @ x) = b \<and> dropWhile is_digit (b @ x) = x"
      using assms(2,5) by (intro takeWhile_digits_stop) auto
    then show ?thesis using False assms(3) by (simp add: scan_fraction_def)
  qed
  show ?thesis
    using t f assms(1,4) hd
    by (simp add: scan_double_def skip_ws_digit scan_sign_digit signed_double_def)
qed

lemma scan_exponent_append:
  assumes "\<bar>e\<bar> < 1000"
  shows "scan_exponent (''e'' @ append_exponent e) = (e, [])"
proof -
  define k where "k = nat \<bar>e\<bar>"
  define ds where "ds = (if k < 10 then [CHR ''0'', digit_char k]
      else if k < 100 then [digit_char (k div 10), digit_char (k mod 10)]
      else [digit_char (k div 100), digit_char (k mod 100 div 10), digit_char (k mod 100 mod 10)])"
  have k: "k < 1000" using assms by (simp add: k_def)
  have k10: "k div 100 < 10" "k mod 100 div 10 < 10" "k < 100 \<Longrightarrow> k div 10 < 10"
    using k by (simp_all add: less_mult_imp_div_less)
  have zero: "is_digit (CHR ''0'')" "digit_val (CHR ''0'') = 0" by (simp_all add: is_digit_def digit_val_def)
  have digits: "\<forall>c\<in>set ds. is_digit c" "ds \<noteq> []" using k10 zero by (auto simp: ds_def)
  have "(k mod 100) div 10 * 10 + (k mod 100) mod 10 = k mod 100" "k div 100 * 100 + k mod 100 = k" by simp_all
  then have v: "dec_val ds = k" using k10 zero by (simp add: ds_def dec_val_Cons)
  have tw: "takeWhile is_digit ds = ds" "dropWhile is_digit ds = []"
    using digits(1) takeWhile_all [of ds is_digit] by (simp_all only: dropWhile_eq_Nil_conv)
  have "append_exponent e = (if e < 0 then ''-'' else ''+'') @ ds"
    by (simp add: append_exponent_def Let_def ds_def k_def)
  then show ?thesis
    using v digits(2) by (cases "e < 0") (simp_all add: scan_exponent_def Let_def tw k_def)
qed

lemma dec_val_zeros: "dec_val (replicate m (CHR ''0'')) = 0"
  by (induction m) (simp_all add: dec_val_Cons digit_val_def)

lemma zero_digit: "is_digit (CHR ''0'')"
  by (simp add: is_digit_def)

lemma powi_nat_sum: "0 \<le> e \<Longrightarrow> (10::rat) powi e = 10 ^ nat e"
  by (simp add: power_int_def)

lemma format_buffer_number:
  assumes "ds \<noteq> []" "\<forall>c\<in>set ds. is_digit c" "\<bar>int (length ds) + e - 1\<bar> < 1000"
  shows "scan_double (format_buffer ds e min_exp max_exp) = Some (to_double (of_nat (dec_val ds) * 10 powi e), [])"
proof -
  define k where "k = int (length ds)"
  define n where "n = k + e"
  have k: "0 < k" using assms(1) by (simp add: k_def)
  note num = scan_double_number
  consider (int) "k \<le> n" "n \<le> max_exp" | (point) "n < k" "0 < n" "n \<le> max_exp"
    | (zeros) "n \<le> 0" "min_exp < n" | (exp) "\<not> (0 < n \<and> n \<le> max_exp)" "\<not> (n \<le> 0 \<and> min_exp < n)"
    using k by linarith
  then show ?thesis
  proof cases
    case int
    define m where "m = nat (n - k)"
    have e: "0 \<le> e" "m = nat e" using int by (simp_all add: m_def n_def)
    let ?a = "ds @ replicate m (CHR ''0'')"
    have v: "dec_val (?a @ ''0'') = dec_val ds * 10 ^ m * 10"
      by (simp add: dec_val_append dec_val_zeros dec_val_Cons digit_val_def del: append_assoc)
    have "format_buffer ds e min_exp max_exp = ?a @ ''.0''"
      using int by (simp add: format_buffer_def k_def n_def m_def Let_def)
    moreover have "scan_double (?a @ ''.0'') = Some (to_double (of_nat (dec_val (?a @ ''0'')) * 10 powi (0 - int (length ''0''))), [])"
      using assms(1,2) zero_digit by (intro num) (auto simp: scan_exponent_def)
    moreover have "of_nat (dec_val (?a @ ''0'')) * 10 powi (0 - int (length ''0'')) = (of_nat (dec_val ds) * 10 powi e :: rat)"
      unfolding v using e by (simp add: powi_nat_sum power_int_minus)
    ultimately show ?thesis by (simp only:)
  next
    case point
    let ?a = "take (nat n) ds" and ?b = "drop (nat n) ds"
    have "format_buffer ds e min_exp max_exp = ?a @ (CHR ''.'' # ?b)"
      using point by (simp add: format_buffer_def k_def n_def Let_def)
    moreover have "?a \<noteq> []" "?b \<noteq> []" using point assms(1) by (auto simp: k_def)
    then have "scan_double (?a @ (CHR ''.'' # ?b)) = Some (to_double (of_nat (dec_val (?a @ ?b)) * 10 powi (0 - int (length ?b))), [])"
      using assms(2) by (intro num) (auto simp: scan_exponent_def dest: in_set_takeD in_set_dropD)
    moreover have "0 - int (length ?b) = e" using point by (simp add: k_def n_def)
    ultimately show ?thesis by (simp only: append_take_drop_id)
  next
    case zeros
    let ?b = "replicate (nat (- n)) (CHR ''0'') @ ds"
    have "format_buffer ds e min_exp max_exp = ''0'' @ (CHR ''.'' # ?b)"
      unfolding format_buffer_def Let_def k_def [symmetric] n_def [symmetric]
      using zeros k by simp
    moreover have "scan_double (''0'' @ (CHR ''.'' # ?b)) = Some (to_double (of_nat (dec_val (''0'' @ ?b)) * 10 powi (0 - int (length ?b))), [])"
      using assms(1,2) zero_digit by (intro num) (auto simp: scan_exponent_def)
    moreover have "0 - int (length ?b) = e" using zeros by (simp add: k_def n_def)
    moreover have "dec_val (''0'' @ ?b) = dec_val ds"
      by (simp add: dec_val_append dec_val_zeros dec_val_Cons digit_val_def)
    ultimately show ?thesis by (simp only:)
  next
    case exp
    let ?x = "''e'' @ append_exponent (n - 1)"
    have x: "scan_exponent ?x = (n - 1, [])"
      using assms(3) by (intro scan_exponent_append) (simp add: n_def k_def)
    have f: "format_buffer ds e min_exp max_exp = (if k = 1 then ds else [hd ds] @ ''.'' @ tl ds) @ ?x"
      unfolding format_buffer_def Let_def k_def [symmetric] n_def [symmetric]
      using exp k by auto
    have s: "[hd ds] @ tl ds = ds" using assms(1) by simp
    have hx: "\<not> is_digit (CHR ''e'')" by (simp add: is_digit_def)
    show ?thesis
    proof (cases "k = 1")
      case True
      have "scan_double (ds @ ?x) = Some (to_double (of_nat (dec_val (ds @ [])) * 10 powi (n - 1 - int (length ([] :: string)))), [])"
        using assms(1,2) x hx by (intro num) auto
      then show ?thesis using f True by (simp add: n_def)
    next
      case False
      then have tl: "tl ds \<noteq> []" using assms(1) by (cases ds) (auto simp: k_def)
      have "scan_double ([hd ds] @ (CHR ''.'' # tl ds) @ ?x) =
          Some (to_double (of_nat (dec_val ([hd ds] @ tl ds)) * 10 powi (n - 1 - int (length (tl ds)))), [])"
        using assms(1,2) x hx tl by (intro num) (auto dest: list.set_sel(2))
      moreover have "n - 1 - int (length (tl ds)) = e" using assms(1) by (cases ds) (simp_all add: n_def k_def)
      ultimately show ?thesis using f False unfolding s by (simp only: if_False append.simps append_assoc)
    qed
  qed
qed

text \<open>The layout of \<open>to_chars\<close>, in each of its four forms (\<open>digits000.0\<close>, \<open>dig.its\<close>,
  \<open>0.00digits\<close> and \<open>d.igitsE\<close> with a signed exponent of two or three digits), is read by
  \<open>strtod\<close> to its end as the digits times the power of ten it was given.\<close>

theorem format_buffer_value:
  assumes "ds \<noteq> []" "\<forall>c\<in>set ds. is_digit c" "\<bar>int (length ds) + e - 1\<bar> < 1000"
  shows "scan_double (format_buffer ds e min_exp max_exp) = Some (to_double (of_nat (dec_val ds) * 10 powi e), [])"
  using assms by (rule format_buffer_number)

theorem format_buffer_value_witness:
  "scan_double (format_buffer ''25'' (- 3) (- 4) 15) = Some (to_double (25 * 10 powi (- 3)), [])"
  using format_buffer_value [of "''25''" "- 3" "- 4" 15]
  by (simp add: is_digit_def dec_val_Cons digit_val_def)

end
