(* ===== verification/Cached_Powers.thy ===== *)
theory Cached_Powers
  imports Dtoa
begin

text \<open>
  The table of cached powers in \<open>to_chars.hpp\<close>, checked entry by entry, and the choice of an entry by
  \<open>get_cached_power_for_binary_exponent\<close>: for every exponent a double can have the index is in the
  table, the product lands in the window between \<open>kAlpha\<close> and \<open>kGamma\<close>, and the entry is at most half a
  unit away from its power of ten.
\<close>

section \<open>The table\<close>

text \<open>
  Each entry is checked against the power of ten it stands for: it has 64 bits, is at most half a unit
  away, and serves binary exponents for which the product lands in the window. The checks run through
  the table by powers of five, upwards from \<open>10\<^sup>4\<close> and downwards from \<open>10\<^sup>-\<^sup>4\<close>.
\<close>

definition good_entry :: "nat \<times> int \<times> int \<Rightarrow> bool" where
  "good_entry x = (case x of (f, e, k) \<Rightarrow>
     2 ^ 63 \<le> f \<and> f < 2 ^ 64 \<and> 78913 * (34 + e) < (k - 8) * 2 ^ 18 \<and> k * 2 ^ 18 < 78913 * (64 + e))"

fun upward :: "int \<Rightarrow> int \<Rightarrow> (nat \<times> int \<times> int) list \<Rightarrow> bool" where
  "upward n five [] \<longleftrightarrow> True"
| "upward n five ((f, e, k) # es) \<longleftrightarrow>
     k = n \<and>
     (if e \<le> k then \<bar>2 * int f - 2 * five * 2 ^ nat (k - e)\<bar> \<le> 1
      else \<bar>2 * int f * 2 ^ nat (e - k) - 2 * five\<bar> \<le> 2 ^ nat (e - k)) \<and>
     upward (n + 8) (five * 390625) es"

fun downward :: "int \<Rightarrow> int \<Rightarrow> (nat \<times> int \<times> int) list \<Rightarrow> bool" where
  "downward n five [] \<longleftrightarrow> True"
| "downward n five ((f, e, k) # es) \<longleftrightarrow>
     k = - n \<and> n \<le> - e \<and> \<bar>2 * int f * five - 2 * 2 ^ nat (- e - n)\<bar> \<le> five \<and>
     downward (n + 8) (five * 390625) es"

lemma good_entries: "list_all good_entry kCachedPowers"
  by (simp add: kCachedPowers_def good_entry_def)

lemma upward_entries: "upward 4 625 (drop 38 kCachedPowers)"
  by (simp add: kCachedPowers_def)

lemma downward_entries: "downward 4 625 (rev (take 38 kCachedPowers))"
  by (simp add: kCachedPowers_def)

lemma table_exponents: "map (\<lambda>(f, e, k). k) kCachedPowers = map (\<lambda>i. 8 * int i - 300) [0..<79]"
  by (simp add: kCachedPowers_def upt_rec)

section \<open>What the checks mean\<close>

definition near_power :: "nat \<Rightarrow> int \<Rightarrow> int \<Rightarrow> bool" where
  "near_power f e k \<longleftrightarrow> \<bar>of_nat f * 2 powi e - (10 :: rat) powi k\<bar> * 2 \<le> 2 powi e"

lemma scale_abs: "\<bar>a\<bar> \<le> b \<Longrightarrow> 0 < c \<Longrightarrow> \<bar>a * c\<bar> \<le> b * (c :: rat)"
  by (simp add: abs_mult)

lemma ten_powi: "(10 :: rat) powi k = 5 powi k * 2 powi k"
  by (simp flip: power_int_mult_distrib)

lemma powi_nat: "0 \<le> k \<Longrightarrow> (b :: rat) powi k = b ^ nat k"
  by (simp add: power_int_def)

lemma of_int_abs_le: "\<bar>a :: int\<bar> \<le> b \<Longrightarrow> \<bar>of_int a :: rat\<bar> \<le> of_int b"
  by (metis of_int_abs of_int_le_iff)

lemma upward_near:
  "upward n five es \<Longrightarrow> 0 \<le> n \<Longrightarrow> five = 5 ^ nat n \<Longrightarrow> (f, e, k) \<in> set es \<Longrightarrow> near_power f e k"
proof (induction n five es rule: upward.induct)
  case (2 n five f' e' k' es)
  show ?case
  proof (cases "(f, e, k) = (f', e', k')")
    case False
    have "nat (n + 8) = nat n + 8" using "2.prems"(2) by simp
    then have "five * 390625 = 5 ^ nat (n + 8)" using "2.prems"(3) by (simp add: power_add)
    with False 2 show ?thesis by auto
  next
    case True
    then have k: "k = n" using "2.prems"(1) by simp
    have ten: "(10 :: rat) powi k = of_int five * 2 powi k"
      using "2.prems"(2,3) k by (simp add: ten_powi powi_nat)
    show ?thesis
    proof (cases "e \<le> k")
      case le: True
      then have "\<bar>2 * int f - 2 * five * 2 ^ nat (k - e)\<bar> \<le> 1" using "2.prems"(1) True by (auto split: if_splits)
      from scale_abs [OF of_int_abs_le [OF this], of "2 powi e"]
      have "\<bar>(2 * of_nat f - 2 * of_int five * 2 ^ nat (k - e)) * 2 powi e\<bar> \<le> (2 :: rat) powi e" by simp
      moreover have "(2 :: rat) ^ nat (k - e) * 2 powi e = 2 powi k"
        using le by (simp flip: powi_nat power_int_add)
      then have "(2 * of_nat f - 2 * of_int five * 2 ^ nat (k - e)) * 2 powi e = (of_nat f * 2 powi e - 10 powi k) * (2 :: rat)"
        unfolding ten by (simp add: algebra_simps)
      ultimately have "\<bar>(of_nat f * 2 powi e - 10 powi k) * (2 :: rat)\<bar> \<le> 2 powi e" by (simp only:)
      then show ?thesis by (simp only: near_power_def abs_mult abs_numeral)
    next
      case gt: False
      then have "\<bar>2 * int f * 2 ^ nat (e - k) - 2 * five\<bar> \<le> 2 ^ nat (e - k)" using "2.prems"(1) True by (auto split: if_splits)
      from scale_abs [OF of_int_abs_le [OF this], of "2 powi k"]
      have "\<bar>(2 * of_nat f * 2 ^ nat (e - k) - 2 * of_int five) * 2 powi k\<bar> \<le> 2 ^ nat (e - k) * (2 :: rat) powi k" by simp
      moreover have pe: "(2 :: rat) ^ nat (e - k) * 2 powi k = 2 powi e"
        using gt by (simp flip: powi_nat power_int_add)
      then have "(2 * of_nat f * 2 ^ nat (e - k) - 2 * of_int five) * 2 powi k = (of_nat f * 2 powi e - 10 powi k) * (2 :: rat)"
        unfolding ten by (simp add: algebra_simps)
      ultimately have "\<bar>(of_nat f * 2 powi e - 10 powi k) * (2 :: rat)\<bar> \<le> 2 powi e" by (simp only: pe)
      then show ?thesis by (simp only: near_power_def abs_mult abs_numeral)
    qed
  qed
qed simp

lemma downward_near:
  "downward n five es \<Longrightarrow> 0 \<le> n \<Longrightarrow> five = 5 ^ nat n \<Longrightarrow> (f, e, k) \<in> set es \<Longrightarrow> near_power f e k"
proof (induction n five es rule: downward.induct)
  case (2 n five f' e' k' es)
  show ?case
  proof (cases "(f, e, k) = (f', e', k')")
    case False
    have "nat (n + 8) = nat n + 8" using "2.prems"(2) by simp
    then have "five * 390625 = 5 ^ nat (n + 8)" using "2.prems"(3) by (simp add: power_add)
    with False 2 show ?thesis by auto
  next
    case True
    then have k: "k = - n" "n \<le> - e" using "2.prems"(1) by simp_all
    have pos: "0 < (of_int five :: rat)" using "2.prems"(3) by simp
    have ten: "(10 :: rat) powi k * of_int five = 2 powi k"
      using "2.prems"(2,3) k by (simp add: ten_powi powi_nat power_int_minus field_simps)
    have "\<bar>2 * int f * five - 2 * 2 ^ nat (- e - n)\<bar> \<le> five" using "2.prems"(1) True by simp
    from scale_abs [OF of_int_abs_le [OF this], of "2 powi e"]
    have "\<bar>(2 * of_nat f * of_int five - 2 * 2 ^ nat (- e - n)) * 2 powi e\<bar> \<le> of_int five * (2 :: rat) powi e" by simp
    moreover have "(2 :: rat) ^ nat (- e - n) * 2 powi e = 2 powi k"
      using k by (simp flip: powi_nat power_int_add)
    then have "(2 * of_nat f * of_int five - 2 * 2 ^ nat (- e - n)) * 2 powi e =
        ((of_nat f * 2 powi e - 10 powi k) * 2) * (of_int five :: rat)"
      unfolding ten [symmetric] by (simp add: algebra_simps)
    ultimately have "\<bar>((of_nat f * 2 powi e - 10 powi k) * 2) * (of_int five :: rat)\<bar> \<le> of_int five * 2 powi e"
      by (simp only:)
    then have "\<bar>(of_nat f * 2 powi e - 10 powi k) * (2 :: rat)\<bar> * of_int five \<le> 2 powi e * of_int five"
      using pos by (simp only: abs_mult abs_of_pos mult.commute)
    then have "\<bar>(of_nat f * 2 powi e - 10 powi k) * (2 :: rat)\<bar> \<le> 2 powi e"
      using pos by (rule mult_right_le_imp_le)
    then show ?thesis by (simp only: near_power_def abs_mult abs_numeral)
  qed
qed simp

lemma table_near: "(f, e, k) \<in> set kCachedPowers \<Longrightarrow> near_power f e k"
proof -
  assume "(f, e, k) \<in> set kCachedPowers"
  then have "(f, e, k) \<in> set (take 38 kCachedPowers) \<or> (f, e, k) \<in> set (drop 38 kCachedPowers)"
    by (metis UnE append_take_drop_id set_append)
  then show ?thesis
    using upward_near [OF upward_entries] downward_near [OF downward_entries] by fastforce
qed

section \<open>The chosen entry\<close>

lemma cached_index_bounds:
  assumes "- 1137 \<le> q" "q \<le> 960"
  shows "cached_index q < 79"
    and "(8 * int (cached_index q) - 308) * 2 ^ 18 \<le> 78913 * (- 61 - q)"
    and "78913 * (- 61 - q) \<le> (8 * int (cached_index q) - 300) * 2 ^ 18"
proof -
  define g where "g = - 61 - q"
  define k where "k = (if g < 0 then - ((- (g * 78913)) div 262144) else g * 78913 div 262144) + (if 0 < g then 1 else 0)"
  have g: "- 1021 \<le> g" "g \<le> 1076" using assms by (simp_all add: g_def)
  have k: "(k - 1) * 262144 \<le> g * 78913" "g * 78913 \<le> k * 262144"
    unfolding k_def by (auto split: if_splits)
  have "g * 78913 < 324 * 262144" using g(2) by simp
  then have "(k - 1) * 262144 < 324 * 262144" using k(1) by (rule le_less_trans [rotated])
  then have "k \<le> 324" by simp
  moreover have "- 307 \<le> k" using k(2) g(1) by linarith
  ultimately have range: "- 307 \<le> k" "k \<le> 324" by simp_all
  have "kAlpha - q - 1 = g" by (simp add: kAlpha_def g_def)
  moreover have "c_div (g * 78913) (2 ^ 18) + (if 0 < g then 1 else 0) = k"
    unfolding c_div_def k_def by (cases "g < 0") (simp_all add: mult_less_0_iff)
  moreover have "c_div (- kCachedPowersMinDecExp + k + (kCachedPowersDecStep - 1)) kCachedPowersDecStep = (307 + k) div 8"
  proof -
    have "- kCachedPowersMinDecExp + k + (kCachedPowersDecStep - 1) = 307 + k"
      by (simp add: kCachedPowersMinDecExp_def kCachedPowersDecStep_def)
    with range(1) show ?thesis by (simp add: c_div_def kCachedPowersDecStep_def)
  qed
  ultimately have i: "cached_index q = nat ((307 + k) div 8)" by (simp only: cached_index_def Let_def)
  have pos: "0 \<le> (307 + k) div 8" using range(1) by simp
  then have ii: "int (cached_index q) = (307 + k) div 8" using i by simp
  have d: "8 * int (cached_index q) \<le> 307 + k" "307 + k \<le> 8 * int (cached_index q) + 7" unfolding ii by linarith+
  show "cached_index q < 79" using d range(2) by linarith
  show "(8 * int (cached_index q) - 308) * 2 ^ 18 \<le> 78913 * (- 61 - q)" using d k by (simp flip: g_def)
  show "78913 * (- 61 - q) \<le> (8 * int (cached_index q) - 300) * 2 ^ 18" using d k by (simp flip: g_def)
qed

lemma cached_power_exact:
  assumes "- 1137 \<le> q" "q \<le> 960"
  defines "c \<equiv> get_cached_power_for_binary_exponent q"
  shows "2 ^ 63 \<le> unat (c_f c)" and "- 124 \<le> c_e c + q" and "c_e c + q \<le> - 96"
    and "near_power (unat (c_f c)) (c_e c) (c_k c)" and "- 300 \<le> c_k c" and "c_k c \<le> 324"
proof -
  define i where "i = cached_index q"
  obtain f e k where entry: "kCachedPowers ! i = (f, e, k)" by (metis surj_pair)
  have len: "length kCachedPowers = 79" using arg_cong [OF table_exponents, of length] by simp
  have "i < 79" unfolding i_def using assms(1,2) by (rule cached_index_bounds)
  then have mem: "(f, e, k) \<in> set kCachedPowers" using entry len by (metis nth_mem)
  have k: "k = 8 * int i - 300"
    using arg_cong [OF table_exponents, of "\<lambda>xs. xs ! i"] \<open>i < 79\<close> entry len by simp
  have good: "good_entry (f, e, k)" using good_entries mem by (simp add: list_all_iff)
  have c: "c = \<lparr>c_f = of_nat f, c_e = e, c_k = k\<rparr>"
    by (simp add: c_def get_cached_power_for_binary_exponent_def entry flip: i_def)
  have f: "unat (c_f c) = f" using good c by (simp add: good_entry_def unsigned_of_nat take_bit_nat_eq_self)
  show "2 ^ 63 \<le> unat (c_f c)" unfolding f using good by (simp add: good_entry_def)
  show "- 124 \<le> c_e c + q" "c_e c + q \<le> - 96"
    using good k cached_index_bounds(2,3) [OF assms(1,2), folded i_def] unfolding c by (simp_all add: good_entry_def)
  show "near_power (unat (c_f c)) (c_e c) (c_k c)" unfolding f using table_near [OF mem] by (simp add: c)
  show "- 300 \<le> c_k c" "c_k c \<le> 324" using k \<open>i < 79\<close> by (simp_all add: c)
qed

end
