(* ===== verification/Grisu_Exact.thy ===== *)
theory Grisu_Exact
  imports Cached_Powers
begin

text \<open>
  The conversion of \<open>Dtoa\<close> is total and exact: for every finite double \<open>to_chars\<close> returns, within the
  64 bytes of the serializer's buffer, a text that \<open>strtod\<close> reads as that double. The proof follows the
  code: normalised boundaries, the cached power within half a unit of the power of ten it stands for,
  rounded products, and digits whose value stays between the boundaries; every number strictly
  between the boundaries is rounded to the double.
\<close>

section \<open>The numbers that are rounded to a double\<close>

lemma round_even_near:
  assumes "\<bar>x - of_int n\<bar> < 1 / 2"
  shows "round_even x = n"
proof (cases "x < of_int n")
  case True
  then have "\<lfloor>x\<rfloor> = n - 1" using assms by (intro floor_unique) (simp_all add: abs_less_iff)
  then show ?thesis using assms True by (simp add: round_even_def Let_def abs_less_iff)
next
  case False
  then have "\<lfloor>x\<rfloor> = n" using assms by (intro floor_unique) (simp_all add: abs_less_iff)
  then show ?thesis using assms False by (simp add: round_even_def Let_def abs_less_iff)
qed

lemma powi_less_imp: "(2 :: rat) powi a < 2 powi b \<Longrightarrow> a < b"
  using power_int_increasing [of b a "2 :: rat"] by (cases "a < b") auto

lemma binary_exponent_unique:
  assumes "2 powi b \<le> x" "x < 2 powi (b + 1)"
  shows "binary_exponent x = b"
proof -
  have "0 < x" using assms(1) by (meson less_le_trans zero_less_numeral zero_less_power_int)
  note bounds = binary_exponent_bounds [OF this]
  have "2 powi binary_exponent x < (2::rat) powi (b + 1)" "2 powi b < (2::rat) powi (binary_exponent x + 1)"
    using bounds assms by linarith+
  then have "binary_exponent x < b + 1" "b < binary_exponent x + 1"
    by (blast intro: powi_less_imp)+
  then show ?thesis by simp
qed

lemma binary_exponent_less:
  assumes "0 < x" "x < 2 powi b"
  shows "binary_exponent x < b"
proof -
  have "2 powi binary_exponent x < (2::rat) powi b" using binary_exponent_bounds(1) [OF assms(1)] assms(2) by linarith
  then show ?thesis by (rule powi_less_imp)
qed

text \<open>The interval of a double \<open>f * 2 powi ev\<close>: half a unit above, half or a quarter of one below.\<close>

definition lower_gap :: "nat \<Rightarrow> int \<Rightarrow> rat" where
  "lower_gap f ev = (if f = 2 ^ 52 \<and> - 1074 < ev then 1 / 4 else 1 / 2)"

lemma round_rat_near:
  assumes f: "0 < f" "f < 2 ^ 53" and ev: "- 1074 \<le> ev" "f < 2 ^ 52 \<longrightarrow> ev = - 1074"
    and up: "x < (of_nat f + 1 / 2) * 2 powi ev" and low: "(of_nat f - lower_gap f ev) * 2 powi ev < x"
  shows "round_rat x = of_nat f * 2 powi ev"
proof -
  let ?u = "(2::rat) powi ev"
  have u: "0 < ?u" by simp
  have "0 < of_nat f - lower_gap f ev" using f(1) by (simp add: lower_gap_def)
  then have pos: "0 < x" using low u by (meson less_trans mult_pos_pos)
  have shift: "2 powi (ev + k) = ?u * 2 powi k" for k by (simp add: power_int_add)
  have at_ev: "round_rat x = of_nat f * ?u" if ulp: "ulp_exponent x = ev"
  proof -
    have "lower_gap f ev \<le> 1 / 2" by (simp add: lower_gap_def)
    then have "(of_nat f - 1 / 2) * ?u \<le> (of_nat f - lower_gap f ev) * ?u" using u by (intro mult_right_mono) auto
    with low have "(of_nat f - 1 / 2) * ?u < x" by linarith
    then have "of_nat f - 1 / 2 < x / ?u" using u by (simp add: pos_less_divide_eq)
    moreover have "x / ?u < of_nat f + 1 / 2" using up u by (simp add: pos_divide_less_eq)
    ultimately have "\<bar>x / ?u - of_nat f\<bar> < 1 / 2" unfolding abs_less_iff by linarith
    then have "\<bar>x / ?u - of_int (int f)\<bar> < 1 / 2" by simp
    then have "round_even (x / ?u) = int f" by (rule round_even_near)
    then show ?thesis using ulp by (simp add: round_rat_eq)
  qed
  show ?thesis
  proof (cases "2 powi (ev + 52) \<le> x")
    case True
    have "of_nat f + 1 / 2 < (2::rat) ^ 53"
    proof -
      have "of_nat (Suc f) \<le> (of_nat (2 ^ 53) :: rat)" using f(2) by (simp only: of_nat_le_iff Suc_le_eq)
      then show ?thesis by simp
    qed
    then have "(of_nat f + 1 / 2) * ?u < 2 ^ 53 * ?u" using u by (rule mult_strict_right_mono)
    also have "\<dots> = 2 powi (ev + 52 + 1)" using shift [of 53] by (simp add: ac_simps)
    finally have "binary_exponent x = ev + 52" using True up by (intro binary_exponent_unique) linarith+
    then show ?thesis using pos ev(1) by (intro at_ev) (simp add: ulp_exponent_def)
  next
    case False
    then have below: "binary_exponent x < ev + 52" using pos by (intro binary_exponent_less) simp_all
    show ?thesis
    proof (cases "ev = - 1074")
      case True
      then show ?thesis using below pos by (intro at_ev) (simp add: ulp_exponent_def)
    next
      case False
      with ev have f52: "2 ^ 52 \<le> f" "- 1074 < ev" by auto
      have "f = 2 ^ 52"
      proof (rule ccontr)
        assume "f \<noteq> 2 ^ 52"
        with f52 have "of_nat (2 ^ 52 + 1) \<le> (of_nat f :: rat)" by (simp only: of_nat_le_iff)
        moreover have "lower_gap f ev = 1 / 2" using \<open>f \<noteq> 2 ^ 52\<close> by (simp add: lower_gap_def)
        ultimately have "2 ^ 52 * ?u \<le> (of_nat f - lower_gap f ev) * ?u" using u by (intro mult_right_mono) auto
        also note low
        finally have "2 powi (ev + 52) < x" using shift [of 52] by (simp add: mult.commute)
        with \<open>\<not> 2 powi (ev + 52) \<le> x\<close> show False by simp
      qed
      then have fr: "(of_nat f :: rat) = 2 ^ 52" and gap: "lower_gap f ev = 1 / 4" using f52 by (simp_all add: lower_gap_def)
      have "2 powi (ev + 51) = 2 ^ 51 * ?u" using shift [of 51] by simp
      also have "\<dots> \<le> (of_nat f - lower_gap f ev) * ?u" unfolding fr gap using u by (intro mult_right_mono) simp_all
      also note low
      finally have "binary_exponent x = ev + 51" using \<open>\<not> 2 powi (ev + 52) \<le> x\<close> by (intro binary_exponent_unique) (simp_all add: ac_simps not_le)
      then have ulp: "ulp_exponent x = ev - 1" using pos f52 by (simp add: ulp_exponent_def)
      have half: "2 powi (ev - 1) = ?u / 2" by (simp add: power_int_diff)
      have "x < 2 ^ 52 * ?u" using \<open>\<not> 2 powi (ev + 52) \<le> x\<close> shift [of 52] by simp
      then have "\<bar>x / (?u / 2) - of_int (2 ^ 53)\<bar> < 1 / 2"
        using low u unfolding fr gap by (simp add: abs_less_iff field_simps)
      then have "round_even (x / (?u / 2)) = 2 ^ 53" by (rule round_even_near)
      then show ?thesis unfolding round_rat_eq ulp half fr by simp
    qed
  qed
qed

section \<open>Normalised boundaries\<close>

lemma unat_push_bit: "unat f * 2 ^ s < 2 ^ 64 \<Longrightarrow> unat (push_bit s f :: u64) = unat f * 2 ^ s"
  by (simp add: unsigned_push_bit_eq take_bit_eq_mod) (simp add: push_bit_eq_mult)

lemma top_bit: "drop_bit 63 f = 0 \<longleftrightarrow> unat (f :: u64) < 2 ^ 63"
proof -
  have "drop_bit 63 f = 0 \<longleftrightarrow> unat (drop_bit 63 f) = 0" by (metis unat_eq_zero)
  also have "unat (drop_bit 63 f) = unat f div 2 ^ 63" by (simp add: drop_bit_eq_div unat_div_distrib)
  finally show ?thesis by (simp add: div_eq_0_iff)
qed

lemma normalize_by:
  "2 ^ 63 \<le> unat (sf x) * 2 ^ s \<Longrightarrow> unat (sf x) * 2 ^ s < 2 ^ 64 \<Longrightarrow>
   diyfp_normalize x = Some \<lparr>sf = push_bit s (sf x), ex = ex x - int s\<rparr>"
proof (induction s arbitrary: x)
  case 0
  then show ?case by (subst diyfp_normalize.simps) (simp add: top_bit)
next
  case (Suc s)
  then have small: "unat (sf x) * 2 < 2 ^ 64"
    by (metis (no_types, lifting) le_less_trans mult.assoc mult.right_neutral mult_le_mono2 one_le_numeral one_le_power power_Suc)
  show ?case
  proof (cases "unat (sf x) < 2 ^ 63")
    case True
    have "unat (push_bit 1 (sf x)) = unat (sf x) * 2" using unat_push_bit [of "sf x" 1] small by simp
    with Suc have "diyfp_normalize \<lparr>sf = push_bit 1 (sf x), ex = ex x - 1\<rparr> =
        Some \<lparr>sf = push_bit s (push_bit 1 (sf x)), ex = ex x - 1 - int s\<rparr>"
      by (subst Suc.IH) (simp_all add: mult.assoc)
    with True show ?thesis by (subst diyfp_normalize.simps) (simp add: top_bit algebra_simps)
  next
    case False
    have "2 ^ 64 \<le> unat (sf x) * 2 ^ Suc s" using False mult_le_mono [of "2 ^ 63" "unat (sf x)" "2" "2 ^ Suc s"] by simp
    with Suc.prems(2) show ?thesis by simp
  qed
qed

text \<open>A positive double as significand and exponent.\<close>

lemma double_parts:
  assumes "representable r" "0 < r" "r < 2 ^ 1024"
  obtains f where "r = of_nat f * 2 powi ulp_exponent r" "0 < f" "f < 2 ^ 53"
    "- 1074 \<le> ulp_exponent r" "ulp_exponent r \<le> 971" "f < 2 ^ 52 \<longrightarrow> ulp_exponent r = - 1074"
proof -
  define u b where "u = ulp_exponent r" and "b = binary_exponent r"
  have ub: "u = max (b - 52) (- 1074)" using assms(2) by (simp add: u_def b_def ulp_exponent_def)
  obtain m where m: "r = of_int m * 2 powi u" using representable_multiple [OF assms(1)] unfolding u_def by blast
  have "0 < (2 :: rat) powi u" by simp
  with m assms(2) have "0 < m" by (metis of_int_0_less_iff zero_less_mult_pos2)
  note b = binary_exponent_bounds [OF assms(2), folded b_def]
  have "of_int m * 2 powi u < (2 :: rat) powi (b + 1)" using b(2) m by simp
  also have "\<dots> \<le> 2 powi (u + 53)" using ub by (intro power_int_increasing) auto
  also have "\<dots> = of_int (2 ^ 53) * 2 powi u" by (simp add: power_int_add)
  finally have m53: "m < 2 ^ 53" by (simp only: mult_less_cancel_right_pos zero_less_power_int zero_less_numeral of_int_less_iff)
  have "(2 :: rat) powi b < 2 powi 1024" using b(1) assms(3) by (simp add: power_int_def [of _ 1024])
  then have "b < 1024" by (rule powi_less_imp)
  have "u = - 1074" if "m < 2 ^ 52"
  proof (rule ccontr)
    assume "u \<noteq> - 1074"
    then have "b = u + 52" using ub by auto
    then have "of_int (2 ^ 52) * 2 powi u \<le> of_int m * (2 :: rat) powi u" using b(1) m by (simp add: power_int_add)
    then have "2 ^ 52 \<le> m" by (simp only: mult_le_cancel_right_pos zero_less_power_int zero_less_numeral of_int_le_iff)
    with that show False by simp
  qed
  then have small: "nat m < 2 ^ 52 \<longrightarrow> ulp_exponent r = - 1074" using \<open>0 < m\<close> by (simp add: u_def nat_less_iff)
  have "r = of_nat (nat m) * 2 powi ulp_exponent r" using m \<open>0 < m\<close> by (simp add: u_def)
  moreover have "0 < nat m" "nat m < 2 ^ 53" using m53 \<open>0 < m\<close> by (simp_all add: nat_less_iff)
  moreover have "- 1074 \<le> ulp_exponent r" "ulp_exponent r \<le> 971" using ub \<open>b < 1024\<close> by (simp_all add: u_def)
  ultimately show thesis using small by (rule that)
qed

lemma bit_length_range:
  assumes "3 \<le> g" "g < 2 ^ 54"
  obtains s where "10 \<le> s" "s \<le> 62" "2 ^ 63 \<le> g * 2 ^ s" "g * 2 ^ s < 2 ^ 64" "2 ^ 63 \<le> (g div 2 * 2) * (2 :: nat) ^ s"
proof -
  define l where "l = bit_len g"
  have l: "2 ^ (l - 1) \<le> g" "g < 2 ^ l" "0 < l" using bit_len_bounds [of g] assms(1) by (simp_all add: l_def)
  have "(2 :: nat) ^ (l - 1) < 2 ^ 54" using l(1) assms(2) by linarith
  then have "l - 1 < 54" by (rule power_less_imp_less_exp [rotated]) simp
  have "2 ^ 1 < (2 :: nat) ^ l" using l(2) assms(1) by simp
  then have "1 < l" by (rule power_less_imp_less_exp [rotated]) simp
  define s where "s = 64 - l"
  have s: "l + s = 64" "l - 1 + s = 63" using \<open>l - 1 < 54\<close> \<open>1 < l\<close> by (simp_all add: s_def)
  have "2 ^ 63 \<le> g * 2 ^ s" "g * 2 ^ s < 2 ^ 64"
    using mult_le_mono1 [OF l(1), of "2 ^ s"] mult_strict_right_mono [OF l(2), of "2 ^ s"] s
    by (simp_all flip: power_add)
  moreover have "2 ^ (l - 1) \<le> g div 2 * 2"
  proof -
    have "(2 :: nat) ^ (l - 1) = 2 * 2 ^ (l - 2)" using \<open>1 < l\<close> by (simp flip: power_Suc)
    moreover from this l(1) have "2 ^ (l - 2) \<le> g div 2" by (simp add: less_eq_div_iff_mult_less_eq)
    ultimately show ?thesis by simp
  qed
  then have "2 ^ 63 \<le> (g div 2 * 2) * 2 ^ s" using mult_le_mono1 [of "2 ^ (l - 1)" _ "2 ^ s"] s by (simp flip: power_add)
  ultimately show thesis using that [of s] \<open>1 < l\<close> \<open>l - 1 < 54\<close> by (simp add: s_def)
qed

lemma uint_small: "0 \<le> k \<Longrightarrow> k < 2 ^ 64 \<Longrightarrow> uint (word_of_int k :: u64) = k"
  by (simp add: unsigned_of_int take_bit_int_eq_self)

lemma fields_of_double:
  assumes "r = of_nat f * 2 powi ulp_exponent r" "0 < f" "f < 2 ^ 53"
    "- 1074 \<le> ulp_exponent r" "ulp_exponent r \<le> 971" "f < 2 ^ 52 \<longrightarrow> ulp_exponent r = - 1074"
  shows "diyfp_of (double_fields r) = \<lparr>sf = of_nat f, ex = ulp_exponent r\<rparr>"
    and "(case double_fields r of (E, F) \<Rightarrow> F = 0 \<and> 1 < E) \<longleftrightarrow> f = 2 ^ 52 \<and> - 1074 < ulp_exponent r"
proof -
  define u where "u = ulp_exponent r"
  have "r / 2 powi u = of_nat f" using assms(1) by (simp add: u_def field_simps)
  then have m: "nat \<lfloor>r / 2 powi u\<rfloor> = f" by simp
  have zero: "(of_nat n :: u64) = 0 \<longleftrightarrow> n = 0" if "n < 2 ^ 53" for n
    using that by (auto simp: word_of_nat_eq_0_iff dest: nat_dvd_not_less [rotated])
  have f0: "(of_nat f :: u64) \<noteq> 0" using assms(2,3) zero [of f] by simp
  have sub0: "(of_nat (f - 2 ^ 52) :: u64) = 0 \<longleftrightarrow> f \<le> 2 ^ 52"
    using assms(3) by (subst zero) auto
  have E: "uint (word_of_int (u + 1075) :: u64) = u + 1075"
    using assms(4,5) unfolding u_def by (intro uint_small) auto
  have "diyfp_of (double_fields r) = \<lparr>sf = of_nat f, ex = u\<rparr> \<and>
     ((case double_fields r of (E, F) \<Rightarrow> F = 0 \<and> 1 < E) \<longleftrightarrow> f = 2 ^ 52 \<and> - 1074 < u)"
  proof (cases "f < 2 ^ 52")
    case True
    then have "double_fields r = (0, of_nat f)" by (simp add: double_fields_def m Let_def flip: u_def)
    with True assms(6) f0 show ?thesis by (simp add: diyfp_of_def kBias_def u_def)
  next
    case False
    then have fields: "double_fields r = (word_of_int (u + 1075), of_nat (f - 2 ^ 52))"
      by (simp add: double_fields_def m Let_def flip: u_def)
    have "(word_of_int (u + 1075) :: u64) \<noteq> 0" using E assms(4) by (auto simp: u_def)
    moreover have "of_nat (f - 2 ^ 52) + kHiddenBit = (of_nat f :: u64)"
    proof -
      have "of_nat (f - 2 ^ 52) + kHiddenBit = (of_nat (f - 2 ^ 52) + of_nat (2 ^ 52) :: u64)"
        by (simp add: kHiddenBit_def push_bit_eq_mult)
      also have "\<dots> = of_nat f" using False by (simp flip: of_nat_add)
      finally show ?thesis .
    qed
    moreover have "1 < (word_of_int (u + 1075) :: u64) \<longleftrightarrow> - 1074 < u" using E by (simp add: word_less_alt) linarith
    ultimately show ?thesis using False E sub0 fields by (auto simp: diyfp_of_def kBias_def)
  qed
  then show "diyfp_of (double_fields r) = \<lparr>sf = of_nat f, ex = ulp_exponent r\<rparr>"
    "(case double_fields r of (E, F) \<Rightarrow> F = 0 \<and> 1 < E) \<longleftrightarrow> f = 2 ^ 52 \<and> - 1074 < ulp_exponent r"
    by (simp_all add: u_def)
qed

text \<open>The three significands, at the exponent of the upper boundary.\<close>

lemma boundaries_exact:
  assumes "representable r" "0 < r" "r < 2 ^ 1024"
  obtains f ev s bd where "r = of_nat f * 2 powi ev" "0 < f" "f < 2 ^ 53" "- 1074 \<le> ev" "ev \<le> 971"
    "f < 2 ^ 52 \<longrightarrow> ev = - 1074" "compute_boundaries r = Some bd" "10 \<le> s" "s \<le> 62"
    "unat (sf (b_plus bd)) = (2 * f + 1) * 2 ^ s" "unat (sf (b_w bd)) = 2 * f * 2 ^ s"
    "of_nat (unat (sf (b_minus bd))) = (2 * of_nat f - 2 * lower_gap f ev) * (2 :: rat) ^ s"
    "ex (b_plus bd) = ev - 1 - int s" "ex (b_w bd) = ev - 1 - int s" "ex (b_minus bd) = ev - 1 - int s"
    "2 ^ 63 \<le> 2 * f * 2 ^ s" "(2 * f + 1) * 2 ^ s < 2 ^ 64"
proof -
  from double_parts [OF assms] obtain f where f: "r = of_nat f * 2 powi ulp_exponent r" "0 < f" "f < 2 ^ 53"
    "- 1074 \<le> ulp_exponent r" "ulp_exponent r \<le> 971" "f < 2 ^ 52 \<longrightarrow> ulp_exponent r = - 1074" .
  define ev where "ev = ulp_exponent r"
  from bit_length_range [of "2 * f + 1"] f(2,3) obtain s where
    s: "10 \<le> s" "s \<le> 62" "2 ^ 63 \<le> (2 * f + 1) * 2 ^ s" "(2 * f + 1) * 2 ^ s < 2 ^ 64" "2 ^ 63 \<le> 2 * f * 2 ^ s"
    by auto
  obtain E F where EF: "double_fields r = (E, F)" by fastforce
  note fields = fields_of_double [OF f, folded ev_def, unfolded EF prod.case]
  have nat: "unat (of_nat n :: u64) = n" if "n < 2 ^ 56" for n using that by (simp add: unsigned_of_nat take_bit_nat_eq_self)
  let ?plus = "\<lparr>sf = 2 * of_nat f + 1, ex = ev - 1\<rparr>" and ?v = "\<lparr>sf = of_nat f, ex = ev\<rparr>"
  have up: "unat (2 * of_nat f + 1 :: u64) = 2 * f + 1" using nat [of "2 * f + 1"] f(3) by (simp add: add.commute)
  have v: "unat (of_nat f :: u64) = f" using nat [of f] f(3) by simp
  let ?minus = "if f = 2 ^ 52 \<and> - 1074 < ev then \<lparr>sf = 4 * of_nat f - 1, ex = ev - 2\<rparr> else \<lparr>sf = 2 * of_nat f - 1, ex = ev - 1\<rparr>"
  have np: "diyfp_normalize ?plus = Some \<lparr>sf = push_bit s (2 * of_nat f + 1), ex = ev - 1 - int s\<rparr>"
    using normalize_by [of ?plus s] s(3,4) up by simp
  have nv: "diyfp_normalize ?v = Some \<lparr>sf = push_bit (Suc s) (of_nat f), ex = ev - int (Suc s)\<rparr>"
  proof -
    have "f * 2 ^ Suc s = 2 * f * 2 ^ s" by simp
    moreover have "2 * f * 2 ^ s < 2 ^ 64" using s(4) by (rule le_less_trans [rotated]) simp
    ultimately show ?thesis using normalize_by [of ?v "Suc s"] s(5) v by simp
  qed
  let ?bd = "\<lparr>b_w = \<lparr>sf = push_bit (Suc s) (of_nat f), ex = ev - int (Suc s)\<rparr>, b_minus = normalize_to ?minus (ev - 1 - int s),
      b_plus = \<lparr>sf = push_bit s (2 * of_nat f + 1), ex = ev - 1 - int s\<rparr>\<rparr>"
  have bd: "compute_boundaries r = Some ?bd"
    using fields np nv by (simp add: compute_boundaries_def EF) (simp add: Let_def)
  have minus: "of_nat (unat (sf (b_minus ?bd))) = (2 * of_nat f - 2 * lower_gap f ev) * (2 :: rat) ^ s \<and>
      ex (b_minus ?bd) = ev - 1 - int s"
  proof (cases "f = 2 ^ 52 \<and> - 1074 < ev")
    case True
    have sub: "unat (4 * of_nat f - 1 :: u64) = 4 * f - 1"
    proof -
      have "of_nat (4 * f - 1) = (4 * of_nat f - 1 :: u64)" using f(2) by (simp add: of_nat_diff)
      with nat [of "4 * f - 1"] f(3) show ?thesis by simp
    qed
    have "(4 * f - 1) * 2 ^ (s - 1) < 2 ^ 64"
    proof -
      have "(4 * f - 1) * 2 ^ (s - 1) \<le> (4 * f) * 2 ^ (s - 1)" by simp
      also have "\<dots> = 2 * f * 2 ^ s" using s(1) by (cases s) simp_all
      also have "\<dots> < 2 ^ 64" using s(4) by (rule le_less_trans [rotated]) simp
      finally show ?thesis .
    qed
    then have "unat (push_bit (s - 1) (4 * of_nat f - 1 :: u64)) = (4 * f - 1) * 2 ^ (s - 1)"
      using unat_push_bit [of "4 * of_nat f - 1" "s - 1"] by (simp only: sub)
    moreover have "nat (ev - 2 - (ev - 1 - int s)) = s - 1" using s(1) by simp
    ultimately have "unat (sf (b_minus ?bd)) = (4 * f - 1) * 2 ^ (s - 1)" using True by (simp add: normalize_to_def)
    moreover have "(of_nat ((4 * f - 1) * 2 ^ (s - 1)) :: rat) = (4 * of_nat f - 1) * 2 ^ (s - 1)" using f(2) by (simp add: of_nat_diff)
    moreover have "(2 :: rat) ^ s = 2 * 2 ^ (s - 1)" using s(1) by (simp flip: power_Suc)
    ultimately show ?thesis using True by (simp add: lower_gap_def normalize_to_def algebra_simps)
  next
    case False
    have sub: "unat (2 * of_nat f - 1 :: u64) = 2 * f - 1"
    proof -
      have "of_nat (2 * f - 1) = (2 * of_nat f - 1 :: u64)" using f(2) by (simp add: of_nat_diff)
      with nat [of "2 * f - 1"] f(3) show ?thesis by simp
    qed
    have "(2 * f - 1) * 2 ^ s < 2 ^ 64" using s(4) by (rule le_less_trans [rotated]) (intro mult_le_mono1, simp)
    then have "unat (push_bit s (2 * of_nat f - 1 :: u64)) = (2 * f - 1) * 2 ^ s"
      using unat_push_bit [of "2 * of_nat f - 1" s] by (simp only: sub)
    moreover have "nat (ev - 1 - (ev - 1 - int s)) = s" by simp
    moreover have "(of_nat ((2 * f - 1) * 2 ^ s) :: rat) = (2 * of_nat f - 1) * 2 ^ s" using f(2) by (simp add: of_nat_diff)
    moreover have "sf (b_minus ?bd) = push_bit s (2 * of_nat f - 1)" using False by (auto simp: normalize_to_def)
    ultimately show ?thesis using False by (auto simp: lower_gap_def normalize_to_def)
  qed
  have "unat (sf (b_plus ?bd)) = (2 * f + 1) * 2 ^ s"
    using unat_push_bit [of "2 * of_nat f + 1" s] s(4) up by simp
  moreover have "unat (sf (b_w ?bd)) = 2 * f * 2 ^ s"
  proof -
    have "2 * f * 2 ^ s < 2 ^ 64" using s(4) by (rule le_less_trans [rotated]) simp
    then show ?thesis using unat_push_bit [of "of_nat f" "Suc s"] v by simp
  qed
  ultimately show thesis
    using that [of f ev ?bd s] f s bd minus by (simp add: ev_def)
qed

section \<open>Rounding the last digit\<close>

abbreviation digits :: "string \<Rightarrow> bool" where
  "digits s \<equiv> \<forall>c\<in>set s. is_digit c"

lemma decrement_digit: "decrement_last (bs @ [digit_char (Suc d)]) = bs @ [digit_char d]" if "d < 9"
  using that by (simp add: decrement_last_def of_char_digit_char) (simp add: digit_char_def)

text \<open>The last digit is counted down as long as the number stays above the lower boundary; it does not
  fall below zero, since the digit before it did not suffice.\<close>

lemma round_exact:
  "unat rest \<le> unat delta \<Longrightarrow> 0 < unat ten_k \<Longrightarrow> unat delta < unat rest + d * unat ten_k \<Longrightarrow> d < 10 \<Longrightarrow>
   \<exists>j d'. grisu2_round (bs @ [digit_char d]) dst delta rest ten_k = Some (bs @ [digit_char d']) \<and>
     d' + j = d \<and> unat rest + j * unat ten_k \<le> unat delta"
proof (induction d arbitrary: rest)
  case (Suc d)
  show ?case
  proof (cases "rest < dst \<and> ten_k \<le> delta - rest \<and> (rest + ten_k < dst \<or> rest + ten_k - dst < dst - rest)")
    case True
    have "unat (delta - rest) = unat delta - unat rest" using Suc.prems(1) by (intro unat_sub) (simp add: word_le_nat_alt)
    with True Suc.prems(1) have le: "unat rest + unat ten_k \<le> unat delta" by (auto simp: word_le_nat_alt)
    have sum: "unat (rest + ten_k) = unat rest + unat ten_k"
      using le unat_bound [of delta] by (intro unat_plus_small) simp
    have "\<exists>j d'. grisu2_round (bs @ [digit_char d]) dst delta (rest + ten_k) ten_k = Some (bs @ [digit_char d']) \<and>
        d' + j = d \<and> unat (rest + ten_k) + j * unat ten_k \<le> unat delta"
      using Suc.prems by (intro Suc.IH) (simp_all add: sum le algebra_simps)
    then obtain j d' where "grisu2_round (bs @ [digit_char d]) dst delta (rest + ten_k) ten_k = Some (bs @ [digit_char d'])"
      "d' + j = d" "unat (rest + ten_k) + j * unat ten_k \<le> unat delta" by blast
    moreover have "grisu2_round (bs @ [digit_char (Suc d)]) dst delta rest ten_k =
        grisu2_round (bs @ [digit_char d]) dst delta (rest + ten_k) ten_k"
      using True Suc.prems(4) decrement_digit [of d bs] by (subst grisu2_round.simps) simp
    ultimately show ?thesis by (intro exI [of _ "Suc j"] exI [of _ d']) (simp add: sum)
  next
    case False
    then have "grisu2_round (bs @ [digit_char (Suc d)]) dst delta rest ten_k = Some (bs @ [digit_char (Suc d)])"
      by (subst grisu2_round.simps) (simp only: if_False)
    then show ?thesis using Suc.prems(1) by (intro exI [of _ 0] exI [of _ "Suc d"]) simp
  qed
qed simp

section \<open>The integral digits\<close>

lemma word_parts:
  assumes "sh \<le> 60" "unat a * 2 ^ sh + unat p2 < 2 ^ 64"
  shows "unat (push_bit sh (ucast (a :: u32)) + p2 :: u64) = unat a * 2 ^ sh + unat p2"
    and "unat (push_bit sh (ucast a) :: u64) = unat a * 2 ^ sh"
proof -
  have u: "unat (ucast a :: u64) = unat a" 
    using unat_bound [of a] by (simp add: unsigned_ucast_eq take_bit_nat_eq_self)
  show p: "unat (push_bit sh (ucast a) :: u64) = unat a * 2 ^ sh"
    using unat_push_bit [of "ucast a" sh] assms(2) unfolding u by simp
  show "unat (push_bit sh (ucast a) + p2 :: u64) = unat a * 2 ^ sh + unat p2"
    using assms(2) p by (subst unat_plus_small) simp_all
qed

text \<open>What the digits stand for: \<open>Mp\<close> is the upper boundary, \<open>delta\<close> its distance to the lower one.\<close>

definition between :: "nat \<Rightarrow> nat \<Rightarrow> string \<Rightarrow> nat \<Rightarrow> bool" where
  "between Mp delta b unit \<longleftrightarrow> dec_val b * unit \<le> Mp \<and> Mp \<le> dec_val b * unit + delta"

lemma integral_exact:
  assumes "sh \<le> 60"
  shows "(n = 0 \<longrightarrow> unat p1 = 0) \<Longrightarrow> (0 < n \<longrightarrow> unat pow10 = 10 ^ (n - 1)) \<Longrightarrow> unat p1 < 10 ^ n \<Longrightarrow>
    unat pow10 * 2 ^ sh < 2 ^ 64 \<Longrightarrow> Mp < 2 ^ 64 \<Longrightarrow> digits buffer \<Longrightarrow>
    Mp = dec_val buffer * 10 ^ n * 2 ^ sh + unat p1 * 2 ^ sh + unat p2 \<Longrightarrow>
    unat delta < unat p1 * 2 ^ sh + unat p2 \<Longrightarrow>
    (case digit_gen_integral n sh buffer p1 pow10 p2 delta dst of
       Inl res \<Rightarrow> (\<exists>b k. res = Some (b, int k) \<and> k < n \<and> digits b \<and> length b = length buffer + (n - k) \<and>
                     between Mp (unat delta) b (10 ^ k * 2 ^ sh))
     | Inr b \<Rightarrow> digits b \<and> length b = length buffer + n \<and> Mp = dec_val b * 2 ^ sh + unat p2 \<and> unat delta < unat p2)"
proof (induction n arbitrary: buffer p1 pow10)
  case (Suc n)
  define d r where "d = unat (p1 div pow10)" and "r = p1 mod pow10"
  have pow: "unat pow10 = 10 ^ n" using Suc.prems(2) by simp
  have d: "d = unat p1 div 10 ^ n" and r: "unat r = unat p1 mod 10 ^ n"
    by (simp_all add: d_def r_def unat_div_distrib unat_mod_distrib pow)
  have p1: "unat p1 = d * 10 ^ n + unat r" unfolding d r by (rule div_mult_mod_eq [symmetric])
  have "d < 10" using Suc.prems(3) unfolding d by (simp add: less_mult_imp_div_less)
  let ?buf = "buffer @ [digit_char d]"
  have Mp: "Mp = dec_val ?buf * 10 ^ n * 2 ^ sh + unat r * 2 ^ sh + unat p2"
    using Suc.prems(7) \<open>d < 10\<close> unfolding p1 by (simp add: algebra_simps)
  have rest: "unat (push_bit sh (ucast r) + p2) = unat r * 2 ^ sh + unat p2"
    using word_parts(1) [OF assms(1), of r p2] Mp Suc.prems(5) by linarith
  have ten_k: "unat (push_bit sh (ucast pow10) :: u64) = 10 ^ n * 2 ^ sh"
    using word_parts(2) [OF assms(1), of pow10 0] Suc.prems(4) by (simp add: pow)
  have step: "digit_gen_integral (Suc n) sh buffer p1 pow10 p2 delta dst =
      (if push_bit sh (ucast r) + p2 \<le> delta
       then Inl (map_option (\<lambda>b. (b, int n)) (grisu2_round ?buf dst delta (push_bit sh (ucast r) + p2) (push_bit sh (ucast pow10))))
       else digit_gen_integral n sh ?buf r (pow10 div 10) p2 delta dst)"
    by (simp add: Let_def d_def r_def digit_char_def)
  show ?case
  proof (cases "push_bit sh (ucast r) + p2 \<le> delta")
    case True
    from True have le: "unat r * 2 ^ sh + unat p2 \<le> unat delta" unfolding word_le_nat_alt rest .
    have gt: "unat delta < unat (push_bit sh (ucast r) + p2) + d * unat (push_bit sh (ucast pow10) :: u64)"
      using Suc.prems(8) unfolding rest ten_k p1 by (simp add: algebra_simps)
    obtain j d' where round: "grisu2_round ?buf dst delta (push_bit sh (ucast r) + p2) (push_bit sh (ucast pow10)) =
        Some (buffer @ [digit_char d'])" and j: "d' + j = d" "unat r * 2 ^ sh + unat p2 + j * (10 ^ n * 2 ^ sh) \<le> unat delta"
      using round_exact [of "push_bit sh (ucast r) + p2" delta "push_bit sh (ucast pow10)" d buffer dst] le gt \<open>d < 10\<close>
      unfolding rest ten_k by auto
    have d': "d' < 10" using j(1) \<open>d < 10\<close> by simp
    have "Mp = dec_val (buffer @ [digit_char d']) * (10 ^ n * 2 ^ sh) + (unat r * 2 ^ sh + unat p2 + j * (10 ^ n * 2 ^ sh))"
      unfolding Mp using d' \<open>d < 10\<close> by (simp add: j(1) [symmetric] algebra_simps)
    then have "between Mp (unat delta) (buffer @ [digit_char d']) (10 ^ n * 2 ^ sh)"
      unfolding between_def using j(2) by linarith
    then show ?thesis unfolding step using True round d' Suc.prems(6)
      by (auto intro!: exI [of _ "buffer @ [digit_char d']"])
  next
    case False
    have "unat (pow10 div 10) = 10 ^ n div 10" by (simp add: unat_div_distrib pow)
    then have pow': "0 < n \<longrightarrow> unat (pow10 div 10) = 10 ^ (n - 1)" by (cases n) simp_all
    have small: "unat (pow10 div 10) * 2 ^ sh < 2 ^ 64"
    proof -
      have "unat (pow10 div 10) * 2 ^ sh \<le> unat pow10 * 2 ^ sh" by (simp add: unat_div_distrib)
      with Suc.prems(4) show ?thesis by linarith
    qed
    have r0: "unat r < 10 ^ n" "n = 0 \<longrightarrow> unat r = 0" unfolding r by simp_all
    from False have gt: "unat delta < unat r * 2 ^ sh + unat p2" unfolding word_le_nat_alt rest by simp
    from Suc.IH [OF r0(2) pow' r0(1) small Suc.prems(5) _ Mp gt] \<open>d < 10\<close> Suc.prems(6)
    show ?thesis unfolding step using False by (auto split: sum.splits)
  qed
qed simp
section \<open>The fractional digits\<close>

lemma low_bits: "sh \<le> 60 \<Longrightarrow> unat (p AND (push_bit sh 1 - 1) :: u64) = unat p mod 2 ^ sh"
proof -
  assume "sh \<le> 60"
  have "p AND (push_bit sh 1 - 1) = take_bit sh p"
    by (simp add: take_bit_eq_mask mask_eq_exp_minus_1 push_bit_eq_mult)
  then show ?thesis by (simp only: unsigned_take_bit_eq) (simp add: take_bit_eq_mod)
qed

lemma high_bits: "unat (drop_bit sh (p :: u64)) = unat p div 2 ^ sh"
  using unat_bound [of p] by (simp only: unsigned_drop_bit_eq) (simp add: take_bit_nat_eq_self drop_bit_eq_div)

text \<open>The distance grows tenfold with each digit, so it reaches the remainder after at most \<open>N\<close> digits,
  and no product overflows.\<close>

lemma fraction_exact:
  assumes "sh \<le> 60"
  shows "2 ^ 60 \<le> unat delta * 10 ^ N \<Longrightarrow> unat p2 < 2 ^ sh \<Longrightarrow> unat delta < unat p2 \<Longrightarrow> digits buffer \<Longrightarrow>
    \<exists>b d r delta' dst' t. digit_gen_fraction (push_bit sh 1) sh buffer p2 delta dst m =
        Some (b @ [digit_char d], r, delta', dst', m + int t) \<and> 0 < t \<and> t \<le> N \<and> digits b \<and> d < 10 \<and>
      length b + 1 = length buffer + t \<and> unat delta' = unat delta * 10 ^ t \<and> unat r \<le> unat delta' \<and>
      unat delta' < unat r + d * 2 ^ sh \<and>
      dec_val (b @ [digit_char d]) * 2 ^ sh + unat r = (dec_val buffer * 2 ^ sh + unat p2) * 10 ^ t"
proof (induction N arbitrary: delta p2 buffer dst m)
  case 0
  have "(2 :: nat) ^ sh \<le> 2 ^ 60" using assms by (intro power_increasing) simp_all
  with 0 show ?case by simp
next
  case (Suc N)
  have sh60: "(2 :: nat) ^ sh \<le> 2 ^ 60" using assms by (intro power_increasing) simp_all
  have small: "unat p2 * 10 < 2 ^ 64" "unat delta * 10 < 2 ^ 64" using Suc.prems(2,3) sh60 by simp_all
  have p2: "unat (p2 * 10) = unat p2 * 10" using small(1) by (subst unat_times_small) simp_all
  have delta: "unat (delta * 10) = unat delta * 10" using small(2) by (subst unat_times_small) simp_all
  define d r where "d = unat p2 * 10 div 2 ^ sh" and "r = (p2 * 10) AND (push_bit sh 1 - 1)"
  have r: "unat r = unat p2 * 10 mod 2 ^ sh" unfolding r_def low_bits [OF assms] p2 ..
  have dr: "unat p2 * 10 = d * 2 ^ sh + unat r" unfolding d_def r by (rule div_mult_mod_eq [symmetric])
  have d10: "d < 10" using Suc.prems(2) unfolding d_def by (intro less_mult_imp_div_less) simp
  have rs: "unat r < 2 ^ sh" unfolding r by simp
  let ?buf = "buffer @ [digit_char d]"
  have step: "digit_gen_fraction (push_bit sh 1) sh buffer p2 delta dst m =
      (if r \<le> delta * 10 then Some (?buf, r, delta * 10, dst * 10, m + 1)
       else digit_gen_fraction (push_bit sh 1) sh ?buf r (delta * 10) (dst * 10) (m + 1))"
    by (subst digit_gen_fraction.simps) (simp only: Let_def high_bits p2 digit_char_def r_def [symmetric] d_def [symmetric])
  have val: "dec_val ?buf * 2 ^ sh + unat r = (dec_val buffer * 2 ^ sh + unat p2) * 10"
    using dr d10 by (simp add: algebra_simps)
  show ?case
  proof (cases "r \<le> delta * 10")
    case True
    have "unat delta * 10 < unat r + d * 2 ^ sh" using Suc.prems(3) dr by linarith
    moreover from True have "unat r \<le> unat delta * 10" unfolding word_le_nat_alt delta .
    ultimately show ?thesis
      using True step val Suc.prems(4) d10 delta
      by (intro exI [of _ buffer] exI [of _ d] exI [of _ r] exI [of _ "delta * 10"] exI [of _ "dst * 10"] exI [of _ 1]) simp
  next
    case False
    then have gt: "unat (delta * 10) < unat r" unfolding word_le_nat_alt by simp
    have "2 ^ 60 \<le> unat (delta * 10) * 10 ^ N" using Suc.prems(1) unfolding delta by (simp add: ac_simps)
    from Suc.IH [OF this rs gt, of ?buf "dst * 10" "m + 1"] Suc.prems(4) d10
    obtain b e r' delta' dst' t where IH: "digit_gen_fraction (push_bit sh 1) sh ?buf r (delta * 10) (dst * 10) (m + 1) =
        Some (b @ [digit_char e], r', delta', dst', m + 1 + int t)" "0 < t" "t \<le> N" "digits b" "e < 10"
      "length b + 1 = length ?buf + t" "unat delta' = unat (delta * 10) * 10 ^ t" "unat r' \<le> unat delta'"
      "unat delta' < unat r' + e * 2 ^ sh"
      "dec_val (b @ [digit_char e]) * 2 ^ sh + unat r' = (dec_val ?buf * 2 ^ sh + unat r) * 10 ^ t" by auto
    have "dec_val (b @ [digit_char e]) * 2 ^ sh + unat r' = (dec_val buffer * 2 ^ sh + unat p2) * 10 ^ Suc t"
      unfolding IH(10) val by (simp add: ac_simps)
    then show ?thesis
      using IH False step delta
      by (intro exI [of _ b] exI [of _ e] exI [of _ r'] exI [of _ delta'] exI [of _ dst'] exI [of _ "Suc t"]) (simp add: ac_simps)
  qed
qed

section \<open>All digits\<close>

lemma between_scaled:
  assumes "between (Mp * 10 ^ t) (delta * 10 ^ t) b (2 ^ sh)" "delta \<le> Mp"
  shows "of_nat (Mp - delta) \<le> of_nat (dec_val b) * 10 powi (- int t) * (2 :: rat) ^ sh"
    and "of_nat (dec_val b) * 10 powi (- int t) * (2 :: rat) ^ sh \<le> of_nat Mp"
proof -
  have "(Mp - delta) * 10 ^ t \<le> dec_val b * 2 ^ sh" "dec_val b * 2 ^ sh \<le> Mp * 10 ^ t"
    using assms by (auto simp: between_def diff_mult_distrib)
  then have "(of_nat ((Mp - delta) * 10 ^ t) :: rat) \<le> of_nat (dec_val b * 2 ^ sh)"
    "of_nat (dec_val b * 2 ^ sh) \<le> (of_nat (Mp * 10 ^ t) :: rat)" by (simp_all only: of_nat_le_iff)
  then show "of_nat (Mp - delta) \<le> of_nat (dec_val b) * 10 powi (- int t) * (2 :: rat) ^ sh"
    "of_nat (dec_val b) * 10 powi (- int t) * (2 :: rat) ^ sh \<le> of_nat Mp"
    by (simp_all add: power_int_minus field_simps)
qed

lemma digit_gen_exact:
  assumes sh: "32 \<le> sh" "sh \<le> 60" and ex: "ex M_plus = - int sh"
    and big: "2 ^ 61 \<le> unat (sf M_plus)" and less: "unat (sf M_minus) + 700 < unat (sf M_plus)" "0 < unat (sf M_minus)"
  obtains b n where "grisu2_digit_gen de M_minus w M_plus = Some (b, de + n)" "b \<noteq> []" "digits b" "length b \<le> 27"
    "- 17 \<le> n" "n \<le> 9" "of_nat (unat (sf M_minus)) \<le> of_nat (dec_val b) * 10 powi n * (2 :: rat) ^ sh"
    "of_nat (dec_val b) * 10 powi n * (2 :: rat) ^ sh \<le> of_nat (unat (sf M_plus))"
proof -
  define Mp delta where "Mp = unat (sf M_plus)" and "delta = sf (diyfp_sub M_plus M_minus)"
  have delta: "unat delta = Mp - unat (sf M_minus)"
    using less unfolding delta_def diyfp_sub_def Mp_def by (simp add: unat_sub word_le_nat_alt)
  have d700: "700 < unat delta" "unat delta < Mp" "unat delta \<le> Mp" using less unfolding delta Mp_def by linarith+
  define p1 p2 where "p1 = (ucast (drop_bit sh (sf M_plus)) :: u32)" and "p2 = sf M_plus AND (push_bit sh 1 - 1)"
  have Mp64: "Mp < 2 ^ 64" unfolding Mp_def using unat_bound [of "sf M_plus"] by simp
  have "Mp div 2 ^ sh < 2 ^ 32"
  proof -
    have "(2 :: nat) ^ 64 \<le> 2 ^ 32 * 2 ^ sh" using power_increasing [OF sh(1), of "2 :: nat"] by simp
    with Mp64 show ?thesis by (intro less_mult_imp_div_less) linarith
  qed
  then have p1: "unat p1 = Mp div 2 ^ sh"
    unfolding p1_def Mp_def by (simp add: unsigned_ucast_eq high_bits take_bit_nat_eq_self)
  have p2: "unat p2 = Mp mod 2 ^ sh" unfolding p2_def low_bits [OF sh(2)] Mp_def ..
  have Mp: "Mp = unat p1 * 2 ^ sh + unat p2" unfolding p1 p2 by (rule div_mult_mod_eq [symmetric])
  have "(2 :: nat) ^ sh \<le> 2 ^ 60" using sh by (intro power_increasing) simp_all
  then have "2 ^ sh \<le> Mp" using big unfolding Mp_def by simp
  then have "0 < unat p1" unfolding p1 by (simp add: div_greater_zero_iff)
  obtain k pow10 where kp: "find_largest_pow10 p1 = (k, pow10)" by fastforce
  from find_largest_pow10_value [OF kp] \<open>0 < unat p1\<close>
  have k: "0 < k" "k \<le> 10" "unat pow10 = 10 ^ (k - 1)" "unat p1 < 10 ^ k" "unat pow10 \<le> unat p1"
    by (auto simp: word_less_nat_alt)
  have "unat pow10 * 2 ^ sh \<le> unat p1 * 2 ^ sh" using k(5) by simp
  then have pow: "unat pow10 * 2 ^ sh < 2 ^ 64" using Mp Mp64 by linarith
  define dst where "dst = sf (diyfp_sub M_plus w)"
  have gen: "grisu2_digit_gen de M_minus w M_plus =
     (case digit_gen_integral k sh [] p1 pow10 p2 delta dst of
        Inl res \<Rightarrow> map_option (\<lambda>(b, n). (b, de + n)) res
      | Inr buffer \<Rightarrow>
          (case digit_gen_fraction (push_bit sh 1) sh buffer p2 delta dst 0 of
             None \<Rightarrow> None
           | Some (b, rest, delta', dst', m) \<Rightarrow>
               map_option (\<lambda>b'. (b', de - m)) (grisu2_round b dst' delta' rest (push_bit sh 1))))"
  proof -
    have "nat (- ex M_plus) = sh" using ex by simp
    then show ?thesis
      by (simp only: grisu2_digit_gen_def Let_def p1_def [symmetric] p2_def [symmetric] delta_def [symmetric]
          dst_def [symmetric] kp prod.case)
  qed
  have int: "case digit_gen_integral k sh [] p1 pow10 p2 delta dst of
       Inl res \<Rightarrow> (\<exists>b i. res = Some (b, int i) \<and> i < k \<and> digits b \<and> length b = length ([] :: string) + (k - i) \<and>
                     between Mp (unat delta) b (10 ^ i * 2 ^ sh))
     | Inr b \<Rightarrow> digits b \<and> length b = length ([] :: string) + k \<and> Mp = dec_val b * 2 ^ sh + unat p2 \<and> unat delta < unat p2"
    by (rule integral_exact [OF sh(2)]) (use k pow Mp Mp64 d700 in simp_all)
  show thesis
  proof (cases "digit_gen_integral k sh [] p1 pow10 p2 delta dst")
    case (Inl res)
    with int obtain b i where b: "res = Some (b, int i)" "i < k" "digits b" "length b = k - i"
      "between Mp (unat delta) b (10 ^ i * 2 ^ sh)" by auto
    have "(of_nat (Mp - unat delta) :: rat) \<le> of_nat (dec_val b * (10 ^ i * 2 ^ sh))"
      "(of_nat (dec_val b * (10 ^ i * 2 ^ sh)) :: rat) \<le> of_nat Mp"
      using b(5) unfolding of_nat_le_iff between_def by linarith+
    moreover have "b \<noteq> []" "length b \<le> 27" using b(2,4) k by auto
    ultimately show thesis
      using that [of b "int i"] gen Inl b k d700 delta less by (auto simp: Mp_def ac_simps)
  next
    case (Inr buf)
    with int have buf: "digits buf" "length buf = k" "Mp = dec_val buf * 2 ^ sh + unat p2" "unat delta < unat p2" by auto
    have N: "2 ^ 60 \<le> unat delta * 10 ^ 16" using d700(1) by simp
    have "unat p2 < 2 ^ sh" unfolding p2 by simp
    from fraction_exact [OF sh(2) N this buf(4,1), of dst 0] obtain b d r delta' dst' t where
      frac: "digit_gen_fraction (push_bit sh 1) sh buf p2 delta dst 0 = Some (b @ [digit_char d], r, delta', dst', int t)"
      "0 < t" "t \<le> 16" "digits b" "d < 10" "length b + 1 = length buf + t" "unat delta' = unat delta * 10 ^ t"
      "unat r \<le> unat delta'" "unat delta' < unat r + d * 2 ^ sh"
      "dec_val (b @ [digit_char d]) * 2 ^ sh + unat r = (dec_val buf * 2 ^ sh + unat p2) * 10 ^ t" by auto
    have one: "unat (push_bit sh 1 :: u64) = 2 ^ sh"
    proof -
      have "(2 :: nat) ^ sh < 2 ^ 64" using \<open>2 ^ sh \<le> Mp\<close> Mp64 by linarith
      then show ?thesis using unat_push_bit [of 1 sh] by simp
    qed
    obtain j d' where round: "grisu2_round (b @ [digit_char d]) dst' delta' r (push_bit sh 1) = Some (b @ [digit_char d'])"
      "d' + j = d" "unat r + j * 2 ^ sh \<le> unat delta'"
      using round_exact [of r delta' "push_bit sh 1" d b dst'] frac(5,8,9) unfolding one by auto
    have "dec_val (b @ [digit_char d']) * 2 ^ sh + (unat r + j * 2 ^ sh) = dec_val (b @ [digit_char d]) * 2 ^ sh + unat r"
      using round(2) frac(5) by (simp add: round(2) [symmetric] algebra_simps)
    also have "\<dots> = Mp * 10 ^ t" unfolding frac(10) buf(3) ..
    finally have "between (Mp * 10 ^ t) (unat delta * 10 ^ t) (b @ [digit_char d']) (2 ^ sh)"
      using round(3) unfolding between_def frac(7) by linarith
    note scaled = between_scaled [OF this d700(3)]
    have "Mp - unat delta = unat (sf M_minus)" using delta less by (simp add: Mp_def)
    then show thesis
      using that [of "b @ [digit_char d']" "- int t"] gen Inr frac round scaled buf k by (simp add: Mp_def)
  qed
qed

section \<open>The products with the cached power\<close>

lemma product_near: "\<bar>of_nat (unat (mul_high x c)) - of_nat (unat x) * of_nat (unat c) / (2 :: rat) ^ 64\<bar> \<le> 1 / 2"
proof -
  define h p where "h = unat (mul_high x c)" and "p = unat x * unat c"
  have "h = (p + 2 ^ 63) div 2 ^ 64" unfolding h_def p_def by (rule mul_high_value)
  then have "h * 2 ^ 64 \<le> p + 2 ^ 63" "p + 2 ^ 63 < (h + 1) * 2 ^ 64" by simp_all
  then have "of_nat (h * 2 ^ 64) \<le> (of_nat (p + 2 ^ 63) :: rat)" "(of_nat (p + 2 ^ 63) :: rat) < of_nat ((h + 1) * 2 ^ 64)"
    by (simp_all only: of_nat_le_iff of_nat_less_iff)
  then have "of_nat h - of_nat p / 2 ^ 64 \<le> (1 / 2 :: rat)" "- (1 / 2 :: rat) \<le> of_nat h - of_nat p / 2 ^ 64"
    by (simp_all add: field_simps)
  then have "\<bar>of_nat h - of_nat p / 2 ^ 64\<bar> \<le> (1 / 2 :: rat)" unfolding abs_le_iff by linarith
  then show ?thesis by (simp only: h_def p_def of_nat_mult)
qed

lemma product_power:
  assumes "near_power (unat c) ce k"
  defines "y \<equiv> 10 powi k / (2 :: rat) powi ce"
  shows "\<bar>of_nat (unat c) - y\<bar> \<le> 1 / 2" and "\<bar>of_nat (unat (mul_high x c)) - of_nat (unat x) * y / 2 ^ 64\<bar> < 1"
proof -
  have pos: "0 < (2 :: rat) powi ce" by simp
  have "(of_nat (unat c) - y) * 2 powi ce = of_nat (unat c) * 2 powi ce - 10 powi k" by (simp add: y_def algebra_simps)
  then have "\<bar>of_nat (unat c) - y\<bar> * 2 powi ce = \<bar>of_nat (unat c) * 2 powi ce - (10 :: rat) powi k\<bar>"
    by (metis abs_mult abs_of_pos pos)
  with assms(1) have "\<bar>of_nat (unat c) - y\<bar> * 2 powi ce * 2 \<le> 2 powi ce" by (simp add: near_power_def)
  then have "(\<bar>of_nat (unat c) - y\<bar> * 2) * 2 powi ce \<le> 1 * 2 powi ce" by (simp add: ac_simps)
  then have "\<bar>of_nat (unat c) - y\<bar> * 2 \<le> 1" using pos by (rule mult_right_le_imp_le)
  then show c: "\<bar>of_nat (unat c) - y\<bar> \<le> 1 / 2" by simp
  have X: "(of_nat (unat x) :: rat) < 2 ^ 64"
  proof -
    have "(of_nat (unat x) :: rat) < of_nat (2 ^ 64)" using unat_bound [of x] by (simp only: of_nat_less_iff) simp
    then show ?thesis by simp
  qed
  have "of_nat (unat x) * of_nat (unat c) / 2 ^ 64 - of_nat (unat x) * y / 2 ^ 64 = of_nat (unat x) / 2 ^ 64 * (of_nat (unat c) - y)"
    by (simp add: field_simps)
  moreover have "0 \<le> (of_nat (unat x) / 2 ^ 64 :: rat)" by (intro divide_nonneg_nonneg of_nat_0_le_iff) simp
  ultimately have "\<bar>of_nat (unat x) * of_nat (unat c) / 2 ^ 64 - of_nat (unat x) * y / 2 ^ 64\<bar> = of_nat (unat x) / 2 ^ 64 * \<bar>of_nat (unat c) - y\<bar>"
    by (simp only: abs_mult abs_of_nonneg)
  also have "\<dots> \<le> of_nat (unat x) / 2 ^ 64 * (1 / 2)" using c by (intro mult_left_mono divide_nonneg_nonneg of_nat_0_le_iff) simp_all
  also have "\<dots> < 1 / 2" using X by simp
  finally show "\<bar>of_nat (unat (mul_high x c)) - of_nat (unat x) * y / 2 ^ 64\<bar> < 1"
    using product_near [of x c] by linarith
qed

section \<open>The conversion is exact\<close>

lemma grisu2_exact:
  assumes "representable r" "0 < r" "r < 2 ^ 1024"
  obtains b e where "grisu2 r = Some (b, e)" "b \<noteq> []" "digits b" "length b \<le> 27" "\<bar>e\<bar> \<le> 350"
    "round_rat (of_nat (dec_val b) * 10 powi e) = r"
proof -
  from boundaries_exact [OF assms] obtain f ev s bd where
    r: "r = of_nat f * 2 powi ev" "0 < f" "f < 2 ^ 53" "- 1074 \<le> ev" "ev \<le> 971" "f < 2 ^ 52 \<longrightarrow> ev = - 1074"
    and bd: "compute_boundaries r = Some bd" and s: "10 \<le> s" "s \<le> 62"
    and P: "unat (sf (b_plus bd)) = (2 * f + 1) * 2 ^ s"
    and N: "of_nat (unat (sf (b_minus bd))) = (2 * of_nat f - 2 * lower_gap f ev) * (2 :: rat) ^ s"
    and ex: "ex (b_plus bd) = ev - 1 - int s" "ex (b_w bd) = ev - 1 - int s" "ex (b_minus bd) = ev - 1 - int s"
    and range: "2 ^ 63 \<le> 2 * f * 2 ^ s" .
  define q where "q = ev - 1 - int s"
  have q: "- 1137 \<le> q" "q \<le> 960" using r(4,5) s by (simp_all add: q_def)
  define c where "c = get_cached_power_for_binary_exponent q"
  note c = cached_power_exact [OF q, folded c_def]
  define sh where "sh = nat (- (q + c_e c + 64))"
  have sh: "32 \<le> sh" "sh \<le> 60" "q + c_e c + 64 = - int sh" using c(2,3) by (simp_all add: sh_def)
  define y where "y = 10 powi (c_k c) / (2 :: rat) powi (c_e c)"
  note near = product_power [OF c(4), folded y_def]
  have "(of_nat (2 ^ 63) :: rat) \<le> of_nat (unat (c_f c))" using c(1) by (simp only: of_nat_le_iff)
  then have y: "2 ^ 63 - 1 / 2 \<le> y" using near(1) unfolding abs_le_iff of_nat_power of_nat_numeral by linarith
  define xP xN where "xP = (of_nat (unat (sf (b_plus bd))) :: rat)" and "xN = (of_nat (unat (sf (b_minus bd))) :: rat)"
  define hP hN where "hP = mul_high (sf (b_plus bd)) (c_f c)" and "hN = mul_high (sf (b_minus bd)) (c_f c)"
  have h: "\<bar>of_nat (unat hP) - xP * y / 2 ^ 64\<bar> < 1" "\<bar>of_nat (unat hN) - xN * y / 2 ^ 64\<bar> < 1"
    unfolding hP_def hN_def xP_def xN_def by (rule near(2))+
  have xP: "xP = (2 * of_nat f + 1) * 2 ^ s" unfolding xP_def P by (simp add: algebra_simps)
  have xN: "xN = (2 * of_nat f - 2 * lower_gap f ev) * 2 ^ s" unfolding xN_def N ..
  have "(2 :: rat) ^ 10 \<le> 2 ^ s" using s(1) by (intro power_increasing) simp_all
  moreover have "1 / 4 \<le> lower_gap f ev" by (simp add: lower_gap_def)
  ultimately have "(3 / 2) * 2 ^ 10 \<le> (1 + 2 * lower_gap f ev) * (2 :: rat) ^ s" by (intro mult_mono) simp_all
  also have "\<dots> = xP - xN" unfolding xP xN by (simp add: algebra_simps)
  finally have gap: "1536 \<le> xP - xN" by simp
  have "1536 * (2 ^ 63 - 1 / 2) \<le> (xP - xN) * y" using gap y by (intro mult_mono) simp_all
  then have "767 \<le> xP * y / 2 ^ 64 - xN * y / 2 ^ 64" by (simp add: field_simps)
  then have "of_nat (unat hN) + 765 < (of_nat (unat hP) :: rat)" using h unfolding abs_less_iff by linarith
  then have "of_nat (unat hN + 765) < (of_nat (unat hP) :: rat)" by simp
  then have hh: "unat hN + 765 < unat hP" by (simp only: of_nat_less_iff)
  have "(of_nat (2 ^ 63) :: rat) \<le> of_nat (2 * f * 2 ^ s)" using range by (simp only: of_nat_le_iff)
  moreover have "xP = of_nat (2 * f * 2 ^ s) + 2 ^ s" unfolding xP by (simp add: algebra_simps)
  moreover have "0 \<le> (2 :: rat) ^ s" by simp
  ultimately have "2 ^ 63 \<le> xP" unfolding of_nat_power of_nat_numeral by linarith
  then have "2 ^ 63 * (2 ^ 63 - 1 / 2) \<le> xP * y" using y by (intro mult_mono) simp_all
  then have "2 ^ 62 - 1 \<le> xP * y / 2 ^ 64" by (simp add: field_simps)
  then have "of_nat (2 ^ 62 - 2) < (of_nat (unat hP) :: rat)" using h(1) unfolding abs_less_iff by simp
  then have big: "2 ^ 62 - 2 < unat hP" by (simp only: of_nat_less_iff)
  define Mm Mp where "Mm = \<lparr>sf = hN + 1, ex = - int sh\<rparr>" and "Mp = \<lparr>sf = hP - 1, ex = - int sh\<rparr>"
  have uP: "unat (sf Mp) = unat hP - 1"
  proof -
    have "(1 :: u64) \<le> hP" using big by (simp add: word_le_nat_alt)
    then show ?thesis by (simp add: Mp_def unat_sub)
  qed
  have uN: "unat (sf Mm) = unat hN + 1"
    unfolding Mm_def using hh unat_bound [of hP] by (simp, subst unat_plus_small) simp_all
  obtain b n where digits: "grisu2_digit_gen (- c_k c) Mm (diyfp_mul (b_w bd) \<lparr>sf = c_f c, ex = c_e c\<rparr>) Mp = Some (b, - c_k c + n)"
    "b \<noteq> []" "digits b" "length b \<le> 27" "- 17 \<le> n" "n \<le> 9"
    "of_nat (unat (sf Mm)) \<le> of_nat (dec_val b) * 10 powi n * (2 :: rat) ^ sh"
    "of_nat (dec_val b) * 10 powi n * (2 :: rat) ^ sh \<le> of_nat (unat (sf Mp))"
    by (rule digit_gen_exact [OF sh(1,2), of Mp Mm "- c_k c" "diyfp_mul (b_w bd) \<lparr>sf = c_f c, ex = c_e c\<rparr>"])
      (use big hh in \<open>simp_all add: uP uN\<close>, simp_all add: Mp_def)
  have gen: "grisu2 r = Some (b, - c_k c + n)"
    using digits(1) sh(3) ex
    by (simp add: grisu2_def bd grisu2_diyfp_def Let_def diyfp_mul_def ex Mm_def Mp_def hP_def hN_def flip: q_def c_def)
  define V where "V = of_nat (dec_val b) * 10 powi n * (2 :: rat) ^ sh"
  have V: "xN * y / 2 ^ 64 < V" "V < xP * y / 2 ^ 64"
    using digits(7,8) h hh unfolding uP uN V_def [symmetric] abs_less_iff by (simp_all add: of_nat_diff)
  define U where "U = 2 powi (- int sh) / (10 :: rat) powi (c_k c)"
  have U: "0 < U" by (simp add: U_def)
  have scale: "x * y / 2 ^ 64 * U = x * 2 powi q" for x
  proof -
    have "(2 :: rat) powi (- int sh) = 2 powi q * 2 powi (c_e c) * 2 ^ 64"
      unfolding sh(3) [symmetric] by (simp add: power_int_add)
    then show ?thesis by (simp add: U_def y_def)
  qed
  have "V * U = of_nat (dec_val b) * 10 powi (- c_k c + n)"
  proof -
    have "- c_k c + n = n - c_k c" by simp
    then have "(10 :: rat) powi (- c_k c + n) = 10 powi n / 10 powi c_k c" by (simp only: power_int_diff zero_neq_numeral [symmetric] simp_thms)
    then show ?thesis by (simp add: V_def U_def power_int_minus field_simps)
  qed
  moreover have "(of_nat f - lower_gap f ev) * 2 powi ev < V * U" "V * U < (of_nat f + 1 / 2) * 2 powi ev"
  proof -
    have pe: "(2 :: rat) powi ev = 2 * 2 ^ s * 2 powi q"
    proof -
      have "ev = q + int s + 1" by (simp add: q_def)
      then show ?thesis by (simp add: power_int_add)
    qed
    have "xN * 2 powi q < V * U" "V * U < xP * 2 powi q"
      unfolding scale [symmetric] using V U by (simp_all only: mult_strict_right_mono)
    then show "(of_nat f - lower_gap f ev) * 2 powi ev < V * U" "V * U < (of_nat f + 1 / 2) * 2 powi ev"
      unfolding pe xN xP by (simp_all add: algebra_simps)
  qed
  ultimately have "round_rat (of_nat (dec_val b) * 10 powi (- c_k c + n)) = r"
    unfolding r(1) using r(2-4,6) by (intro round_rat_near) simp_all
  moreover have "\<bar>- c_k c + n\<bar> \<le> 350" using c(5,6) digits(5,6) by linarith
  ultimately show thesis using that gen digits(2-4) by blast
qed
section \<open>The text of a double\<close>

definition finite_double :: "double \<Rightarrow> bool" where
  "finite_double d = (case d of DFin r \<Rightarrow> representable r \<and> \<bar>r\<bar> < 2 ^ 1024 | DNegZero \<Rightarrow> True | _ \<Rightarrow> False)"

text \<open>A minus sign before a number negates what is read.\<close>

lemma scan_double_minus:
  assumes "s \<noteq> []" "is_digit (hd s)" "scan_double s = Some (d, rest)"
  shows "scan_double (CHR ''-'' # s) = Some (dneg d, rest)"
proof -
  have "skip_ws (CHR ''-'' # s) = CHR ''-'' # s" by (simp add: skip_ws_def is_space_def)
  then show ?thesis
    using assms by (auto simp: scan_double_def skip_ws_digit scan_sign_digit signed_double_def Let_def split: prod.splits if_splits)
qed

lemma format_buffer_shape:
  assumes "b \<noteq> []" "digits b" "length b \<le> 27"
  shows "format_buffer b e (- 4) 15 \<noteq> [] \<and> is_digit (hd (format_buffer b e (- 4) 15)) \<and> length (format_buffer b e (- 4) 15) \<le> 36"
proof -
  have hd: "is_digit (hd b)" using assms by (cases b) simp_all
  have exp: "length (append_exponent x) \<le> 4" for x by (simp add: append_exponent_def Let_def)
  define k n where "k = int (length b)" and "n = k + e"
  have "0 < k" using assms(1) by (simp add: k_def)
  consider (int) "k \<le> n" "n \<le> 15" | (point) "n < k" "0 < n" "n \<le> 15"
    | (zeros) "n \<le> 0" "- 4 < n" | (exp) "\<not> (0 < n \<and> n \<le> 15)" "\<not> (n \<le> 0 \<and> - 4 < n)"
    by linarith
  then show ?thesis
  proof cases
    case int
    then have "format_buffer b e (- 4) 15 = b @ replicate (nat (n - k)) (CHR ''0'') @ ''.0''"
      by (simp add: format_buffer_def Let_def k_def n_def)
    then show ?thesis using hd assms(1) int by (simp add: k_def)
  next
    case point
    then have "format_buffer b e (- 4) 15 = take (nat n) b @ ''.'' @ drop (nat n) b"
      by (simp add: format_buffer_def Let_def k_def n_def)
    then show ?thesis using hd assms(1,3) point by (cases b) (auto simp: k_def)
  next
    case zeros
    then have "\<not> (k \<le> n \<and> n \<le> 15)" "\<not> (0 < n \<and> n \<le> 15)" using \<open>0 < k\<close> by linarith+
    then have "format_buffer b e (- 4) 15 = ''0.'' @ replicate (nat (- n)) (CHR ''0'') @ b"
      unfolding format_buffer_def Let_def k_def [symmetric] n_def [symmetric] using zeros by simp
    then show ?thesis using zeros assms(3) by (simp add: is_digit_def)
  next
    case exp
    then have "format_buffer b e (- 4) 15 = (if k = 1 then b else [hd b] @ ''.'' @ tl b) @ ''e'' @ append_exponent (n - 1)"
      using assms(1) by (auto simp: format_buffer_def Let_def k_def n_def)
    then show ?thesis using hd assms(1,3) \<open>\<And>x. length (append_exponent x) \<le> 4\<close> [of "n - 1"] by auto
  qed
qed

text \<open>The characters of a JSON number.\<close>

definition number_char :: "char \<Rightarrow> bool" where
  "number_char c \<longleftrightarrow> is_digit c \<or> c \<in> {CHR ''-'', CHR ''+'', CHR ''.'', CHR ''e''}"

lemma number_char_simps [simp]:
  "is_digit c \<Longrightarrow> number_char c" "number_char (CHR ''-'')" "number_char (CHR ''+'')" "number_char (CHR ''.'')"
  "number_char (CHR ''e'')" "number_char (CHR ''0'')"
  by (simp_all add: number_char_def is_digit_def)

lemma number_char_digit: "d < 10 \<Longrightarrow> number_char (digit_char d)"
  by simp

lemma append_exponent_chars: "\<bar>x\<bar> < 1000 \<Longrightarrow> \<forall>c\<in>set (append_exponent x). number_char c"
  by (auto simp: append_exponent_def Let_def less_mult_imp_div_less intro!: number_char_digit)

lemma format_buffer_chars:
  assumes "digits b" "b \<noteq> []" "\<bar>int (length b) + e - 1\<bar> < 1000"
  shows "\<forall>c\<in>set (format_buffer b e (- 4) 15). number_char c"
proof -
  have b: "number_char c" if "c \<in> set b" for c using that assms(1) by (auto simp: list_all_iff)
  have hd: "number_char (hd b)" using b assms(2) by simp
  have tl: "number_char c" if "c \<in> set (tl b)" for c using that b assms(2) by (meson list.set_sel(2))
  show ?thesis
    using b hd tl append_exponent_chars [OF assms(3)]
    by (auto simp: format_buffer_def Let_def dest: in_set_takeD in_set_dropD)
qed

lemma to_chars_positive:
  assumes "representable r" "0 < r" "r < 2 ^ 1024"
  obtains b e where "grisu2 r = Some (b, e)" "b \<noteq> []" "digits b" "length b \<le> 27"
    "\<forall>c\<in>set (format_buffer b e (- 4) 15). number_char c"
    "scan_double (format_buffer b e (- 4) 15) = Some (DFin r, [])"
proof -
  from grisu2_exact [OF assms] obtain b e where
    g: "grisu2 r = Some (b, e)" "b \<noteq> []" "digits b" "length b \<le> 27" "\<bar>e\<bar> \<le> 350"
    "round_rat (of_nat (dec_val b) * 10 powi e) = r" .
  have "\<bar>int (length b) + e - 1\<bar> < 1000" using g(4,5) by linarith
  from format_buffer_number [OF g(2,3) this, of "- 4" 15]
  have "scan_double (format_buffer b e (- 4) 15) = Some (to_double (of_nat (dec_val b) * 10 powi e), [])" .
  moreover have "to_double (of_nat (dec_val b) * 10 powi e) = DFin r"
    using assms(2,3) g(6) by (simp add: to_double_def Let_def)
  ultimately show thesis using that g format_buffer_chars [OF g(3,2) \<open>\<bar>int (length b) + e - 1\<bar> < 1000\<close>] by simp
qed

lemma to_chars_text:
  assumes "finite_double d"
  shows "\<exists>s. to_chars d = Some s \<and> length s \<le> 64 \<and> scan_double s = Some (d, []) \<and> s \<noteq> [] \<and> (\<forall>c\<in>set s. number_char c)"
proof (cases "dval d = 0")
  case True
  have zero: "scan_double ''0.0'' = Some (DFin 0, [])"
    using scan_double_number [of "''0''" "''0''" "''.0''" "[]" 0]
    by (simp add: is_digit_def scan_exponent_def dec_val_Cons digit_val_def to_double_exact)
  from assms True consider "d = DFin 0" | "d = DNegZero" by (cases d) (auto simp: finite_double_def)
  then show ?thesis
  proof cases
    case 1
    with zero show ?thesis by (simp add: to_chars_def)
  next
    case 2
    with zero scan_double_minus [of "''0.0''"] show ?thesis by (simp add: to_chars_def is_digit_def)
  qed
next
  case False
  then obtain r where d: "d = DFin r" "r \<noteq> 0" "representable r" "\<bar>r\<bar> < 2 ^ 1024"
    using assms by (cases d) (auto simp: finite_double_def)
  have "representable \<bar>r\<bar>" using d(3) representable_minus by (simp add: abs_if)
  from to_chars_positive [OF this] d(2,4) obtain b e where
    b: "grisu2 \<bar>r\<bar> = Some (b, e)" "b \<noteq> []" "digits b" "length b \<le> 27"
      "\<forall>c\<in>set (format_buffer b e (- 4) 15). number_char c" "scan_double (format_buffer b e (- 4) 15) = Some (DFin \<bar>r\<bar>, [])"
    by auto
  note shape = format_buffer_shape [OF b(2-4), of e]
  have result: "to_chars d = Some ((if r < 0 then ''-'' else []) @ format_buffer b e (- 4) 15)"
    using d b(1) by (simp add: to_chars_def)
  show ?thesis
  proof (cases "r < 0")
    case True
    with scan_double_minus [of "format_buffer b e (- 4) 15"] shape b(5,6) d(1,2) show ?thesis unfolding result by simp
  next
    case False
    with shape b(5,6) d(1,2) show ?thesis unfolding result by simp
  qed
qed

text \<open>C7: \<open>to_chars\<close> is total and exact. For every finite double its loops end and it returns a text
  that fits the 64 bytes of the buffer it is given, and \<open>strtod\<close> reads that text to its end as the same
  double, negative zero and subnormal numbers included.\<close>

theorem to_chars_exact:
  assumes "finite_double d"
  shows "\<exists>s. to_chars d = Some s \<and> length s \<le> 64 \<and> scan_double s = Some (d, [])"
  using to_chars_text [OF assms] by blast

theorem to_chars_exact_witness:
  "\<exists>s. to_chars (DFin (1 / 4)) = Some s \<and> scan_double s = Some (DFin (1 / 4), [])"
proof -
  have "representable (1 / 4)" using representable_scaled [of 1 2] by simp
  then have "finite_double (DFin (1 / 4))" by (simp add: finite_double_def)
  from to_chars_exact [OF this] show ?thesis by blast
qed

end
