(* ===== verification/Json_Dump.thy ===== *)
theory Json_Dump
  imports Json_Value Json_String Json_Integer Dtoa
begin

text \<open>
  \<open>serializer::dump\<close> without indentation, the call behind \<open>json::dump()\<close>: the text of a JSON
  value, with the escaping, integer and floating-point writers of the other theories. What it
  writes is read back in \<open>Json_Roundtrip\<close>.
\<close>

definition dump_float :: "double \<Rightarrow> string outcome" where
  "dump_float x =
     (if \<not> dfinite x then Inr ''null''
      else case to_chars x of Some s \<Rightarrow> Inr s | None \<Rightarrow> Inl Diverges)"

definition dump_key :: "error_handler_t \<Rightarrow> bool \<Rightarrow> string \<Rightarrow> string outcome" where
  "dump_key h ensure_ascii key = mapE (\<lambda>s. [CHR 0x22] @ s @ [CHR 0x22, CHR '':'']) (dump_escaped h ensure_ascii key)"

text \<open>The loops over the first \<open>n - 1\<close> elements write the separator after each of them.\<close>

fun dump_value :: "error_handler_t \<Rightarrow> bool \<Rightarrow> json \<Rightarrow> string outcome"
  and dump_members :: "error_handler_t \<Rightarrow> bool \<Rightarrow> (string \<times> json) list \<Rightarrow> string outcome"
  and dump_elements :: "error_handler_t \<Rightarrow> bool \<Rightarrow> json list \<Rightarrow> string outcome" where
  "dump_value h ea (JObject m) =
     (if m = [] then Inr ''{}'' else mapE (\<lambda>s. ''{'' @ s @ ''}'') (dump_members h ea m))"
| "dump_value h ea (JArray xs) =
     (if xs = [] then Inr ''[]'' else mapE (\<lambda>s. ''['' @ s @ '']'') (dump_elements h ea xs))"
| "dump_value h ea (JString s) = mapE (\<lambda>t. [CHR 0x22] @ t @ [CHR 0x22]) (dump_escaped h ea s)"
| "dump_value h ea (JBool b) = Inr (if b then ''true'' else ''false'')"
| "dump_value h ea (JInteger n) = Inr (dump_integer_signed n)"
| "dump_value h ea (JUnsigned n) = Inr (dump_integer_unsigned n)"
| "dump_value h ea (JFloat d) = dump_float d"
| "dump_value h ea JNull = Inr ''null''"
| "dump_members h ea [] = Inr []"
| "dump_members h ea ((k, v) # m) =
     bindE (dump_key h ea k) (\<lambda>ks.
     bindE (dump_value h ea v) (\<lambda>vs.
       if m = [] then Inr (ks @ vs)
       else mapE (\<lambda>rest. ks @ vs @ '','' @ rest) (dump_members h ea m)))"
| "dump_elements h ea [] = Inr []"
| "dump_elements h ea (x # xs) =
     bindE (dump_value h ea x) (\<lambda>s.
       if xs = [] then Inr s else mapE (\<lambda>rest. s @ '','' @ rest) (dump_elements h ea xs))"

text \<open>\<open>json::dump()\<close> with its default arguments.\<close>

definition json_dump :: "json \<Rightarrow> string outcome" where
  "json_dump j = dump_value strict False j"

end
