(* ===== verification/Json_Roundtrip.thy ===== *)
theory Json_Roundtrip
  imports Json_Dump Grisu_Exact
begin

text \<open>
  What \<open>json::dump()\<close> writes is JSON text, and a reader gets the value back from it: the reference
  reader, the relation between what is read and the value that was dumped, and the theorems.
\<close>

section \<open>The reader\<close>

datatype json_text =
    TNull
  | TBool bool
  | TNumber string
  | TString string
  | TArray "json_text list"
  | TObject "(string \<times> json_text) list"

definition literal :: "string \<Rightarrow> string \<Rightarrow> string option" where
  "literal w s = (if take (length w) s = w then Some (drop (length w) s) else None)"

text \<open>Recursive descent, without white space; the first argument bounds the depth.\<close>

fun read_value :: "nat \<Rightarrow> string \<Rightarrow> (json_text \<times> string) option"
  and read_members :: "nat \<Rightarrow> string \<Rightarrow> ((string \<times> json_text) list \<times> string) option"
  and read_elements :: "nat \<Rightarrow> string \<Rightarrow> (json_text list \<times> string) option" where
  "read_value 0 s = None"
| "read_value (Suc n) s =
     (case s of
        [] \<Rightarrow> None
      | c # r \<Rightarrow>
          if c = CHR ''n'' then map_option (\<lambda>r. (TNull, r)) (literal ''null'' s)
          else if c = CHR ''t'' then map_option (\<lambda>r. (TBool True, r)) (literal ''true'' s)
          else if c = CHR ''f'' then map_option (\<lambda>r. (TBool False, r)) (literal ''false'' s)
          else if c = CHR 0x22 then map_option (\<lambda>(t, r). (TString t, r)) (read_string r)
          else if c = CHR ''['' then
            (if take 1 r = '']'' then Some (TArray [], drop 1 r)
             else map_option (\<lambda>(xs, r). (TArray xs, r)) (read_elements n r))
          else if c = CHR ''{'' then
            (if take 1 r = ''}'' then Some (TObject [], drop 1 r)
             else map_option (\<lambda>(m, r). (TObject m, r)) (read_members n r))
          else if number_char c then Some (TNumber (takeWhile number_char s), dropWhile number_char s)
          else None)"
| "read_members 0 s = None"
| "read_members (Suc n) s =
     (if take 1 s = [CHR 0x22]
      then case read_string (drop 1 s) of
             None \<Rightarrow> None
           | Some (k, r) \<Rightarrow>
               (case literal '':'' r of
                  None \<Rightarrow> None
                | Some r1 \<Rightarrow>
                    (case read_value n r1 of
                       None \<Rightarrow> None
                     | Some (v, r2) \<Rightarrow>
                         if take 1 r2 = ''}'' then Some ([(k, v)], drop 1 r2)
                         else if take 1 r2 = '','' then map_option (\<lambda>(m, r). ((k, v) # m, r)) (read_members n (drop 1 r2))
                         else None))
      else None)"
| "read_elements 0 s = None"
| "read_elements (Suc n) s =
     (case read_value n s of
        None \<Rightarrow> None
      | Some (v, r) \<Rightarrow>
          if take 1 r = '']'' then Some ([v], drop 1 r)
          else if take 1 r = '','' then map_option (\<lambda>(xs, r). (v # xs, r)) (read_elements n (drop 1 r))
          else None)"

text \<open>The whole text is one value.\<close>

definition read_json :: "string \<Rightarrow> json_text option" where
  "read_json s = (case read_value (length s) s of Some (t, []) \<Rightarrow> Some t | _ \<Rightarrow> None)"

section \<open>What a text denotes\<close>

text \<open>
  A number denotes an integer as its decimal numeral and a float as the text \<open>strtod\<close> reads as
  exactly that double. Infinities and NaN have no number in JSON and are null.
\<close>

definition signed_numeral :: "int \<Rightarrow> string" where
  "signed_numeral i = (if i < 0 then ''-'' @ dec_str (nat (- i)) else dec_str (nat i))"

inductive json_denotes :: "json_text \<Rightarrow> json \<Rightarrow> bool" where
  null: "json_denotes TNull JNull"
| bool: "json_denotes (TBool b) (JBool b)"
| str: "json_denotes (TString s) (JString s)"
| unsigned: "json_denotes (TNumber (dec_str (unat n))) (JUnsigned n)"
| signed: "json_denotes (TNumber (signed_numeral (sint n))) (JInteger n)"
| double: "dfinite d \<Longrightarrow> scan_double s = Some (d, []) \<Longrightarrow> json_denotes (TNumber s) (JFloat d)"
| no_double: "\<not> dfinite d \<Longrightarrow> json_denotes TNull (JFloat d)"
| array: "list_all2 json_denotes ts xs \<Longrightarrow> json_denotes (TArray ts) (JArray xs)"
| object: "list_all2 (rel_prod (=) json_denotes) ts m \<Longrightarrow> json_denotes (TObject ts) (JObject m)"

text \<open>Every float is a binary64 value, and every string and key is UTF-8 text.\<close>

fun json_doubles :: "json \<Rightarrow> bool" where
  "json_doubles (JObject m) \<longleftrightarrow> (\<forall>(k, v)\<in>set m. json_doubles v)"
| "json_doubles (JArray xs) \<longleftrightarrow> (\<forall>x\<in>set xs. json_doubles x)"
| "json_doubles (JFloat d) \<longleftrightarrow> dfinite d \<longrightarrow> finite_double d"
| "json_doubles _ \<longleftrightarrow> True"

definition utf8_text :: "string \<Rightarrow> bool" where
  "utf8_text s \<longleftrightarrow> fst (nrun 0 0 (map of_char s)) = 0"

lemma utf8_text_iff: "utf8_text s \<longleftrightarrow> (\<exists>xs. (\<forall>x\<in>set xs. scalar_value x) \<and> s = text_of xs)"
  by (simp add: utf8_text_def utf8_text_cases [of s 0])

fun json_utf8 :: "json \<Rightarrow> bool" where
  "json_utf8 (JObject m) \<longleftrightarrow> (\<forall>(k, v)\<in>set m. utf8_text k \<and> json_utf8 v)"
| "json_utf8 (JArray xs) \<longleftrightarrow> (\<forall>x\<in>set xs. json_utf8 x)"
| "json_utf8 (JString s) \<longleftrightarrow> utf8_text s"
| "json_utf8 _ \<longleftrightarrow> True"

section \<open>When dumping succeeds\<close>

lemma dump_escaped_cases:
  obtains t where "utf8_text s" "dump_escaped strict ea s = Inr t"
  | "\<not> utf8_text s" "dump_escaped strict ea s = Inl (Json_Error 316)"
  using dump_escaped_text dump_escaped_invalid unfolding utf8_text_iff by metis

lemma dump_float_text:
  assumes "dfinite d \<longrightarrow> finite_double d"
  obtains s where "dump_float d = Inr s" "dfinite d" "s \<noteq> []" "\<forall>c\<in>set s. number_char c" "scan_double s = Some (d, [])"
  | "dump_float d = Inr ''null''" "\<not> dfinite d"
  using to_chars_text [of d] assms by (cases "dfinite d") (auto simp: dump_float_def)

definition dumps :: "bool \<Rightarrow> string outcome \<Rightarrow> bool" where
  "dumps ok r \<longleftrightarrow> (if ok then \<exists>s. r = Inr s else r = Inl (Json_Error 316))"

lemma dumps_Inr [simp]: "dumps ok (Inr s) = ok"
  by (simp add: dumps_def)

lemma dumps_mapE [simp]: "dumps ok (mapE f r) = dumps ok r"
  by (cases r) (simp_all add: dumps_def)

lemma dumps_bindE: "dumps a m \<Longrightarrow> (\<And>x. m = Inr x \<Longrightarrow> dumps b (f x)) \<Longrightarrow> dumps (a \<and> b) (bindE m f)"
  by (cases m) (auto simp: dumps_def split: if_splits)

lemma dumps_escaped [simp]: "dumps ok (dump_escaped strict ea s) \<longleftrightarrow> ok = utf8_text s"
  by (cases rule: dump_escaped_cases [of s ea]) (auto simp: dumps_def)

lemma dumps_float: "dfinite d \<longrightarrow> finite_double d \<Longrightarrow> dumps True (dump_float d)"
  by (rule dump_float_text [of d]) simp_all

lemma dumps_value:
  "h = strict \<Longrightarrow> json_doubles j \<Longrightarrow> dumps (json_utf8 j) (dump_value h ea j)"
  "h = strict \<Longrightarrow> json_doubles (JObject m) \<Longrightarrow> dumps (json_utf8 (JObject m)) (dump_members h ea m)"
  "h = strict \<Longrightarrow> json_doubles (JArray xs) \<Longrightarrow> dumps (json_utf8 (JArray xs)) (dump_elements h ea xs)"
proof (induction h ea j and h ea m and h ea xs rule: dump_value_dump_members_dump_elements.induct)
  case (10 h ea k v m)
  have "dumps (utf8_text k) (dump_key h ea k)" using 10 by (simp add: dump_key_def)
  then have "dumps (utf8_text k \<and> json_utf8 v \<and> json_utf8 (JObject m)) (dump_members h ea ((k, v) # m))"
    unfolding dump_members.simps
    by (intro dumps_bindE) (use 10 in auto)
  then show ?case by (simp add: conj_assoc)
next
  case (12 h ea x xs)
  have "dumps (json_utf8 x \<and> json_utf8 (JArray xs)) (dump_elements h ea (x # xs))"
    unfolding dump_elements.simps
    by (intro dumps_bindE) (use 12 in auto)
  then show ?case by simp
qed (auto simp: dumps_float)

section \<open>What is written can be read\<close>

text \<open>No character that would continue a number follows a value.\<close>

definition ends :: "string \<Rightarrow> bool" where
  "ends s \<longleftrightarrow> s = [] \<or> \<not> number_char (hd s)"

lemma ends_simps [simp]: "ends []" "ends (c # s) \<longleftrightarrow> \<not> number_char c"
  by (simp_all add: ends_def)

lemma not_number_chars [simp]:
  "\<not> number_char (CHR '','')" "\<not> number_char (CHR '']'')" "\<not> number_char (CHR ''}'')" "\<not> number_char (CHR ''n'')"
  "\<not> number_char (CHR ''t'')" "\<not> number_char (CHR ''f'')" "\<not> number_char (CHR 0x22)" "\<not> number_char (CHR ''['')"
  "\<not> number_char (CHR ''{'')"
  by (simp_all add: number_char_def is_digit_def)

lemma span_number:
  "\<forall>c\<in>set s. number_char c \<Longrightarrow> ends r \<Longrightarrow> takeWhile number_char (s @ r) = s \<and> dropWhile number_char (s @ r) = r"
  by (induction s) (cases r; simp)+

lemma read_number:
  assumes "s \<noteq> []" "\<forall>c\<in>set s. number_char c" "ends r"
  shows "read_value (Suc n) (s @ r) = Some (TNumber s, r)"
proof -
  obtain c t where s: "s = c # t" using assms(1) by (cases s) auto
  then have "number_char c" using assms(2) by simp
  then have "c \<notin> {CHR ''n'', CHR ''t'', CHR ''f'', CHR 0x22, CHR ''['', CHR ''{''}" using not_number_chars by auto
  then show ?thesis using span_number [OF assms(2,3)] \<open>number_char c\<close> s by simp
qed

text \<open>The text of a value is read whatever may follow it, with its length as the bound.\<close>

definition readable :: "json \<Rightarrow> string \<Rightarrow> bool" where
  "readable j s \<longleftrightarrow> s \<noteq> [] \<and> hd s \<noteq> CHR '']'' \<and>
     (\<exists>t. json_denotes t j \<and> (\<forall>n r. length s \<le> n \<longrightarrow> ends r \<longrightarrow> read_value n (s @ r) = Some (t, r)))"

lemma readableI:
  assumes "json_denotes t j" "s \<noteq> []" "hd s \<noteq> CHR '']''"
    and "\<And>n r. length s \<le> Suc n \<Longrightarrow> ends r \<Longrightarrow> read_value (Suc n) (s @ r) = Some (t, r)"
  shows "readable j s"
  unfolding readable_def
proof (intro conjI exI allI impI)
  fix n r
  assume "length s \<le> n" "ends r"
  then show "read_value n (s @ r) = Some (t, r)" using assms(2,4) by (cases n) auto
qed (use assms in auto)

lemma readable_number:
  assumes "json_denotes (TNumber s) j" "s \<noteq> []" "\<forall>c\<in>set s. number_char c"
  shows "readable j s"
proof (rule readableI [OF assms(1,2)])
  show "hd s \<noteq> CHR '']''" using assms(2,3) not_number_chars(2) hd_in_set [of s] by metis
qed (use assms read_number in blast)

definition readable_members :: "(string \<times> json) list \<Rightarrow> string \<Rightarrow> bool" where
  "readable_members m s \<longleftrightarrow> (\<exists>ts. list_all2 (rel_prod (=) json_denotes) ts m \<and>
     (\<forall>n r. length s < n \<longrightarrow> read_members n (s @ CHR ''}'' # r) = Some (ts, r)))"

definition readable_elements :: "json list \<Rightarrow> string \<Rightarrow> bool" where
  "readable_elements xs s \<longleftrightarrow> s \<noteq> [] \<and> hd s \<noteq> CHR '']'' \<and> (\<exists>ts. list_all2 json_denotes ts xs \<and>
     (\<forall>n r. length s < n \<longrightarrow> read_elements n (s @ CHR '']'' # r) = Some (ts, r)))"

lemma readable_read: "readable j s \<Longrightarrow> \<exists>t. json_denotes t j \<and> (\<forall>n r. length s \<le> n \<longrightarrow> ends r \<longrightarrow> read_value n (s @ r) = Some (t, r))"
  by (simp add: readable_def)

lemma readable_hd: "readable j s \<Longrightarrow> s \<noteq> [] \<and> hd s \<noteq> CHR '']''"
  by (simp add: readable_def)

lemma readable_element: "readable j s \<Longrightarrow> readable_elements [j] s"
proof -
  assume s: "readable j s"
  from readable_read [OF s] obtain t where t: "json_denotes t j" "\<And>n r. length s \<le> n \<Longrightarrow> ends r \<Longrightarrow> read_value n (s @ r) = Some (t, r)"
    by auto
  have "read_elements n (s @ CHR '']'' # r) = Some ([t], r)" if "length s < n" for n r
    using that t(2) by (cases n) simp_all
  then show ?thesis using t(1) readable_hd [OF s] unfolding readable_elements_def by auto
qed

lemma readable_element_more: "readable j s \<Longrightarrow> readable_elements xs u \<Longrightarrow> readable_elements (j # xs) (s @ '','' @ u)"
proof -
  assume s: "readable j s" and u: "readable_elements xs u"
  from readable_read [OF s] obtain t where t: "json_denotes t j" "\<And>n r. length s \<le> n \<Longrightarrow> ends r \<Longrightarrow> read_value n (s @ r) = Some (t, r)"
    by auto
  from u obtain ts where ts: "list_all2 json_denotes ts xs" "\<And>n r. length u < n \<Longrightarrow> read_elements n (u @ CHR '']'' # r) = Some (ts, r)"
    by (auto simp: readable_elements_def)
  have "read_elements n ((s @ '','' @ u) @ CHR '']'' # r) = Some (t # ts, r)" if "length (s @ '','' @ u) < n" for n r
    using that t(2) ts(2) readable_hd [OF s] by (cases n) simp_all
  then show ?thesis using t(1) ts(1) readable_hd [OF s] unfolding readable_elements_def by auto
qed

lemma readable_array: "readable_elements xs s \<Longrightarrow> readable (JArray xs) (''['' @ s @ '']'')"
proof -
  assume s: "readable_elements xs s"
  then obtain ts where ts: "list_all2 json_denotes ts xs" "\<And>n r. length s < n \<Longrightarrow> read_elements n (s @ CHR '']'' # r) = Some (ts, r)"
    by (auto simp: readable_elements_def)
  have hd: "take 1 (s @ CHR '']'' # r) \<noteq> '']''" for r using s by (cases s) (auto simp: readable_elements_def)
  show ?thesis
    by (rule readableI [of "TArray ts"]) (use ts hd in \<open>auto intro: json_denotes.intros\<close>)
qed

lemma read_member:
  assumes "readable j s" "dump_key strict ea k = Inr ks"
  obtains t where "json_denotes t j"
    "\<And>n r. length s \<le> n \<Longrightarrow> ends r \<Longrightarrow> read_members (Suc n) (ks @ s @ r) =
       (if take 1 r = ''}'' then Some ([(k, t)], drop 1 r)
        else if take 1 r = '','' then map_option (\<lambda>(m, r). ((k, t) # m, r)) (read_members n (drop 1 r)) else None)"
proof -
  from readable_read [OF assms(1)] obtain t where t: "json_denotes t j" "\<And>n r. length s \<le> n \<Longrightarrow> ends r \<Longrightarrow> read_value n (s @ r) = Some (t, r)"
    by auto
  from assms(2) obtain u where u: "dump_escaped strict ea k = Inr u" "ks = CHR 0x22 # u @ [CHR 0x22, CHR '':'']"
    by (auto simp: dump_key_def mapE_eq_Inr)
  have "read_string (u @ CHR 0x22 # CHR '':'' # r) = Some (k, CHR '':'' # r)" for r
    using dump_escaped_read [OF u(1)] .
  with t show thesis using that by (simp add: u(2) literal_def)
qed

lemma readable_member: "dump_key strict ea k = Inr ks \<Longrightarrow> readable j s \<Longrightarrow> readable_members [(k, j)] (ks @ s)"
proof -
  assume k: "dump_key strict ea k = Inr ks" and s: "readable j s"
  obtain t where t: "json_denotes t j" "\<And>n r. length s \<le> n \<Longrightarrow> ends r \<Longrightarrow> read_members (Suc n) (ks @ s @ r) =
       (if take 1 r = ''}'' then Some ([(k, t)], drop 1 r)
        else if take 1 r = '','' then map_option (\<lambda>(m, r). ((k, t) # m, r)) (read_members n (drop 1 r)) else None)"
    using read_member [OF s k] by metis
  have "read_members n ((ks @ s) @ CHR ''}'' # r) = Some ([(k, t)], r)" if "length (ks @ s) < n" for n r
    using that t(2) by (cases n) (simp_all del: read_members.simps)
  then show ?thesis using t(1) unfolding readable_members_def by (intro exI [of _ "[(k, t)]"]) simp
qed

lemma readable_member_more:
  "dump_key strict ea k = Inr ks \<Longrightarrow> readable j s \<Longrightarrow> readable_members m u \<Longrightarrow> readable_members ((k, j) # m) (ks @ s @ '','' @ u)"
proof -
  assume k: "dump_key strict ea k = Inr ks" and s: "readable j s" and u: "readable_members m u"
  obtain t where t: "json_denotes t j" "\<And>n r. length s \<le> n \<Longrightarrow> ends r \<Longrightarrow> read_members (Suc n) (ks @ s @ r) =
       (if take 1 r = ''}'' then Some ([(k, t)], drop 1 r)
        else if take 1 r = '','' then map_option (\<lambda>(m, r). ((k, t) # m, r)) (read_members n (drop 1 r)) else None)"
    using read_member [OF s k] by metis
  from u obtain ts where ts: "list_all2 (rel_prod (=) json_denotes) ts m"
    "\<And>n r. length u < n \<Longrightarrow> read_members n (u @ CHR ''}'' # r) = Some (ts, r)"
    by (auto simp: readable_members_def)
  have "read_members n ((ks @ s @ '','' @ u) @ CHR ''}'' # r) = Some ((k, t) # ts, r)"
    if "length (ks @ s @ '','' @ u) < n" for n r
    using that t(2) ts(2) by (cases n) (simp_all del: read_members.simps)
  then show ?thesis using t(1) ts(1) unfolding readable_members_def by (intro exI [of _ "(k, t) # ts"]) simp
qed

lemma dump_key_hd: "dump_key h ea k = Inr ks \<Longrightarrow> \<exists>u. ks = CHR 0x22 # u"
  by (auto simp: dump_key_def mapE_eq_Inr)

lemma readable_object:
  assumes "readable_members m s" "hd s = CHR 0x22" "s \<noteq> []"
  shows "readable (JObject m) (''{'' @ s @ ''}'')"
proof -
  from assms(1) obtain ts where ts: "list_all2 (rel_prod (=) json_denotes) ts m"
    "\<And>n r. length s < n \<Longrightarrow> read_members n (s @ CHR ''}'' # r) = Some (ts, r)"
    by (auto simp: readable_members_def)
  have hd: "take 1 (s @ CHR ''}'' # r) \<noteq> ''}''" for r using assms(2,3) by (cases s) auto
  show ?thesis
    by (rule readableI [of "TObject ts"]) (use ts hd in \<open>auto intro: json_denotes.intros\<close>)
qed

lemma signed_numeral_chars: "signed_numeral i \<noteq> [] \<and> (\<forall>c\<in>set (signed_numeral i). number_char c)"
  by (auto simp: signed_numeral_def dest: dec_str_digits)

lemma dump_readable:
  "h = strict \<Longrightarrow> json_doubles j \<Longrightarrow> dump_value h ea j = Inr s \<Longrightarrow> readable j s"
  "h = strict \<Longrightarrow> json_doubles (JObject m) \<Longrightarrow> m \<noteq> [] \<Longrightarrow> dump_members h ea m = Inr s \<Longrightarrow>
     readable_members m s \<and> s \<noteq> [] \<and> hd s = CHR 0x22"
  "h = strict \<Longrightarrow> json_doubles (JArray xs) \<Longrightarrow> xs \<noteq> [] \<Longrightarrow> dump_elements h ea xs = Inr s \<Longrightarrow> readable_elements xs s"
proof (induction h ea j and h ea m and h ea xs arbitrary: s and s and s rule: dump_value_dump_members_dump_elements.induct)
  case (1 h ea m)
  show ?case
  proof (cases "m = []")
    case True
    with 1 show ?thesis
      by (intro readableI [of "TObject []"]) (auto intro: json_denotes.object)
  next
    case False
    with 1 show ?thesis using readable_object by (auto simp: mapE_eq_Inr)
  qed
next
  case (2 h ea xs)
  show ?case
  proof (cases "xs = []")
    case True
    with 2 show ?thesis
      by (intro readableI [of "TArray []"]) (auto intro: json_denotes.array)
  next
    case False
    with 2 show ?thesis using readable_array by (auto simp: mapE_eq_Inr)
  qed
next
  case (3 h ea u)
  then obtain t where "dump_escaped strict ea u = Inr t" "s = CHR 0x22 # t @ [CHR 0x22]"
    by (auto simp: mapE_eq_Inr)
  then show ?case
    using dump_escaped_read [of ea u t] by (intro readableI [of "TString u"]) (auto intro: json_denotes.str)
next
  case (4 h ea b)
  then show ?case
    by (intro readableI [of "TBool b"]) (auto intro: json_denotes.bool simp: literal_def split: if_splits)
next
  case (5 h ea n)
  then have "s = signed_numeral (sint n)" by (simp add: dump_signed_text signed_numeral_def)
  then show ?case using signed_numeral_chars json_denotes.signed by (auto intro: readable_number)
next
  case (6 h ea n)
  then show ?case using json_denotes.unsigned [of n] by (intro readable_number) (auto simp: dump_unsigned_text dest: dec_str_digits)
next
  case (7 h ea d)
  then have "dfinite d \<longrightarrow> finite_double d" "dump_float d = Inr s" by simp_all
  then consider "dfinite d" "s \<noteq> []" "\<forall>c\<in>set s. number_char c" "scan_double s = Some (d, [])"
    | "s = ''null''" "\<not> dfinite d"
    using dump_float_text [of d] by (metis sum.inject(2))
  then show ?case
  proof cases
    case 1
    then show ?thesis by (intro readable_number json_denotes.double) auto
  next
    case 2
    then show ?thesis by (intro readableI [of TNull]) (auto intro: json_denotes.no_double simp: literal_def)
  qed
next
  case (8 h ea)
  then show ?case by (intro readableI [of TNull]) (auto intro: json_denotes.null simp: literal_def)
next
  case (9 h ea)
  then show ?case by simp
next
  case (10 h ea k v m)
  then obtain ks vs where kv: "dump_key strict ea k = Inr ks" "dump_value strict ea v = Inr vs" "readable v vs"
    by (auto simp: bindE_eq_Inr)
  show ?case
  proof (cases "m = []")
    case True
    with 10 kv dump_key_hd [OF kv(1)] show ?thesis by (auto simp: intro: readable_member)
  next
    case False
    with 10(3,6) kv obtain u where u: "dump_members strict ea m = Inr u" "s = ks @ vs @ '','' @ u"
      by (auto simp: bindE_eq_Inr mapE_eq_Inr)
    with 10 kv False have "readable_members m u" by auto
    with u kv dump_key_hd [OF kv(1)] show ?thesis using readable_member_more [OF kv(1,3)] by auto
  qed
next
  case (11 h ea)
  then show ?case by simp
next
  case (12 h ea x xs)
  then obtain xs' where kv: "dump_value strict ea x = Inr xs'" "readable x xs'" by (auto simp: bindE_eq_Inr)
  show ?case
  proof (cases "xs = []")
    case True
    with 12 kv show ?thesis by (auto intro: readable_element)
  next
    case False
    with 12 kv obtain u where u: "dump_elements strict ea xs = Inr u" "s = xs' @ '','' @ u"
      by (auto simp: bindE_eq_Inr mapE_eq_Inr)
    with 12 kv False have "readable_elements xs u" by auto
    with u kv show ?thesis using readable_element_more [OF kv(2)] by auto
  qed
qed

lemma json_dump_cases:
  "json_doubles j \<Longrightarrow> if json_utf8 j then \<exists>s. json_dump j = Inr s else json_dump j = Inl (Json_Error 316)"
  using dumps_value(1) [OF refl] by (simp add: json_dump_def dumps_def)

lemma json_dump_readable: "json_doubles j \<Longrightarrow> json_dump j = Inr s \<Longrightarrow> \<exists>t. json_denotes t j \<and> read_json s = Some t"
  unfolding json_dump_def read_json_def
  using readable_read [OF dump_readable(1) [OF refl]] by (metis append.right_neutral ends_simps(1) order_refl list.simps(4) option.simps(5) prod.case)

text \<open>C6: \<open>json::dump()\<close> succeeds exactly on the values whose strings and keys are UTF-8 text; then it
  writes JSON text, from which a reader gets the value that was dumped: the same structure and strings,
  the numbers exactly, infinities and NaN as null. On the others it throws \<open>type_error.316\<close>.\<close>

theorem json_dump_roundtrip:
  assumes "json_doubles j"
  shows "if json_utf8 j then \<exists>s t. json_dump j = Inr s \<and> read_json s = Some t \<and> json_denotes t j
         else json_dump j = Inl (Json_Error 316)"
  using json_dump_cases [OF assms] json_dump_readable [OF assms] by metis

theorem json_dump_roundtrip_witness:
  "\<exists>s t. json_dump (JObject [(''sda'', JArray [JFloat DNegZero, JNull])]) = Inr s
     \<and> read_json s = Some t \<and> json_denotes t (JObject [(''sda'', JArray [JFloat DNegZero, JNull])])"
proof -
  have "utf8_text ''sda''" by (simp add: utf8_text_def) code_simp
  then show ?thesis
    using json_dump_roundtrip [of "JObject [(''sda'', JArray [JFloat DNegZero, JNull])]"]
    by (simp add: finite_double_def)
qed

end
