(* ===== verification/Effects.thy ===== *)
theory Effects
  imports Prelude
begin

text \<open>
  Code with effects: a computation takes the state of the world (what the operating system, the
  C library and libzmq keep) and returns an outcome with the new state. An exception keeps the
  effects that happened before it. The combinators are sequence, exception, test and a loop
  with fuel.
\<close>

section \<open>Computations\<close>

type_synonym ('w, 'a) io = "'w \<Rightarrow> 'a outcome \<times> 'w"

definition returnIO :: "'a \<Rightarrow> ('w, 'a) io" where
  "returnIO x w = (Inr x, w)"

definition throwIO :: "fault \<Rightarrow> ('w, 'a) io" where
  "throwIO e w = (Inl e, w)"

definition bindIO :: "('w, 'a) io \<Rightarrow> ('a \<Rightarrow> ('w, 'b) io) \<Rightarrow> ('w, 'b) io" where
  "bindIO m f w = (case m w of (Inl e, w') \<Rightarrow> (Inl e, w') | (Inr x, w') \<Rightarrow> f x w')"

definition thenIO :: "('w, 'a) io \<Rightarrow> ('w, 'b) io \<Rightarrow> ('w, 'b) io" where
  "thenIO m n = bindIO m (\<lambda>_. n)"

definition liftIO :: "'a outcome \<Rightarrow> ('w, 'a) io" where
  "liftIO r w = (r, w)"

text \<open>\<open>assert\<close>, in a build that keeps it.\<close>

definition assertIO :: "bool \<Rightarrow> ('w, unit) io" where
  "assertIO b = (if b then returnIO () else throwIO Assert_Failed)"

text \<open>
  An exception runs the destructors of the local variables on its way; a failed assertion ends the
  program, and after an undefined operation nothing is promised, so those run none.
\<close>

fun thrown :: "fault \<Rightarrow> bool" where
  "thrown Out_Of_Range = True"
| "thrown Range_Error = True"
| "thrown Runtime_Error = True"
| "thrown Invalid_Argument = True"
| "thrown (Json_Error n) = True"
| "thrown (Zmq_Error n) = True"
| "thrown _ = False"

definition unwinding :: "('w, 'a) io \<Rightarrow> ('w \<Rightarrow> ('w, unit) io) \<Rightarrow> ('w, 'a) io" where
  "unwinding m d w =
     (case m w of
        (Inl e, w') \<Rightarrow> if thrown e then thenIO (d w) (throwIO e) w' else (Inl e, w')
      | (Inr x, w') \<Rightarrow> (Inr x, w'))"

named_theorems io_simps "evaluation of computations"

lemma returnIO_eq [simp, io_simps]: "returnIO x w = (Inr x, w)"
  by (simp add: returnIO_def)

lemma throwIO_eq [simp, io_simps]: "throwIO e w = (Inl e, w)"
  by (simp add: throwIO_def)

lemma liftIO_eq [simp, io_simps]: "liftIO r w = (r, w)"
  by (simp add: liftIO_def)

lemma bindIO_simps [io_simps]:
  "m w = (Inl e, w') \<Longrightarrow> bindIO m f w = (Inl e, w')"
  "m w = (Inr x, w') \<Longrightarrow> bindIO m f w = f x w'"
  by (simp_all add: bindIO_def)

lemma bindIO_return [simp, io_simps]: "bindIO (returnIO x) f = f x"
  by (rule ext) (simp add: bindIO_def)

lemma bindIO_throw [simp, io_simps]: "bindIO (throwIO e) f = throwIO e"
  by (rule ext) (simp add: bindIO_def)

lemma bindIO_return_right [simp]: "bindIO m returnIO = m"
  by (rule ext) (auto simp: bindIO_def split: prod.split sum.split)

lemma bindIO_assoc: "bindIO (bindIO m f) g = bindIO m (\<lambda>x. bindIO (f x) g)"
  by (rule ext) (auto simp: bindIO_def split: prod.split sum.split)

lemma thenIO_assoc: "thenIO (thenIO m n) p = thenIO m (thenIO n p)"
  by (simp add: thenIO_def bindIO_assoc)

lemma assertIO_simps [simp, io_simps]:
  "assertIO True = returnIO ()" "assertIO False = throwIO Assert_Failed"
  by (simp_all add: assertIO_def)

lemma bindIO_Inr:
  "bindIO m f w = (Inr y, w'') \<longleftrightarrow> (\<exists>x w'. m w = (Inr x, w') \<and> f x w' = (Inr y, w''))"
  by (auto simp: bindIO_def split: prod.splits sum.splits)

lemma bindIO_Inl:
  "bindIO m f w = (Inl e, w'') \<longleftrightarrow>
   m w = (Inl e, w'') \<or> (\<exists>x w'. m w = (Inr x, w') \<and> f x w' = (Inl e, w''))"
  by (auto simp: bindIO_def split: prod.splits sum.splits)

lemma bindIO_cases:
  assumes "bindIO m f w = (r, w')"
  obtains (throws) e where "r = Inl e" "m w = (Inl e, w')"
    | (goes_on) x w1 where "m w = (Inr x, w1)" "f x w1 = (r, w')"
  using assms by (auto simp: bindIO_def split: prod.splits sum.splits)

lemma thenIO_cases:
  assumes "thenIO m n w = (r, w')"
  obtains (throws) e where "r = Inl e" "m w = (Inl e, w')"
    | (goes_on) x w1 where "m w = (Inr x, w1)" "n w1 = (r, w')"
  using assms by (auto simp: thenIO_def elim: bindIO_cases)

lemma thenIO_Inr:
  "thenIO m n w = (Inr y, w'') \<longleftrightarrow> (\<exists>x w'. m w = (Inr x, w') \<and> n w' = (Inr y, w''))"
  by (simp add: thenIO_def bindIO_Inr)

section \<open>What a computation leaves alone\<close>

text \<open>\<open>keeps f m\<close>: the observation \<open>f\<close> of the world is the same after \<open>m\<close>, also when it throws.\<close>

definition keeps :: "('w \<Rightarrow> 'o) \<Rightarrow> ('w, 'a) io \<Rightarrow> bool" where
  "keeps f m \<longleftrightarrow> (\<forall>w. f (snd (m w)) = f w)"

named_theorems keeps_intros "computations that keep an observation"

lemma keepsD: "keeps f m \<Longrightarrow> m w = (r, w') \<Longrightarrow> f w' = f w"
  unfolding keeps_def by (metis snd_conv)

lemma keeps_return [keeps_intros]: "keeps f (returnIO x)"
  by (simp add: keeps_def)

lemma keeps_throw [keeps_intros]: "keeps f (throwIO e)"
  by (simp add: keeps_def)

lemma keeps_lift [keeps_intros]: "keeps f (liftIO r)"
  by (simp add: keeps_def)

lemma keeps_assert [keeps_intros]: "keeps f (assertIO b)"
  by (simp add: assertIO_def keeps_intros)

lemma keeps_bind [keeps_intros]: "keeps f m \<Longrightarrow> (\<And>x. keeps f (g x)) \<Longrightarrow> keeps f (bindIO m g)"
  by (auto simp: keeps_def bindIO_def split: prod.splits sum.splits) (metis snd_conv)+

lemma keeps_then [keeps_intros]: "keeps f m \<Longrightarrow> keeps f n \<Longrightarrow> keeps f (thenIO m n)"
  by (simp add: thenIO_def keeps_bind)

lemma unwinding_Inr: "unwinding m d w = (Inr x, w') \<longleftrightarrow> m w = (Inr x, w')"
  by (auto simp: unwinding_def thenIO_def bindIO_def split: prod.splits sum.splits if_splits)

lemma keeps_unwinding [keeps_intros]: "keeps f m \<Longrightarrow> (\<And>w. keeps f (d w)) \<Longrightarrow> keeps f (unwinding m d)"
  by (auto simp: keeps_def unwinding_def thenIO_def bindIO_def split: prod.splits sum.splits) (metis snd_conv)+

lemma keeps_if [keeps_intros]: "(b \<Longrightarrow> keeps f m) \<Longrightarrow> (\<not> b \<Longrightarrow> keeps f n) \<Longrightarrow> keeps f (if b then m else n)"
  by simp

section \<open>Objects beside the world\<close>

text \<open>
  A member function runs on the world and the object it belongs to, so that an exception keeps
  what the object has become.
\<close>

definition on_world :: "('w, 'a) io \<Rightarrow> ('w \<times> 's, 'a) io" where
  "on_world m s = (case m (fst s) of (r, w') \<Rightarrow> (r, (w', snd s)))"

definition put_object :: "'s \<Rightarrow> ('w \<times> 's, unit) io" where
  "put_object x s = (Inr (), (fst s, x))"

lemma on_world_eq: "on_world m (w, x) = (case m w of (r, w') \<Rightarrow> (r, (w', x)))"
  by (simp add: on_world_def)

lemma on_world_Inr [io_simps]: "on_world m (w, x) = (Inr y, s') \<longleftrightarrow> (\<exists>w'. m w = (Inr y, w') \<and> s' = (w', x))"
  by (auto simp: on_world_def split: prod.splits)

lemma on_world_Inl [io_simps]: "on_world m (w, x) = (Inl e, s') \<longleftrightarrow> (\<exists>w'. m w = (Inl e, w') \<and> s' = (w', x))"
  by (auto simp: on_world_def split: prod.splits)

lemma keeps_on_world [keeps_intros]:
  "keeps f m \<Longrightarrow> keeps (\<lambda>s. f (fst s)) (on_world m)"
  "keeps snd (on_world m)"
  by (auto simp: keeps_def on_world_def split: prod.split) (metis snd_conv)+

lemma keeps_put_object [keeps_intros]: "keeps (\<lambda>s. f (fst s)) (put_object x)"
  by (simp add: keeps_def put_object_def)

end
