(* ===== verification/Zmq_Api.thy ===== *)
theory Zmq_Api
  imports Effects
begin

text \<open>
  The C interface of libzmq as \<open>zmq.h\<close> declares it: its constants, and a record of its functions,
  which the C++ wrappers call. libzmq itself is not part of the sources, so the record is a
  parameter of every wrapper: a function takes its arguments and the state of the world and gives
  the C result, the memory it wrote and the new state. A \<open>void *\<close> handle is a number, null is 0. A
  \<open>zmq_msg_t\<close> is what its accessors \<open>zmq_msg_data\<close>, \<open>zmq_msg_size\<close> and \<open>zmq_msg_more\<close> show.
\<close>

unbundle bit_operations_syntax

section \<open>Constants\<close>

definition ZMQ_PAIR :: int where "ZMQ_PAIR = 0"

definition ZMQ_REQ :: int where "ZMQ_REQ = 3"

definition ZMQ_REP :: int where "ZMQ_REP = 4"

definition ZMQ_DONTWAIT :: int where "ZMQ_DONTWAIT = 1"

definition ZMQ_SNDMORE :: int where "ZMQ_SNDMORE = 2"

definition ZMQ_POLLIN :: int where "ZMQ_POLLIN = 1"

definition ZMQ_IO_THREADS :: int where "ZMQ_IO_THREADS = 1"

definition ZMQ_MAX_SOCKETS :: int where "ZMQ_MAX_SOCKETS = 2"

definition ZMQ_MAX_SOCKETS_DFLT :: int where "ZMQ_MAX_SOCKETS_DFLT = 1023"

definition ZMQ_LINGER :: int where "ZMQ_LINGER = 17"

definition ZMQ_HAUSNUMERO :: int where "ZMQ_HAUSNUMERO = 156384712"

definition ETERM :: int where "ETERM = ZMQ_HAUSNUMERO + 53"

text \<open>From \<open>errno.h\<close> of Linux.\<close>

definition EINTR :: int where "EINTR = 4"

definition EAGAIN :: int where "EAGAIN = 11"

definition EINVAL :: int where "EINVAL = 22"

section \<open>Messages and poll items\<close>

record zmq_msg_t =
  content :: bytes
  more_flag :: bool

text \<open>What \<open>zmq_msg_init\<close> leaves: a message without content.\<close>

definition no_msg :: zmq_msg_t where
  "no_msg = \<lparr>content = [], more_flag = False\<rparr>"

record zmq_pollitem_t =
  socket :: nat
  fd :: int
  events :: int
  revents :: int

section \<open>The functions\<close>

record 'w libzmq =
  zmq_errno :: "'w \<Rightarrow> int"
  zmq_strerror :: "int \<Rightarrow> string"
  zmq_version :: "int \<times> int \<times> int"
  zmq_msg_init :: "'w \<Rightarrow> int \<times> 'w"
  zmq_msg_init_size :: "nat \<Rightarrow> 'w \<Rightarrow> int \<times> zmq_msg_t \<times> 'w"
  zmq_msg_init_data :: "bytes \<Rightarrow> 'w \<Rightarrow> int \<times> zmq_msg_t \<times> 'w"
  zmq_msg_close :: "zmq_msg_t \<Rightarrow> 'w \<Rightarrow> int \<times> 'w"
  zmq_msg_move :: "zmq_msg_t \<Rightarrow> zmq_msg_t \<Rightarrow> 'w \<Rightarrow> int \<times> (zmq_msg_t \<times> zmq_msg_t) \<times> 'w"
  zmq_msg_copy :: "zmq_msg_t \<Rightarrow> zmq_msg_t \<Rightarrow> 'w \<Rightarrow> int \<times> (zmq_msg_t \<times> zmq_msg_t) \<times> 'w"
  zmq_msg_get :: "zmq_msg_t \<Rightarrow> int \<Rightarrow> 'w \<Rightarrow> int \<times> 'w"
  zmq_msg_gets :: "zmq_msg_t \<Rightarrow> string \<Rightarrow> 'w \<Rightarrow> string option \<times> 'w"
  zmq_ctx_new :: "'w \<Rightarrow> nat \<times> 'w"
  zmq_ctx_set :: "nat \<Rightarrow> int \<Rightarrow> int \<Rightarrow> 'w \<Rightarrow> int \<times> 'w"
  zmq_ctx_get :: "nat \<Rightarrow> int \<Rightarrow> 'w \<Rightarrow> int \<times> 'w"
  zmq_ctx_term :: "nat \<Rightarrow> 'w \<Rightarrow> int \<times> 'w"
  zmq_ctx_shutdown :: "nat \<Rightarrow> 'w \<Rightarrow> int \<times> 'w"
  zmq_socket :: "nat \<Rightarrow> int \<Rightarrow> 'w \<Rightarrow> nat \<times> 'w"
  zmq_close :: "nat \<Rightarrow> 'w \<Rightarrow> int \<times> 'w"
  zmq_bind :: "nat \<Rightarrow> string \<Rightarrow> 'w \<Rightarrow> int \<times> 'w"
  zmq_unbind :: "nat \<Rightarrow> string \<Rightarrow> 'w \<Rightarrow> int \<times> 'w"
  zmq_connect :: "nat \<Rightarrow> string \<Rightarrow> 'w \<Rightarrow> int \<times> 'w"
  zmq_disconnect :: "nat \<Rightarrow> string \<Rightarrow> 'w \<Rightarrow> int \<times> 'w"
  zmq_setsockopt :: "nat \<Rightarrow> int \<Rightarrow> bytes \<Rightarrow> 'w \<Rightarrow> int \<times> 'w"
  zmq_getsockopt :: "nat \<Rightarrow> int \<Rightarrow> bytes \<Rightarrow> 'w \<Rightarrow> int \<times> (bytes \<times> nat) \<times> 'w"
  zmq_send :: "nat \<Rightarrow> bytes \<Rightarrow> int \<Rightarrow> 'w \<Rightarrow> int \<times> 'w"
  zmq_msg_send :: "zmq_msg_t \<Rightarrow> nat \<Rightarrow> int \<Rightarrow> 'w \<Rightarrow> int \<times> zmq_msg_t \<times> 'w"
  zmq_recv :: "nat \<Rightarrow> bytes \<Rightarrow> int \<Rightarrow> 'w \<Rightarrow> int \<times> bytes \<times> 'w"
  zmq_msg_recv :: "zmq_msg_t \<Rightarrow> nat \<Rightarrow> int \<Rightarrow> 'w \<Rightarrow> int \<times> zmq_msg_t \<times> 'w"
  zmq_poll :: "zmq_pollitem_t list \<Rightarrow> int \<Rightarrow> int \<Rightarrow> 'w \<Rightarrow> int \<times> zmq_pollitem_t list \<times> 'w"
  zmq_proxy :: "nat \<Rightarrow> nat \<Rightarrow> nat \<Rightarrow> 'w \<Rightarrow> int \<times> 'w"
  zmq_socket_monitor :: "nat \<Rightarrow> string option \<Rightarrow> int \<Rightarrow> 'w \<Rightarrow> int \<times> 'w"

text \<open>
  \<open>zmq_recv\<close> and \<open>zmq_getsockopt\<close> take the memory they may write to as it was and give it as it is
  afterwards; the latter also the number of bytes it stored through \<open>optvallen_\<close>.
\<close>

section \<open>error\_t and the test of a C result\<close>

record error_t =
  errnum :: int

definition error_t_errno :: "('w, 'x) libzmq_scheme \<Rightarrow> 'w \<Rightarrow> error_t" where
  "error_t_errno lib w = \<lparr>errnum = zmq_errno lib w\<rparr>"

definition error_t_num :: "int \<Rightarrow> error_t" where
  "error_t_num err = \<lparr>errnum = err\<rparr>"

definition error_what :: "('w, 'x) libzmq_scheme \<Rightarrow> error_t \<Rightarrow> string" where
  "error_what lib e = zmq_strerror lib (errnum e)"

definition error_num :: "error_t \<Rightarrow> int" where
  "error_num e = errnum e"

text \<open>\<open>throw error_t()\<close>: the error number is read at that moment.\<close>

definition throw_errno :: "('w, 'x) libzmq_scheme \<Rightarrow> ('w, 'a) io" where
  "throw_errno lib w = (Inl (Zmq_Error (error_num (error_t_errno lib w))), w)"

text \<open>The two shapes of a call: throwing unless the result is 0, and asserting that it is 0.\<close>

definition call :: "('w, 'x) libzmq_scheme \<Rightarrow> ('w \<Rightarrow> int \<times> 'a \<times> 'w) \<Rightarrow> ('w, 'a) io" where
  "call lib f w = (case f w of (rc, x, w') \<Rightarrow> if rc \<noteq> 0 then throw_errno lib w' else (Inr x, w'))"

definition plain :: "('w \<Rightarrow> int \<times> 'w) \<Rightarrow> 'w \<Rightarrow> int \<times> unit \<times> 'w" where
  "plain f w = (case f w of (rc, w') \<Rightarrow> (rc, (), w'))"

definition assert_call :: "('w \<Rightarrow> int \<times> 'a \<times> 'w) \<Rightarrow> ('w, 'a) io" where
  "assert_call f w = (case f w of (rc, x, w') \<Rightarrow> if rc = 0 then (Inr x, w') else (Inl Assert_Failed, w'))"

lemma call_ok [io_simps]: "f w = (0, x, w') \<Longrightarrow> call lib f w = (Inr x, w')"
  by (simp add: call_def)

lemma call_fail [io_simps]:
  "f w = (rc, x, w') \<Longrightarrow> rc \<noteq> 0 \<Longrightarrow> call lib f w = (Inl (Zmq_Error (zmq_errno lib w')), w')"
  by (simp add: call_def throw_errno_def error_num_def error_t_errno_def)

lemma plain_eq [io_simps]: "f w = (rc, w') \<Longrightarrow> plain f w = (rc, (), w')"
  by (simp add: plain_def)

lemma assert_call_ok [io_simps]: "f w = (0, x, w') \<Longrightarrow> assert_call f w = (Inr x, w')"
  by (simp add: assert_call_def)

lemma throw_errno_eq [io_simps]: "throw_errno lib w = (Inl (Zmq_Error (zmq_errno lib w)), w)"
  by (simp add: throw_errno_def error_num_def error_t_errno_def)

lemma keeps_throw_errno [keeps_intros]: "keeps f (throw_errno lib)"
  by (simp add: keeps_def throw_errno_def)

lemma keeps_call [keeps_intros]:
  "(\<And>w. f (snd (snd (m w))) = f w) \<Longrightarrow> keeps f (call lib m)"
  by (auto simp: keeps_def call_def throw_errno_def split: prod.splits) (metis snd_conv)+

lemma keeps_assert_call [keeps_intros]:
  "(\<And>w. f (snd (snd (m w))) = f w) \<Longrightarrow> keeps f (assert_call m)"
  by (auto simp: keeps_def assert_call_def split: prod.splits) (metis snd_conv)+

lemma snd_plain [simp]: "snd (snd (plain f w)) = snd (f w)"
  by (simp add: plain_def split: prod.split)

end
