(* ===== verification/Zmq_Constants.thy ===== *)
theory Zmq_Constants
  imports Zmq_Api
begin

text \<open>
  The constants of \<open>zmq.h\<close> that name socket types, options of contexts and sockets, and events, and
  the enumerations \<open>socket_type\<close>, \<open>ctxopt\<close> and \<open>event_flags\<close> of \<open>zmq.hpp\<close>. The last section has the
  options that exist when \<open>ZMQ_BUILD_DRAFT_API\<close> is defined.
\<close>

section \<open>Context options\<close>

definition ZMQ_SOCKET_LIMIT :: int where "ZMQ_SOCKET_LIMIT = 3"

definition ZMQ_THREAD_PRIORITY :: int where "ZMQ_THREAD_PRIORITY = 3"

definition ZMQ_THREAD_SCHED_POLICY :: int where "ZMQ_THREAD_SCHED_POLICY = 4"

definition ZMQ_MAX_MSGSZ :: int where "ZMQ_MAX_MSGSZ = 5"

definition ZMQ_MSG_T_SIZE :: int where "ZMQ_MSG_T_SIZE = 6"

definition ZMQ_THREAD_AFFINITY_CPU_ADD :: int where "ZMQ_THREAD_AFFINITY_CPU_ADD = 7"

definition ZMQ_THREAD_AFFINITY_CPU_REMOVE :: int where "ZMQ_THREAD_AFFINITY_CPU_REMOVE = 8"

definition ZMQ_THREAD_NAME_PREFIX :: int where "ZMQ_THREAD_NAME_PREFIX = 9"

section \<open>Socket types\<close>

definition ZMQ_PUB :: int where "ZMQ_PUB = 1"

definition ZMQ_SUB :: int where "ZMQ_SUB = 2"

definition ZMQ_DEALER :: int where "ZMQ_DEALER = 5"

definition ZMQ_ROUTER :: int where "ZMQ_ROUTER = 6"

definition ZMQ_PULL :: int where "ZMQ_PULL = 7"

definition ZMQ_PUSH :: int where "ZMQ_PUSH = 8"

definition ZMQ_XPUB :: int where "ZMQ_XPUB = 9"

definition ZMQ_XSUB :: int where "ZMQ_XSUB = 10"

definition ZMQ_STREAM :: int where "ZMQ_STREAM = 11"

section \<open>Socket options\<close>

definition ZMQ_AFFINITY :: int where "ZMQ_AFFINITY = 4"

definition ZMQ_ROUTING_ID :: int where "ZMQ_ROUTING_ID = 5"

definition ZMQ_SUBSCRIBE :: int where "ZMQ_SUBSCRIBE = 6"

definition ZMQ_UNSUBSCRIBE :: int where "ZMQ_UNSUBSCRIBE = 7"

definition ZMQ_RATE :: int where "ZMQ_RATE = 8"

definition ZMQ_RECOVERY_IVL :: int where "ZMQ_RECOVERY_IVL = 9"

definition ZMQ_SNDBUF :: int where "ZMQ_SNDBUF = 11"

definition ZMQ_RCVBUF :: int where "ZMQ_RCVBUF = 12"

definition ZMQ_RCVMORE :: int where "ZMQ_RCVMORE = 13"

definition ZMQ_FD :: int where "ZMQ_FD = 14"

definition ZMQ_EVENTS :: int where "ZMQ_EVENTS = 15"

definition ZMQ_TYPE :: int where "ZMQ_TYPE = 16"

definition ZMQ_RECONNECT_IVL :: int where "ZMQ_RECONNECT_IVL = 18"

definition ZMQ_BACKLOG :: int where "ZMQ_BACKLOG = 19"

definition ZMQ_RECONNECT_IVL_MAX :: int where "ZMQ_RECONNECT_IVL_MAX = 21"

definition ZMQ_MAXMSGSIZE :: int where "ZMQ_MAXMSGSIZE = 22"

definition ZMQ_SNDHWM :: int where "ZMQ_SNDHWM = 23"

definition ZMQ_RCVHWM :: int where "ZMQ_RCVHWM = 24"

definition ZMQ_MULTICAST_HOPS :: int where "ZMQ_MULTICAST_HOPS = 25"

definition ZMQ_RCVTIMEO :: int where "ZMQ_RCVTIMEO = 27"

definition ZMQ_SNDTIMEO :: int where "ZMQ_SNDTIMEO = 28"

definition ZMQ_LAST_ENDPOINT :: int where "ZMQ_LAST_ENDPOINT = 32"

definition ZMQ_ROUTER_MANDATORY :: int where "ZMQ_ROUTER_MANDATORY = 33"

definition ZMQ_TCP_KEEPALIVE :: int where "ZMQ_TCP_KEEPALIVE = 34"

definition ZMQ_TCP_KEEPALIVE_CNT :: int where "ZMQ_TCP_KEEPALIVE_CNT = 35"

definition ZMQ_TCP_KEEPALIVE_IDLE :: int where "ZMQ_TCP_KEEPALIVE_IDLE = 36"

definition ZMQ_TCP_KEEPALIVE_INTVL :: int where "ZMQ_TCP_KEEPALIVE_INTVL = 37"

definition ZMQ_IMMEDIATE :: int where "ZMQ_IMMEDIATE = 39"

definition ZMQ_XPUB_VERBOSE :: int where "ZMQ_XPUB_VERBOSE = 40"

definition ZMQ_IPV6 :: int where "ZMQ_IPV6 = 42"

definition ZMQ_MECHANISM :: int where "ZMQ_MECHANISM = 43"

definition ZMQ_PLAIN_SERVER :: int where "ZMQ_PLAIN_SERVER = 44"

definition ZMQ_PLAIN_USERNAME :: int where "ZMQ_PLAIN_USERNAME = 45"

definition ZMQ_PLAIN_PASSWORD :: int where "ZMQ_PLAIN_PASSWORD = 46"

definition ZMQ_CURVE_SERVER :: int where "ZMQ_CURVE_SERVER = 47"

definition ZMQ_CURVE_PUBLICKEY :: int where "ZMQ_CURVE_PUBLICKEY = 48"

definition ZMQ_CURVE_SECRETKEY :: int where "ZMQ_CURVE_SECRETKEY = 49"

definition ZMQ_CURVE_SERVERKEY :: int where "ZMQ_CURVE_SERVERKEY = 50"

definition ZMQ_PROBE_ROUTER :: int where "ZMQ_PROBE_ROUTER = 51"

definition ZMQ_REQ_CORRELATE :: int where "ZMQ_REQ_CORRELATE = 52"

definition ZMQ_REQ_RELAXED :: int where "ZMQ_REQ_RELAXED = 53"

definition ZMQ_CONFLATE :: int where "ZMQ_CONFLATE = 54"

definition ZMQ_ZAP_DOMAIN :: int where "ZMQ_ZAP_DOMAIN = 55"

definition ZMQ_ROUTER_HANDOVER :: int where "ZMQ_ROUTER_HANDOVER = 56"

definition ZMQ_TOS :: int where "ZMQ_TOS = 57"

definition ZMQ_CONNECT_ROUTING_ID :: int where "ZMQ_CONNECT_ROUTING_ID = 61"

definition ZMQ_GSSAPI_SERVER :: int where "ZMQ_GSSAPI_SERVER = 62"

definition ZMQ_GSSAPI_PRINCIPAL :: int where "ZMQ_GSSAPI_PRINCIPAL = 63"

definition ZMQ_GSSAPI_SERVICE_PRINCIPAL :: int where "ZMQ_GSSAPI_SERVICE_PRINCIPAL = 64"

definition ZMQ_GSSAPI_PLAINTEXT :: int where "ZMQ_GSSAPI_PLAINTEXT = 65"

definition ZMQ_HANDSHAKE_IVL :: int where "ZMQ_HANDSHAKE_IVL = 66"

definition ZMQ_SOCKS_PROXY :: int where "ZMQ_SOCKS_PROXY = 68"

definition ZMQ_XPUB_NODROP :: int where "ZMQ_XPUB_NODROP = 69"

definition ZMQ_BLOCKY :: int where "ZMQ_BLOCKY = 70"

definition ZMQ_XPUB_MANUAL :: int where "ZMQ_XPUB_MANUAL = 71"

definition ZMQ_XPUB_WELCOME_MSG :: int where "ZMQ_XPUB_WELCOME_MSG = 72"

definition ZMQ_STREAM_NOTIFY :: int where "ZMQ_STREAM_NOTIFY = 73"

definition ZMQ_INVERT_MATCHING :: int where "ZMQ_INVERT_MATCHING = 74"

definition ZMQ_HEARTBEAT_IVL :: int where "ZMQ_HEARTBEAT_IVL = 75"

definition ZMQ_HEARTBEAT_TTL :: int where "ZMQ_HEARTBEAT_TTL = 76"

definition ZMQ_HEARTBEAT_TIMEOUT :: int where "ZMQ_HEARTBEAT_TIMEOUT = 77"

definition ZMQ_XPUB_VERBOSER :: int where "ZMQ_XPUB_VERBOSER = 78"

definition ZMQ_CONNECT_TIMEOUT :: int where "ZMQ_CONNECT_TIMEOUT = 79"

definition ZMQ_TCP_MAXRT :: int where "ZMQ_TCP_MAXRT = 80"

definition ZMQ_THREAD_SAFE :: int where "ZMQ_THREAD_SAFE = 81"

definition ZMQ_MULTICAST_MAXTPDU :: int where "ZMQ_MULTICAST_MAXTPDU = 84"

definition ZMQ_VMCI_BUFFER_SIZE :: int where "ZMQ_VMCI_BUFFER_SIZE = 85"

definition ZMQ_VMCI_BUFFER_MIN_SIZE :: int where "ZMQ_VMCI_BUFFER_MIN_SIZE = 86"

definition ZMQ_VMCI_BUFFER_MAX_SIZE :: int where "ZMQ_VMCI_BUFFER_MAX_SIZE = 87"

definition ZMQ_VMCI_CONNECT_TIMEOUT :: int where "ZMQ_VMCI_CONNECT_TIMEOUT = 88"

definition ZMQ_USE_FD :: int where "ZMQ_USE_FD = 89"

definition ZMQ_GSSAPI_PRINCIPAL_NAMETYPE :: int where "ZMQ_GSSAPI_PRINCIPAL_NAMETYPE = 90"

definition ZMQ_GSSAPI_SERVICE_PRINCIPAL_NAMETYPE :: int where "ZMQ_GSSAPI_SERVICE_PRINCIPAL_NAMETYPE = 91"

definition ZMQ_BINDTODEVICE :: int where "ZMQ_BINDTODEVICE = 92"

section \<open>Events of a monitor\<close>

definition ZMQ_EVENT_CONNECTED :: int where "ZMQ_EVENT_CONNECTED = 0x0001"

definition ZMQ_EVENT_CONNECT_DELAYED :: int where "ZMQ_EVENT_CONNECT_DELAYED = 0x0002"

definition ZMQ_EVENT_CONNECT_RETRIED :: int where "ZMQ_EVENT_CONNECT_RETRIED = 0x0004"

definition ZMQ_EVENT_LISTENING :: int where "ZMQ_EVENT_LISTENING = 0x0008"

definition ZMQ_EVENT_BIND_FAILED :: int where "ZMQ_EVENT_BIND_FAILED = 0x0010"

definition ZMQ_EVENT_ACCEPTED :: int where "ZMQ_EVENT_ACCEPTED = 0x0020"

definition ZMQ_EVENT_ACCEPT_FAILED :: int where "ZMQ_EVENT_ACCEPT_FAILED = 0x0040"

definition ZMQ_EVENT_CLOSED :: int where "ZMQ_EVENT_CLOSED = 0x0080"

definition ZMQ_EVENT_CLOSE_FAILED :: int where "ZMQ_EVENT_CLOSE_FAILED = 0x0100"

definition ZMQ_EVENT_DISCONNECTED :: int where "ZMQ_EVENT_DISCONNECTED = 0x0200"

definition ZMQ_EVENT_MONITOR_STOPPED :: int where "ZMQ_EVENT_MONITOR_STOPPED = 0x0400"

definition ZMQ_EVENT_ALL :: int where "ZMQ_EVENT_ALL = 0xFFFF"

definition ZMQ_EVENT_HANDSHAKE_FAILED_NO_DETAIL :: int where "ZMQ_EVENT_HANDSHAKE_FAILED_NO_DETAIL = 0x0800"

definition ZMQ_EVENT_HANDSHAKE_SUCCEEDED :: int where "ZMQ_EVENT_HANDSHAKE_SUCCEEDED = 0x1000"

definition ZMQ_EVENT_HANDSHAKE_FAILED_PROTOCOL :: int where "ZMQ_EVENT_HANDSHAKE_FAILED_PROTOCOL = 0x2000"

definition ZMQ_EVENT_HANDSHAKE_FAILED_AUTH :: int where "ZMQ_EVENT_HANDSHAKE_FAILED_AUTH = 0x4000"

section \<open>Polling\<close>

definition ZMQ_POLLOUT :: int where "ZMQ_POLLOUT = 2"

definition ZMQ_POLLERR :: int where "ZMQ_POLLERR = 4"

definition ZMQ_POLLPRI :: int where "ZMQ_POLLPRI = 8"

section \<open>Draft options\<close>

definition ZMQ_ZAP_ENFORCE_DOMAIN :: int where "ZMQ_ZAP_ENFORCE_DOMAIN = 93"

definition ZMQ_METADATA :: int where "ZMQ_METADATA = 95"

definition ZMQ_MULTICAST_LOOP :: int where "ZMQ_MULTICAST_LOOP = 96"

definition ZMQ_ROUTER_NOTIFY :: int where "ZMQ_ROUTER_NOTIFY = 97"

lemmas option_numbers = ZMQ_AFFINITY_def ZMQ_BACKLOG_def ZMQ_BINDTODEVICE_def ZMQ_BLOCKY_def 
  ZMQ_CONFLATE_def ZMQ_CONNECT_ROUTING_ID_def ZMQ_CONNECT_TIMEOUT_def ZMQ_CURVE_PUBLICKEY_def 
  ZMQ_CURVE_SECRETKEY_def ZMQ_CURVE_SERVER_def ZMQ_CURVE_SERVERKEY_def ZMQ_EVENTS_def ZMQ_FD_def 
  ZMQ_GSSAPI_PLAINTEXT_def ZMQ_GSSAPI_PRINCIPAL_def ZMQ_GSSAPI_PRINCIPAL_NAMETYPE_def 
  ZMQ_GSSAPI_SERVER_def ZMQ_GSSAPI_SERVICE_PRINCIPAL_def ZMQ_GSSAPI_SERVICE_PRINCIPAL_NAMETYPE_def 
  ZMQ_HANDSHAKE_IVL_def ZMQ_HEARTBEAT_IVL_def ZMQ_HEARTBEAT_TIMEOUT_def ZMQ_HEARTBEAT_TTL_def 
  ZMQ_IMMEDIATE_def ZMQ_INVERT_MATCHING_def ZMQ_IO_THREADS_def ZMQ_IPV6_def ZMQ_LAST_ENDPOINT_def 
  ZMQ_LINGER_def ZMQ_MAXMSGSIZE_def ZMQ_MAX_MSGSZ_def ZMQ_MAX_SOCKETS_def ZMQ_MECHANISM_def 
  ZMQ_METADATA_def ZMQ_MSG_T_SIZE_def ZMQ_MULTICAST_HOPS_def ZMQ_MULTICAST_LOOP_def 
  ZMQ_MULTICAST_MAXTPDU_def ZMQ_PLAIN_PASSWORD_def ZMQ_PLAIN_SERVER_def ZMQ_PLAIN_USERNAME_def 
  ZMQ_PROBE_ROUTER_def ZMQ_RATE_def ZMQ_RCVBUF_def ZMQ_RCVHWM_def ZMQ_RCVMORE_def ZMQ_RCVTIMEO_def 
  ZMQ_RECONNECT_IVL_def ZMQ_RECONNECT_IVL_MAX_def ZMQ_RECOVERY_IVL_def ZMQ_REQ_CORRELATE_def 
  ZMQ_REQ_RELAXED_def ZMQ_ROUTER_HANDOVER_def ZMQ_ROUTER_MANDATORY_def ZMQ_ROUTER_NOTIFY_def 
  ZMQ_ROUTING_ID_def ZMQ_SNDBUF_def ZMQ_SNDHWM_def ZMQ_SNDTIMEO_def ZMQ_SOCKET_LIMIT_def 
  ZMQ_SOCKS_PROXY_def ZMQ_STREAM_NOTIFY_def ZMQ_SUBSCRIBE_def ZMQ_TCP_KEEPALIVE_def 
  ZMQ_TCP_KEEPALIVE_CNT_def ZMQ_TCP_KEEPALIVE_IDLE_def ZMQ_TCP_KEEPALIVE_INTVL_def ZMQ_TCP_MAXRT_def 
  ZMQ_THREAD_AFFINITY_CPU_ADD_def ZMQ_THREAD_AFFINITY_CPU_REMOVE_def ZMQ_THREAD_NAME_PREFIX_def 
  ZMQ_THREAD_PRIORITY_def ZMQ_THREAD_SAFE_def ZMQ_THREAD_SCHED_POLICY_def ZMQ_TOS_def ZMQ_TYPE_def 
  ZMQ_UNSUBSCRIBE_def ZMQ_USE_FD_def ZMQ_VMCI_BUFFER_MAX_SIZE_def ZMQ_VMCI_BUFFER_MIN_SIZE_def 
  ZMQ_VMCI_BUFFER_SIZE_def ZMQ_VMCI_CONNECT_TIMEOUT_def ZMQ_XPUB_MANUAL_def ZMQ_XPUB_NODROP_def 
  ZMQ_XPUB_VERBOSE_def ZMQ_XPUB_VERBOSER_def ZMQ_XPUB_WELCOME_MSG_def ZMQ_ZAP_DOMAIN_def 
  ZMQ_ZAP_ENFORCE_DOMAIN_def

lemmas event_numbers = ZMQ_EVENT_CONNECTED_def ZMQ_EVENT_CONNECT_DELAYED_def 
  ZMQ_EVENT_CONNECT_RETRIED_def ZMQ_EVENT_LISTENING_def ZMQ_EVENT_BIND_FAILED_def 
  ZMQ_EVENT_ACCEPTED_def ZMQ_EVENT_ACCEPT_FAILED_def ZMQ_EVENT_CLOSED_def ZMQ_EVENT_CLOSE_FAILED_def 
  ZMQ_EVENT_DISCONNECTED_def ZMQ_EVENT_MONITOR_STOPPED_def ZMQ_EVENT_ALL_def 
  ZMQ_EVENT_HANDSHAKE_FAILED_NO_DETAIL_def ZMQ_EVENT_HANDSHAKE_SUCCEEDED_def 
  ZMQ_EVENT_HANDSHAKE_FAILED_PROTOCOL_def ZMQ_EVENT_HANDSHAKE_FAILED_AUTH_def

lemmas socket_type_numbers = ZMQ_PAIR_def ZMQ_PUB_def ZMQ_SUB_def ZMQ_REQ_def ZMQ_REP_def 
  ZMQ_DEALER_def ZMQ_ROUTER_def ZMQ_PULL_def ZMQ_PUSH_def ZMQ_XPUB_def ZMQ_XSUB_def ZMQ_STREAM_def

section \<open>Enumerations\<close>

datatype socket_type =
  ST_req | ST_rep | ST_dealer | ST_router |
  ST_pub | ST_sub | ST_xpub | ST_xsub | ST_push | ST_pull | ST_stream | ST_pair

fun socket_type_value :: "socket_type \<Rightarrow> int" where
  "socket_type_value ST_req = ZMQ_REQ"
| "socket_type_value ST_rep = ZMQ_REP"
| "socket_type_value ST_dealer = ZMQ_DEALER"
| "socket_type_value ST_router = ZMQ_ROUTER"
| "socket_type_value ST_pub = ZMQ_PUB"
| "socket_type_value ST_sub = ZMQ_SUB"
| "socket_type_value ST_xpub = ZMQ_XPUB"
| "socket_type_value ST_xsub = ZMQ_XSUB"
| "socket_type_value ST_push = ZMQ_PUSH"
| "socket_type_value ST_pull = ZMQ_PULL"
| "socket_type_value ST_stream = ZMQ_STREAM"
| "socket_type_value ST_pair = ZMQ_PAIR"

datatype ctxopt =
  CO_blocky | CO_io_threads | CO_thread_sched_policy | CO_thread_priority |
  CO_thread_affinity_cpu_add | CO_thread_affinity_cpu_remove | CO_thread_name_prefix | CO_max_msgsz |
  CO_max_sockets | CO_socket_limit | CO_ipv6 | CO_msg_t_size

fun ctxopt_value :: "ctxopt \<Rightarrow> int" where
  "ctxopt_value CO_blocky = ZMQ_BLOCKY"
| "ctxopt_value CO_io_threads = ZMQ_IO_THREADS"
| "ctxopt_value CO_thread_sched_policy = ZMQ_THREAD_SCHED_POLICY"
| "ctxopt_value CO_thread_priority = ZMQ_THREAD_PRIORITY"
| "ctxopt_value CO_thread_affinity_cpu_add = ZMQ_THREAD_AFFINITY_CPU_ADD"
| "ctxopt_value CO_thread_affinity_cpu_remove = ZMQ_THREAD_AFFINITY_CPU_REMOVE"
| "ctxopt_value CO_thread_name_prefix = ZMQ_THREAD_NAME_PREFIX"
| "ctxopt_value CO_max_msgsz = ZMQ_MAX_MSGSZ"
| "ctxopt_value CO_max_sockets = ZMQ_MAX_SOCKETS"
| "ctxopt_value CO_socket_limit = ZMQ_SOCKET_LIMIT"
| "ctxopt_value CO_ipv6 = ZMQ_IPV6"
| "ctxopt_value CO_msg_t_size = ZMQ_MSG_T_SIZE"

datatype event_flags = EF_none | EF_pollin | EF_pollout | EF_pollerr | EF_pollpri

fun event_flags_value :: "event_flags \<Rightarrow> int" where
  "event_flags_value EF_none = 0"
| "event_flags_value EF_pollin = ZMQ_POLLIN"
| "event_flags_value EF_pollout = ZMQ_POLLOUT"
| "event_flags_value EF_pollerr = ZMQ_POLLERR"
| "event_flags_value EF_pollpri = ZMQ_POLLPRI"

end
