(* ===== verification/Zmq_Message.thy ===== *)
theory Zmq_Message
  imports Zmq_Api Decimal
begin

text \<open>
  \<open>zmq::message_t\<close> (\<open>zmq.hpp\<close>): construction, assignment, \<open>rebuild\<close>, comparison, conversion to a
  string and the dump \<open>str()\<close>. An element of a range is the list of its bytes. What the wrappers
  rely on is \<open>sized_messages\<close>: a message initialised with a size has that many bytes.
\<close>

section \<open>Memory\<close>

text \<open>A null source is undefined also for no bytes; reading or writing past an end is a fault.\<close>

definition memcpy :: "bytes \<Rightarrow> bytes option \<Rightarrow> nat \<Rightarrow> bytes outcome" where
  "memcpy dst src n =
     (case src of
        None \<Rightarrow> Inl Null_Deref
      | Some s \<Rightarrow> if n \<le> length s \<and> n \<le> length dst then Inr (take n s @ drop n dst) else Inl Buffer_Overflow)"

fun memcmp :: "bytes \<Rightarrow> bytes \<Rightarrow> nat \<Rightarrow> int" where
  "memcmp xs ys 0 = 0"
| "memcmp (x # xs) (y # ys) (Suc n) =
     (if x = y then memcmp xs ys n else if (of_char x :: nat) < of_char y then - 1 else 1)"
| "memcmp _ _ (Suc n) = 0"

section \<open>Constructors\<close>

definition message_default :: "('w, 'x) libzmq_scheme \<Rightarrow> ('w, zmq_msg_t) io" where
  "message_default lib = bindIO (assert_call (plain (zmq_msg_init lib))) (\<lambda>_. returnIO no_msg)"

definition message_size :: "('w, 'x) libzmq_scheme \<Rightarrow> nat \<Rightarrow> ('w, zmq_msg_t) io" where
  "message_size lib sz = call lib (zmq_msg_init_size lib sz)"

definition fill :: "zmq_msg_t \<Rightarrow> bytes option \<Rightarrow> nat \<Rightarrow> zmq_msg_t outcome" where
  "fill m src sz = mapE (\<lambda>c. m\<lparr>content := c\<rparr>) (memcpy (content m) src sz)"

definition message_range :: "('w, 'x) libzmq_scheme \<Rightarrow> nat \<Rightarrow> bytes list \<Rightarrow> ('w, zmq_msg_t) io" where
  "message_range lib value_size elems =
     bindIO (message_size lib (length elems * value_size))
       (\<lambda>m. liftIO (fill m (Some (concat elems)) (length (concat elems))))"

definition message_mem :: "('w, 'x) libzmq_scheme \<Rightarrow> bytes option \<Rightarrow> nat \<Rightarrow> ('w, zmq_msg_t) io" where
  "message_mem lib src sz =
     bindIO (message_size lib sz) (\<lambda>m. if sz \<noteq> 0 then liftIO (fill m src sz) else returnIO m)"

definition message_nocopy :: "('w, 'x) libzmq_scheme \<Rightarrow> bytes \<Rightarrow> ('w, zmq_msg_t) io" where
  "message_nocopy lib src = call lib (zmq_msg_init_data lib src)"

text \<open>The array of a string literal, its terminating zero included.\<close>

definition literal_array :: "string \<Rightarrow> bytes" where
  "literal_array s = s @ [CHR 0x00]"

definition message_array :: "('w, 'x) libzmq_scheme \<Rightarrow> bytes \<Rightarrow> ('w, zmq_msg_t) io" where
  "message_array lib data = message_range lib 1 (map (\<lambda>c. [c]) data)"

definition message_string :: "('w, 'x) libzmq_scheme \<Rightarrow> string \<Rightarrow> ('w, zmq_msg_t) io" where
  "message_string lib str = message_mem lib (Some str) (length str)"

section \<open>Moving, destruction, rebuilding\<close>

text \<open>Pairs are (this, the other message).\<close>

definition message_move :: "('w, 'x) libzmq_scheme \<Rightarrow> zmq_msg_t \<Rightarrow> ('w, zmq_msg_t \<times> zmq_msg_t) io" where
  "message_move lib rhs = bindIO (assert_call (plain (zmq_msg_init lib))) (\<lambda>_. returnIO (rhs, no_msg))"

definition message_move_assign :: "zmq_msg_t \<Rightarrow> zmq_msg_t \<Rightarrow> zmq_msg_t \<times> zmq_msg_t" where
  "message_move_assign this rhs = (rhs, this)"

definition message_swap :: "zmq_msg_t \<Rightarrow> zmq_msg_t \<Rightarrow> zmq_msg_t \<times> zmq_msg_t" where
  "message_swap this other = (other, this)"

definition message_destroy :: "('w, 'x) libzmq_scheme \<Rightarrow> zmq_msg_t \<Rightarrow> ('w, unit) io" where
  "message_destroy lib m = assert_call (plain (zmq_msg_close lib m))"

definition message_close :: "('w, 'x) libzmq_scheme \<Rightarrow> zmq_msg_t \<Rightarrow> ('w, unit) io" where
  "message_close lib m = call lib (plain (zmq_msg_close lib m))"

definition rebuild :: "('w, 'x) libzmq_scheme \<Rightarrow> zmq_msg_t \<Rightarrow> ('w, zmq_msg_t) io" where
  "rebuild lib m = thenIO (message_close lib m) (message_default lib)"

definition rebuild_size :: "('w, 'x) libzmq_scheme \<Rightarrow> zmq_msg_t \<Rightarrow> nat \<Rightarrow> ('w, zmq_msg_t) io" where
  "rebuild_size lib m sz = thenIO (message_close lib m) (message_size lib sz)"

definition rebuild_mem :: "('w, 'x) libzmq_scheme \<Rightarrow> zmq_msg_t \<Rightarrow> bytes option \<Rightarrow> nat \<Rightarrow> ('w, zmq_msg_t) io" where
  "rebuild_mem lib m src sz =
     bindIO (rebuild_size lib m sz) (\<lambda>m'. liftIO (fill m' src sz))"

definition rebuild_nocopy :: "('w, 'x) libzmq_scheme \<Rightarrow> zmq_msg_t \<Rightarrow> bytes \<Rightarrow> ('w, zmq_msg_t) io" where
  "rebuild_nocopy lib m src = thenIO (message_close lib m) (message_nocopy lib src)"

definition move :: "('w, 'x) libzmq_scheme \<Rightarrow> zmq_msg_t \<Rightarrow> zmq_msg_t \<Rightarrow> ('w, zmq_msg_t \<times> zmq_msg_t) io" where
  "move lib this other = call lib (zmq_msg_move lib this other)"

definition copy :: "('w, 'x) libzmq_scheme \<Rightarrow> zmq_msg_t \<Rightarrow> zmq_msg_t \<Rightarrow> ('w, zmq_msg_t \<times> zmq_msg_t) io" where
  "copy lib this other = call lib (zmq_msg_copy lib this other)"

section \<open>Access\<close>

definition more :: "zmq_msg_t \<Rightarrow> bool" where
  "more m = more_flag m"

definition msg_size :: "zmq_msg_t \<Rightarrow> nat" where
  "msg_size m = length (content m)"

definition msg_empty :: "zmq_msg_t \<Rightarrow> bool" where
  "msg_empty m \<longleftrightarrow> msg_size m = 0"

definition msg_eq :: "zmq_msg_t \<Rightarrow> zmq_msg_t \<Rightarrow> bool" where
  "msg_eq this other \<longleftrightarrow>
     (let my_size = msg_size this
      in my_size = msg_size other \<and> 0 = memcmp (content this) (content other) my_size)"

definition msg_neq :: "zmq_msg_t \<Rightarrow> zmq_msg_t \<Rightarrow> bool" where
  "msg_neq this other \<longleftrightarrow> \<not> msg_eq this other"

definition msg_get :: "('w, 'x) libzmq_scheme \<Rightarrow> zmq_msg_t \<Rightarrow> int \<Rightarrow> ('w, int) io" where
  "msg_get lib m property w =
     (case zmq_msg_get lib m property w of
        (v, w') \<Rightarrow> if v = - 1 then throw_errno lib w' else (Inr v, w'))"

definition msg_gets :: "('w, 'x) libzmq_scheme \<Rightarrow> zmq_msg_t \<Rightarrow> string \<Rightarrow> ('w, string) io" where
  "msg_gets lib m property w =
     (case zmq_msg_gets lib m property w of
        (None, w') \<Rightarrow> throw_errno lib w'
      | (Some v, w') \<Rightarrow> (Inr v, w'))"

definition to_string :: "zmq_msg_t \<Rightarrow> string" where
  "to_string m = take (msg_size m) (content m)"

section \<open>The dump of a message\<close>

definition upper_hex :: "nat \<Rightarrow> char" where
  "upper_hex d = (if d < 10 then digit_char d else char_of (55 + d))"

definition hex2 :: "char \<Rightarrow> string" where
  "hex2 c = (let b = of_char c :: nat in [upper_hex (b div 16), upper_hex (b mod 16)])"

text \<open>\<open>std::dec << std::setw(3) << std::setfill('0')\<close>.\<close>

definition setw3 :: "nat \<Rightarrow> string" where
  "setw3 n = replicate (3 - length (dec_str n)) (CHR ''0'') @ dec_str n"

definition text_byte :: "char \<Rightarrow> bool" where
  "text_byte c \<longleftrightarrow> 32 \<le> (of_char c :: nat) \<and> (of_char c :: nat) < 127"

text \<open>\<open>is_ascii[0]\<close> is the argument, \<open>is_ascii[1]\<close> the class of the byte.\<close>

fun str_loop :: "bool \<Rightarrow> bytes \<Rightarrow> string" where
  "str_loop is_ascii [] = []"
| "str_loop is_ascii (byte # msg_data) =
     (if text_byte byte \<noteq> is_ascii then '' '' else []) @
     (if text_byte byte then [byte] else hex2 byte) @ str_loop (text_byte byte) msg_data"

definition msg_str :: "zmq_msg_t \<Rightarrow> string" where
  "msg_str m =
     ''zmq::message_t [size '' @ setw3 (msg_size m) @ ''] ('' @
     (if 1000 \<le> msg_size m then ''... too big to print)'' else str_loop False (content m) @ '')'')"

section \<open>Construction gives what was put in\<close>

definition sized_messages :: "('w, 'x) libzmq_scheme \<Rightarrow> bool" where
  "sized_messages lib \<longleftrightarrow>
     (\<forall>n w m w'. zmq_msg_init_size lib n w = (0, m, w') \<longrightarrow> length (content m) = n \<and> \<not> more_flag m)"

text \<open>A construction that either has the content it should, or throws the error of libzmq.\<close>

definition builds :: "('w, zmq_msg_t) io \<Rightarrow> bytes \<Rightarrow> bool" where
  "builds c s \<longleftrightarrow>
     (\<forall>w. case c w of
            (Inr m, w') \<Rightarrow> to_string m = s \<and> msg_size m = length s \<and> \<not> more m
          | (Inl e, w') \<Rightarrow> \<exists>n. e = Zmq_Error n)"

lemma to_string_content: "to_string m = content m"
  by (simp add: to_string_def msg_size_def)

lemma builds_content:
  "builds c s \<longleftrightarrow>
     (\<forall>w. case c w of
            (Inr m, w') \<Rightarrow> content m = s \<and> \<not> more_flag m
          | (Inl e, w') \<Rightarrow> \<exists>n. e = Zmq_Error n)"
proof -
  have "(to_string m = s \<and> msg_size m = length s \<and> \<not> more m) = (content m = s \<and> \<not> more_flag m)" for m
    by (auto simp: to_string_content msg_size_def more_def)
  then show ?thesis by (simp only: builds_def)
qed

lemma message_size_cases:
  assumes "sized_messages lib"
  obtains (ok) m w' where "message_size lib n w = (Inr m, w')" "length (content m) = n" "\<not> more_flag m"
        | (error) k w' where "message_size lib n w = (Inl (Zmq_Error k), w')"
proof (cases "zmq_msg_init_size lib n w")
  case (fields rc m w')
  show thesis
  proof (cases "rc = 0")
    case True
    with fields assms show thesis
      by (intro ok [of m w']) (auto simp: message_size_def call_ok sized_messages_def)
  next
    case False
    with fields show thesis by (intro error) (simp add: message_size_def call_fail)
  qed
qed

lemma fill_all: "length (content m) = length s \<Longrightarrow> fill m (Some s) (length s) = Inr (m\<lparr>content := s\<rparr>)"
  by (simp add: fill_def memcpy_def)

lemma builds_size_fill:
  assumes "sized_messages lib"
  shows "builds (bindIO (message_size lib (length s)) (\<lambda>m. liftIO (fill m (Some s) (length s)))) s"
  unfolding builds_content
proof (rule allI)
  fix w
  show "case bindIO (message_size lib (length s)) (\<lambda>m. liftIO (fill m (Some s) (length s))) w of
          (Inr m, w') \<Rightarrow> content m = s \<and> \<not> more_flag m | (Inl e, w') \<Rightarrow> \<exists>n. e = Zmq_Error n"
    using assms
    by (rule message_size_cases [where n = "length s" and w = w]) (simp_all add: bindIO_simps fill_all)
qed

lemma builds_message_mem:
  assumes "sized_messages lib"
  shows "builds (message_mem lib (Some s) (length s)) s"
proof (cases "s = []")
  case True
  show ?thesis
    unfolding builds_content message_mem_def
  proof (rule allI)
    fix w
    show "case bindIO (message_size lib (length s)) (\<lambda>m. if length s \<noteq> 0 then liftIO (fill m (Some s) (length s)) else returnIO m) w of
          (Inr m, w') \<Rightarrow> content m = s \<and> \<not> more_flag m | (Inl e, w') \<Rightarrow> \<exists>n. e = Zmq_Error n"
      using assms
      by (rule message_size_cases [where n = "length s" and w = w]) (simp_all add: bindIO_simps True)
  qed
next
  case False
  then show ?thesis using builds_size_fill [OF assms, of s] by (simp add: message_mem_def)
qed

lemma builds_message_string: "sized_messages lib \<Longrightarrow> builds (message_string lib s) s"
  unfolding message_string_def by (rule builds_message_mem)

lemma concat_singletons: "concat (map (\<lambda>c. [c]) s) = s"
  by (induction s) auto

lemma builds_message_range:
  assumes "sized_messages lib" "\<forall>e\<in>set elems. length e = value_size"
  shows "builds (message_range lib value_size elems) (concat elems)"
proof -
  have "length (concat elems) = length elems * value_size"
    using assms(2) by (induction elems) auto
  then show ?thesis using builds_size_fill [OF assms(1), of "concat elems"] by (simp add: message_range_def)
qed

lemma builds_message_array: "sized_messages lib \<Longrightarrow> builds (message_array lib s) s"
  using builds_message_range [of lib "map (\<lambda>c. [c]) s" 1] by (simp add: message_array_def concat_singletons)

lemma builds_Inr: "builds c s \<Longrightarrow> c w = (Inr m, w') \<Longrightarrow> content m = s \<and> \<not> more_flag m"
  unfolding builds_content by (auto dest: spec [of _ w])

lemma message_destroy_Inl: "message_destroy lib m w = (Inl e, w') \<Longrightarrow> e = Assert_Failed"
  by (auto simp: message_destroy_def assert_call_def split: prod.splits if_splits)

lemma message_move_result:
  "message_move lib m w = (Inl e, w') \<Longrightarrow> e = Assert_Failed"
  "message_move lib m w = (Inr r, w') \<Longrightarrow> r = (m, no_msg)"
  by (auto simp: message_move_def assert_call_def elim!: bindIO_cases split: prod.splits if_splits)

lemma message_default_result:
  "message_default lib w = (Inl e, w') \<Longrightarrow> e = Assert_Failed"
  "message_default lib w = (Inr m, w') \<Longrightarrow> m = no_msg"
  by (auto simp: message_default_def assert_call_def elim!: bindIO_cases split: prod.splits if_splits)

lemma builds_Inl: "builds c s \<Longrightarrow> c w = (Inl e, w') \<Longrightarrow> \<exists>n. e = Zmq_Error n"
  unfolding builds_content by (auto dest: spec [of _ w])

section \<open>A library in which every call succeeds\<close>

text \<open>
  For the witnesses: calls succeed at once, keep the world and send nothing; a new message is all
  zeros. A witness replaces the functions it is about.
\<close>

definition calm :: "'w libzmq" where
  "calm = \<lparr>zmq_errno = (\<lambda>w. 0), zmq_strerror = (\<lambda>e. []), zmq_version = (4, 3, 4),
     zmq_msg_init = (\<lambda>w. (0, w)),
     zmq_msg_init_size = (\<lambda>n w. (0, \<lparr>content = replicate n (CHR 0x00), more_flag = False\<rparr>, w)),
     zmq_msg_init_data = (\<lambda>d w. (0, \<lparr>content = d, more_flag = False\<rparr>, w)),
     zmq_msg_close = (\<lambda>m w. (0, w)),
     zmq_msg_move = (\<lambda>m m' w. (0, (m', no_msg), w)),
     zmq_msg_copy = (\<lambda>m m' w. (0, (m', m'), w)),
     zmq_msg_get = (\<lambda>m p w. (0, w)), zmq_msg_gets = (\<lambda>m p w. (None, w)),
     zmq_ctx_new = (\<lambda>w. (1, w)), zmq_ctx_set = (\<lambda>c p v w. (0, w)), zmq_ctx_get = (\<lambda>c p w. (0, w)),
     zmq_ctx_term = (\<lambda>c w. (0, w)), zmq_ctx_shutdown = (\<lambda>c w. (0, w)),
     zmq_socket = (\<lambda>c t w. (1, w)), zmq_close = (\<lambda>s w. (0, w)),
     zmq_bind = (\<lambda>s a w. (0, w)), zmq_unbind = (\<lambda>s a w. (0, w)),
     zmq_connect = (\<lambda>s a w. (0, w)), zmq_disconnect = (\<lambda>s a w. (0, w)),
     zmq_setsockopt = (\<lambda>s p v w. (0, w)), zmq_getsockopt = (\<lambda>s p v w. (0, (v, length v), w)),
     zmq_send = (\<lambda>s b f w. (int (length b), w)), zmq_msg_send = (\<lambda>m s f w. (int (length (content m)), no_msg, w)),
     zmq_recv = (\<lambda>s b f w. (0, b, w)), zmq_msg_recv = (\<lambda>m s f w. (0, no_msg, w)),
     zmq_poll = (\<lambda>is n t w. (0, is, w)), zmq_proxy = (\<lambda>a b c w. (- 1, w)),
     zmq_socket_monitor = (\<lambda>s a e w. (0, w))\<rparr>"

lemma sized_calm: "sized_messages calm"
  by (simp add: sized_messages_def calm_def)

section \<open>Properties\<close>

lemma message_close_Inl: "message_close lib m w = (Inl e, w') \<Longrightarrow> \<exists>n. e = Zmq_Error n"
  by (auto simp: message_close_def call_def throw_errno_def split: prod.splits if_splits)

lemma builds_after_close:
  assumes "builds c s"
  shows "builds (thenIO (message_close lib m) c) s"
  unfolding builds_content
proof (rule allI)
  fix w
  show "case thenIO (message_close lib m) c w of
          (Inr m, w') \<Rightarrow> content m = s \<and> \<not> more_flag m | (Inl e, w') \<Rightarrow> \<exists>n. e = Zmq_Error n"
  proof (cases "message_close lib m w")
    case (Pair r w')
    show ?thesis
    proof (cases r)
      case (Inl e)
      with Pair message_close_Inl show ?thesis by (simp add: thenIO_def bindIO_simps)
    next
      case (Inr u)
      with Pair assms show ?thesis by (simp add: thenIO_def bindIO_simps builds_content)
    qed
  qed
qed

lemma builds_rebuild_mem:
  assumes "sized_messages lib"
  shows "builds (rebuild_mem lib m (Some s) (length s)) s"
  using builds_after_close [OF builds_size_fill [OF assms, of s]]
  by (simp add: rebuild_mem_def rebuild_size_def thenIO_def bindIO_assoc)

text \<open>A message built from a string, a byte block, a range of fixed-size elements or a character
  array, or rebuilt from a byte block, has exactly those bytes, and \<open>to_string\<close> gives them back;
  only libzmq can make it fail. A string literal keeps its terminating zero.\<close>

theorem message_construction:
  assumes "sized_messages lib"
    and "\<forall>e\<in>set elems. length e = value_size"
  shows "builds (message_string lib s) s \<and> builds (message_mem lib (Some s) (length s)) s \<and>
         builds (message_range lib value_size elems) (concat elems) \<and>
         builds (message_array lib (literal_array s)) (s @ [CHR 0x00]) \<and>
         builds (rebuild_mem lib m (Some s) (length s)) s"
  using builds_message_string [OF assms(1)] builds_message_mem [OF assms(1)]
    builds_message_range [OF assms] builds_rebuild_mem [OF assms(1)] builds_message_array [OF assms(1)]
  by (simp add: literal_array_def)

theorem message_construction_witness:
  "builds (message_range (calm :: unit libzmq) 2 [''ab'', ''cd'']) ''abcd''"
proof -
  have "sized_messages (calm :: unit libzmq)" by (rule sized_calm)
  from message_construction [OF this, of "[''ab'', ''cd'']" 2 "[]" no_msg] show ?thesis by simp
qed

lemma memcmp_zero: "length xs = length ys \<Longrightarrow> (memcmp xs ys (length xs) = 0) = (xs = ys)"
proof (induction xs ys rule: list_induct2)
  case (Cons x xs y ys)
  then show ?case by (cases "x = y") simp_all
qed simp

lemma msg_eq_content: "msg_eq a b = (content a = content b)"
proof (cases "length (content a) = length (content b)")
  case True
  with memcmp_zero [OF True] show ?thesis by (simp add: msg_eq_def msg_size_def Let_def eq_commute [of 0])
next
  case False
  then show ?thesis by (auto simp: msg_eq_def msg_size_def Let_def)
qed

text \<open>Two messages compare equal exactly when their bytes are the same, whatever their other
  attributes.\<close>

theorem message_equality: "(msg_eq a b = (content a = content b)) \<and> (msg_neq a b = (content a \<noteq> content b))"
  by (simp add: msg_eq_content msg_neq_def)

text \<open>The constructor accepts the null pointer with no bytes, as its comment says; \<open>rebuild\<close> with
  the same arguments does not: it never returns, because it calls \<open>memcpy\<close> on the null pointer.\<close>

theorem message_null_block:
  "fst (message_mem lib None 0 w) \<noteq> Inl Null_Deref \<and> fst (rebuild_mem lib m None 0 w) \<noteq> Inr m'"
proof
  show "fst (message_mem lib None 0 w) \<noteq> Inl Null_Deref"
    by (auto simp: message_mem_def bindIO_def message_size_def call_def throw_errno_def split: prod.split)
  show "fst (rebuild_mem lib m None 0 w) \<noteq> Inr m'"
    by (auto simp: rebuild_mem_def bindIO_def fill_def memcpy_def split: prod.split sum.split)
qed

section \<open>What the dump shows\<close>

text \<open>The maximal runs of a byte string: text or not, and the bytes.\<close>

fun runs :: "bytes \<Rightarrow> (bool \<times> bytes) list" where
  "runs [] = []"
| "runs (c # cs) =
     (case runs cs of
        (p, r) # rs \<Rightarrow> if p = text_byte c then (p, c # r) # rs else (text_byte c, [c]) # (p, r) # rs
      | [] \<Rightarrow> [(text_byte c, [c])])"

definition run_text :: "bool \<times> bytes \<Rightarrow> string" where
  "run_text run = (if fst run then snd run else concat (map hex2 (snd run)))"

fun spaced :: "string list \<Rightarrow> string" where
  "spaced [] = []"
| "spaced [t] = t"
| "spaced (t # ts) = t @ '' '' @ spaced ts"

lemma runs_Cons: "\<exists>r rs. runs (c # cs) = (text_byte c, r) # rs"
  by (cases "runs cs") (auto split: prod.split)

lemma spaced_Cons: "spaced (t # ts) = t @ (if ts = [] then [] else '' '' @ spaced ts)"
  by (cases ts) simp_all

lemma str_loop_runs:
  "str_loop p cs =
     (if cs \<noteq> [] \<and> text_byte (hd cs) \<noteq> p then '' '' else []) @ spaced (map run_text (runs cs))"
proof (induction cs arbitrary: p)
  case (Cons c cs)
  show ?case
  proof (cases cs)
    case Nil
    then show ?thesis by (simp add: run_text_def)
  next
    case (Cons d ds)
    then obtain r rs where "runs cs = (text_byte d, r) # rs" using runs_Cons by blast
    with Cons Cons.IH [of "text_byte c"] show ?thesis
      by (auto simp: run_text_def spaced_Cons)
  qed
qed simp

lemma text_byte_digit: "d < 10 \<Longrightarrow> text_byte (digit_char d)"
  by (simp add: text_byte_def of_char_digit_char)

lemma text_byte_hex: "d < 16 \<Longrightarrow> text_byte (upper_hex d)"
  by (cases "d < 10") (simp_all add: upper_hex_def text_byte_digit, simp add: text_byte_def)

lemma list_all_hex2: "list_all text_byte (hex2 c)"
proof -
  have "(of_char c :: nat) < 256" by simp
  then have "(of_char c :: nat) div 16 < 16" by (simp add: less_mult_imp_div_less)
  then show ?thesis by (simp add: hex2_def Let_def text_byte_hex)
qed

lemma list_all_str_loop: "list_all text_byte (str_loop p cs)"
  by (induction cs arbitrary: p) (auto simp: list_all_hex2, simp_all add: text_byte_def)

lemma list_all_dec_str: "list_all text_byte (dec_str n)"
proof (induction n rule: less_induct)
  case (less n)
  show ?case
  proof (cases "n < 10")
    case False
    with less [of "n div 10"] show ?thesis by (simp add: dec_str_large text_byte_digit)
  qed (simp add: dec_str_small text_byte_digit)
qed

lemma list_all_setw3: "list_all text_byte (setw3 n)"
  using list_all_dec_str [of n] by (auto simp: setw3_def list_all_iff text_byte_def)

text \<open>The dump of a message names its size and then, unless there are 1000 bytes or more, its
  maximal runs of printable and other bytes, the former as they are, the latter in hexadecimal,
  separated by single spaces (one more in front when the message starts with text). Whatever the
  bytes, the dump is printable ASCII.\<close>

theorem message_dump:
  "msg_str m =
     ''zmq::message_t [size '' @ setw3 (length (content m)) @ ''] ('' @
     (if 1000 \<le> length (content m) then ''... too big to print''
      else (if content m \<noteq> [] \<and> text_byte (hd (content m)) then '' '' else []) @
           spaced (map run_text (runs (content m)))) @ '')'' \<and>
   list_all text_byte (msg_str m)"
proof
  show "msg_str m =
     ''zmq::message_t [size '' @ setw3 (length (content m)) @ ''] ('' @
     (if 1000 \<le> length (content m) then ''... too big to print''
      else (if content m \<noteq> [] \<and> text_byte (hd (content m)) then '' '' else []) @
           spaced (map run_text (runs (content m)))) @ '')''"
    by (simp add: msg_str_def msg_size_def str_loop_runs)
  show "list_all text_byte (msg_str m)"
    by (simp add: msg_str_def list_all_setw3 list_all_str_loop) (simp add: text_byte_def)
qed

end
