(* ===== verification/Zmq_Buffer.thy ===== *)
theory Zmq_Buffer
  imports Prelude
begin

text \<open>
  \<open>zmq::mutable_buffer\<close>, \<open>zmq::const_buffer\<close> and the \<open>zmq::buffer\<close> functions of \<open>zmq.hpp\<close>: views of
  memory, an address with a number of bytes. Their meaning is \<open>bytes_at\<close>, the bytes a view shows in
  a memory. A container is its first address, its number of elements and the size of one element.
\<close>

section \<open>Views\<close>

record buffer =
  data :: nat
  sz :: nat

definition bytes_at :: "(nat \<Rightarrow> char) \<Rightarrow> buffer \<Rightarrow> bytes" where
  "bytes_at mem b = map (\<lambda>i. mem (data b + i)) [0..<sz b]"

definition mutable_buffer_default :: buffer where
  "mutable_buffer_default = \<lparr>data = 0, sz = 0\<rparr>"

definition mutable_buffer :: "nat \<Rightarrow> nat \<Rightarrow> buffer" where
  "mutable_buffer p n = \<lparr>data = p, sz = n\<rparr>"

definition mutable_advance :: "buffer \<Rightarrow> nat \<Rightarrow> buffer" where
  "mutable_advance b n = (let shift = min n (sz b) in b\<lparr>data := data b + shift, sz := sz b - shift\<rparr>)"

definition mutable_plus :: "buffer \<Rightarrow> nat \<Rightarrow> buffer" where
  "mutable_plus mb n = mutable_buffer (data mb + min n (sz mb)) (sz mb - min n (sz mb))"

definition plus_mutable :: "nat \<Rightarrow> buffer \<Rightarrow> buffer" where
  "plus_mutable n mb = mutable_plus mb n"

definition const_buffer_default :: buffer where
  "const_buffer_default = \<lparr>data = 0, sz = 0\<rparr>"

definition const_buffer :: "nat \<Rightarrow> nat \<Rightarrow> buffer" where
  "const_buffer p n = \<lparr>data = p, sz = n\<rparr>"

definition const_of_mutable :: "buffer \<Rightarrow> buffer" where
  "const_of_mutable mb = \<lparr>data = data mb, sz = sz mb\<rparr>"

definition const_advance :: "buffer \<Rightarrow> nat \<Rightarrow> buffer" where
  "const_advance b n = (let shift = min n (sz b) in b\<lparr>data := data b + shift, sz := sz b - shift\<rparr>)"

definition const_plus :: "buffer \<Rightarrow> nat \<Rightarrow> buffer" where
  "const_plus cb n = const_buffer (data cb + min n (sz cb)) (sz cb - min n (sz cb))"

definition plus_const :: "nat \<Rightarrow> buffer \<Rightarrow> buffer" where
  "plus_const n cb = const_plus cb n"

section \<open>Creation\<close>

definition buffer_ptr :: "nat \<Rightarrow> nat \<Rightarrow> buffer" where
  "buffer_ptr p n = mutable_buffer p n"

definition buffer_const_ptr :: "nat \<Rightarrow> nat \<Rightarrow> buffer" where
  "buffer_const_ptr p n = const_buffer p n"

definition buffer_mutable :: "buffer \<Rightarrow> nat option \<Rightarrow> buffer" where
  "buffer_mutable mb n = (case n of None \<Rightarrow> mb | Some n \<Rightarrow> mutable_buffer (data mb) (min (sz mb) n))"

definition buffer_const :: "buffer \<Rightarrow> nat option \<Rightarrow> buffer" where
  "buffer_const cb n = (case n of None \<Rightarrow> cb | Some n \<Rightarrow> const_buffer (data cb) (min (sz cb) n))"

record sequence =
  base :: nat
  seq_size :: nat
  elem_size :: nat

definition buffer_contiguous_sequence :: "sequence \<Rightarrow> buffer" where
  "buffer_contiguous_sequence seq =
     (let size = seq_size seq
      in buffer_ptr (if size \<noteq> 0 then base seq else 0) (size * elem_size seq))"

definition buffer_contiguous_sequence_n :: "sequence \<Rightarrow> nat \<Rightarrow> buffer" where
  "buffer_contiguous_sequence_n seq n_bytes =
     (let size = seq_size seq
      in buffer_ptr (if size \<noteq> 0 then base seq else 0) (min (size * elem_size seq) n_bytes))"

definition buffer_sequence :: "sequence \<Rightarrow> nat option \<Rightarrow> buffer" where
  "buffer_sequence seq n =
     (case n of None \<Rightarrow> buffer_contiguous_sequence seq | Some n \<Rightarrow> buffer_contiguous_sequence_n seq n)"

text \<open>The overloads, each with and without a limit in bytes.\<close>

definition buffer_c_array :: "sequence \<Rightarrow> nat option \<Rightarrow> buffer" where
  "buffer_c_array = buffer_sequence"

definition buffer_std_array :: "sequence \<Rightarrow> nat option \<Rightarrow> buffer" where
  "buffer_std_array = buffer_sequence"

definition buffer_vector :: "sequence \<Rightarrow> nat option \<Rightarrow> buffer" where
  "buffer_vector = buffer_sequence"

definition buffer_string :: "sequence \<Rightarrow> nat option \<Rightarrow> buffer" where
  "buffer_string = buffer_sequence"

definition buffer_string_view :: "sequence \<Rightarrow> nat option \<Rightarrow> buffer" where
  "buffer_string_view = buffer_sequence"

definition str_buffer :: "sequence \<Rightarrow> buffer" where
  "str_buffer arr = const_buffer (base arr) ((seq_size arr - 1) * elem_size arr)"

text \<open>A literal with the suffix \<open>_zbuf\<close>: its length does not count the terminating zero.\<close>

definition zbuf :: "nat \<Rightarrow> nat \<Rightarrow> nat \<Rightarrow> buffer" where
  "zbuf char_size str len = const_buffer str (len * char_size)"

text \<open>An object made of the given bytes, and what a view of it shows.\<close>

definition object_memory :: "nat \<Rightarrow> bytes \<Rightarrow> nat \<Rightarrow> char" where
  "object_memory p bs a = (if p \<le> a \<and> a < p + length bs then bs ! (a - p) else CHR 0x00)"

definition view :: "(sequence \<Rightarrow> buffer) \<Rightarrow> bytes \<Rightarrow> bytes" where
  "view mk bs = bytes_at (object_memory 1 bs) (mk \<lparr>base = 1, seq_size = length bs, elem_size = 1\<rparr>)"

section \<open>Views show parts of the memory\<close>

lemma length_bytes_at [simp]: "length (bytes_at mem b) = sz b"
  by (simp add: bytes_at_def)

lemma bytes_at_empty [simp]: "sz b = 0 \<Longrightarrow> bytes_at mem b = []"
  by (simp add: bytes_at_def)

lemma bytes_at_shift:
  "bytes_at mem \<lparr>data = data b + min n (sz b), sz = sz b - min n (sz b)\<rparr> = drop n (bytes_at mem b)"
  by (rule nth_equalityI) (auto simp: bytes_at_def min_def add.assoc)

lemma bytes_at_limit: "bytes_at mem \<lparr>data = data b, sz = min (sz b) n\<rparr> = take n (bytes_at mem b)"
  by (rule nth_equalityI) (auto simp: bytes_at_def)

lemma bytes_at_object:
  "bytes_at (object_memory p bs) \<lparr>data = p, sz = length bs\<rparr> = bs"
  by (rule nth_equalityI) (auto simp: bytes_at_def object_memory_def)

lemma bytes_at_prefix:
  "n \<le> length bs \<Longrightarrow> bytes_at (object_memory p bs) \<lparr>data = p, sz = n\<rparr> = take n bs"
  by (rule nth_equalityI) (auto simp: bytes_at_def object_memory_def)

lemma buffer_advance_eqs:
  "mutable_advance b n = \<lparr>data = data b + min n (sz b), sz = sz b - min n (sz b)\<rparr>"
  "const_advance b n = \<lparr>data = data b + min n (sz b), sz = sz b - min n (sz b)\<rparr>"
  "mutable_plus b n = \<lparr>data = data b + min n (sz b), sz = sz b - min n (sz b)\<rparr>"
  "const_plus b n = \<lparr>data = data b + min n (sz b), sz = sz b - min n (sz b)\<rparr>"
  by (cases b; simp add: Let_def mutable_advance_def const_advance_def mutable_plus_def const_plus_def
      mutable_buffer_def const_buffer_def)+

lemma sequence_bytes:
  assumes "length bs = seq_size seq * elem_size seq" "base seq = p"
  shows "bytes_at (object_memory p bs) (buffer_sequence seq None) = bs"
    and "bytes_at (object_memory p bs) (buffer_sequence seq (Some n)) = take n bs"
proof -
  show "bytes_at (object_memory p bs) (buffer_sequence seq None) = bs"
    using assms bytes_at_object [of p bs]
    by (cases "seq_size seq = 0")
      (simp_all add: buffer_sequence_def buffer_contiguous_sequence_def buffer_ptr_def mutable_buffer_def Let_def)
  show "bytes_at (object_memory p bs) (buffer_sequence seq (Some n)) = take n bs"
    using assms bytes_at_prefix [of "min (length bs) n" bs p]
    by (cases "seq_size seq = 0")
      (auto simp: buffer_sequence_def buffer_contiguous_sequence_n_def buffer_ptr_def mutable_buffer_def
        Let_def min_def)
qed

lemma view_string: "view (\<lambda>s. buffer_string s None) bs = bs"
  unfolding view_def buffer_string_def by (rule sequence_bytes) simp_all

lemma view_c_array: "view (\<lambda>s. buffer_c_array s None) bs = bs"
  unfolding view_def buffer_c_array_def by (rule sequence_bytes) simp_all

lemma view_str_buffer: "view str_buffer bs = take (length bs - 1) bs"
  using bytes_at_prefix [of "length bs - 1" bs 1] by (simp add: view_def str_buffer_def const_buffer_def)

lemma zbuf_bytes: "length bs = len * char_size \<Longrightarrow> bytes_at (object_memory p (bs @ zero)) (zbuf char_size p len) = bs"
  using bytes_at_prefix [of "length bs" "bs @ zero" p] by (simp add: zbuf_def const_buffer_def)

text \<open>Adding to a buffer, by either operator and on either side, drops that many bytes from the
  front and never moves past the end; the first \<open>n\<close> bytes of a buffer and the buffer plus \<open>n\<close> are
  together the buffer, and adding twice is adding the sum.\<close>

theorem buffer_arithmetic:
  "bytes_at mem (mutable_plus b n) = drop n (bytes_at mem b) \<and> plus_mutable n b = mutable_plus b n \<and>
   mutable_advance b n = mutable_plus b n \<and>
   const_plus b n = mutable_plus b n \<and> plus_const n b = const_plus b n \<and> const_advance b n = const_plus b n \<and>
   data (mutable_plus b n) + sz (mutable_plus b n) = data b + sz b \<and>
   mutable_plus (mutable_plus b n) m = mutable_plus b (n + m) \<and>
   bytes_at mem (buffer_mutable b (Some n)) @ bytes_at mem (mutable_plus b n) = bytes_at mem b \<and>
   bytes_at mem (buffer_const (const_of_mutable b) (Some n)) = take n (bytes_at mem b)"
proof -
  have "mutable_plus (mutable_plus b n) m = mutable_plus b (n + m)"
    by (auto simp: buffer_advance_eqs min_def)
  moreover have "bytes_at mem (buffer_mutable b (Some n)) = take n (bytes_at mem b)"
    "bytes_at mem (buffer_const (const_of_mutable b) (Some n)) = take n (bytes_at mem b)"
    using bytes_at_limit [of mem b n]
    by (simp_all add: buffer_mutable_def buffer_const_def const_of_mutable_def mutable_buffer_def const_buffer_def)
  ultimately show ?thesis
    by (simp add: buffer_advance_eqs bytes_at_shift plus_mutable_def plus_const_def)
qed

text \<open>A view of a container shows exactly the bytes of its elements (or as many of them as the
  limit allows); of a string literal, \<open>buffer\<close> also shows the terminating zero, \<open>str_buffer\<close> does not.\<close>

theorem buffer_contents:
  assumes "length bs = seq_size seq * elem_size seq"
  shows "bytes_at (object_memory (base seq) bs) (buffer_c_array seq None) = bs \<and>
         bytes_at (object_memory (base seq) bs) (buffer_vector seq (Some n)) = take n bs \<and>
         bytes_at (object_memory (base seq) bs) (buffer_std_array seq (Some n)) = take n bs \<and>
         bytes_at (object_memory (base seq) bs) (buffer_string_view seq None) = bs \<and>
         view (\<lambda>s. buffer_c_array s None) (lit @ [CHR 0x00]) = lit @ [CHR 0x00] \<and>
         view str_buffer (lit @ [CHR 0x00]) = lit"
  using sequence_bytes [OF assms refl] view_c_array [of "lit @ [CHR 0x00]"] view_str_buffer [of "lit @ [CHR 0x00]"]
  by (simp add: buffer_c_array_def buffer_vector_def buffer_std_array_def buffer_string_view_def)

theorem buffer_contents_witness:
  "bytes_at (object_memory 64 ''abcd'') (buffer_vector \<lparr>base = 64, seq_size = 2, elem_size = 2\<rparr> (Some 3)) = ''abc''"
  using buffer_contents [of "''abcd''" "\<lparr>base = 64, seq_size = 2, elem_size = 2\<rparr>" 3 "[]"] by simp

end
