(* ===== verification/Zmq_Socket.thy ===== *)
theory Zmq_Socket
  imports Zmq_Message Zmq_Buffer "HOL-Library.Multiset"
begin

text \<open>
  Contexts, sockets and polling of \<open>zmq.hpp\<close>: \<open>context_t\<close>, the options, \<open>bind\<close> and \<open>connect\<close>,
  \<open>send\<close> and \<open>recv\<close> with their result types and flags, \<open>socket_t\<close> with its moves, \<open>poll\<close>, \<open>proxy\<close>
  and \<open>version\<close>. A context or socket is its handle, 0 when it has none. The theorems: a close
  is repeated while it is interrupted, and every handle has one owner and is closed once.
\<close>

section \<open>Contexts\<close>

definition context_default :: "('w, 'x) libzmq_scheme \<Rightarrow> ('w, nat) io" where
  "context_default lib w =
     (case zmq_ctx_new lib w of (ptr, w') \<Rightarrow> if ptr = 0 then throw_errno lib w' else (Inr ptr, w'))"

definition context_new :: "('w, 'x) libzmq_scheme \<Rightarrow> int \<Rightarrow> int \<Rightarrow> ('w, nat) io" where
  "context_new lib io_threads max_sockets =
     bindIO (context_default lib) (\<lambda>ptr.
       thenIO (assert_call (plain (zmq_ctx_set lib ptr ZMQ_IO_THREADS io_threads)))
         (thenIO (assert_call (plain (zmq_ctx_set lib ptr ZMQ_MAX_SOCKETS max_sockets))) (returnIO ptr)))"

definition context_move :: "nat \<Rightarrow> nat \<times> nat" where
  "context_move rhs = (rhs, 0)"

definition setctxopt :: "('w, 'x) libzmq_scheme \<Rightarrow> nat \<Rightarrow> int \<Rightarrow> int \<Rightarrow> ('w, int) io" where
  "setctxopt lib ptr option optval =
     thenIO (assert_call (plain (zmq_ctx_set lib ptr option optval))) (returnIO 0)"

definition getctxopt :: "('w, 'x) libzmq_scheme \<Rightarrow> nat \<Rightarrow> int \<Rightarrow> ('w, int) io" where
  "getctxopt lib ptr option w = (case zmq_ctx_get lib ptr option w of (rc, w') \<Rightarrow> (Inr rc, w'))"

definition context_set :: "('w, 'x) libzmq_scheme \<Rightarrow> nat \<Rightarrow> int \<Rightarrow> int \<Rightarrow> ('w, unit) io" where
  "context_set lib ptr option optval w =
     (case zmq_ctx_set lib ptr option optval w of
        (rc, w') \<Rightarrow> if rc = - 1 then throw_errno lib w' else (Inr (), w'))"

definition context_get :: "('w, 'x) libzmq_scheme \<Rightarrow> nat \<Rightarrow> int \<Rightarrow> ('w, int) io" where
  "context_get lib ptr option w =
     (case zmq_ctx_get lib ptr option w of
        (rc, w') \<Rightarrow> if rc = - 1 then throw_errno lib w' else (Inr rc, w'))"

text \<open>The loop is left only when \<open>zmq_ctx_term\<close> is not interrupted: \<open>None\<close> means it never is.\<close>

partial_function (option) term_loop :: "('w, 'x) libzmq_scheme \<Rightarrow> nat \<Rightarrow> 'w \<Rightarrow> (int \<times> 'w) option" where
  [code]: "term_loop lib ptr w =
     (let (rc, w') = zmq_ctx_term lib ptr w
      in if rc = - 1 \<and> zmq_errno lib w' = EINTR then term_loop lib ptr w' else Some (rc, w'))"

definition context_close :: "('w, 'x) libzmq_scheme \<Rightarrow> nat \<Rightarrow> ('w, nat) io" where
  "context_close lib ptr w =
     (if ptr = 0 then (Inr 0, w)
      else case term_loop lib ptr w of
             None \<Rightarrow> (Inl Diverges, w)
           | Some (rc, w') \<Rightarrow> if rc = 0 then (Inr 0, w') else (Inl Assert_Failed, w'))"

definition context_move_assign :: "('w, 'x) libzmq_scheme \<Rightarrow> nat \<Rightarrow> nat \<Rightarrow> ('w, nat \<times> nat) io" where
  "context_move_assign lib this rhs = bindIO (context_close lib this) (\<lambda>ptr. returnIO (rhs, ptr))"

definition context_shutdown :: "('w, 'x) libzmq_scheme \<Rightarrow> nat \<Rightarrow> ('w, unit) io" where
  "context_shutdown lib ptr =
     (if ptr = 0 then returnIO () else assert_call (plain (zmq_ctx_shutdown lib ptr)))"

definition context_swap :: "nat \<Rightarrow> nat \<Rightarrow> nat \<times> nat" where
  "context_swap this other = (other, this)"

section \<open>Result types and flags\<close>

record recv_buffer_size =
  written_size :: nat
  untruncated_size :: nat

definition truncated :: "recv_buffer_size \<Rightarrow> bool" where
  "truncated r \<longleftrightarrow> written_size r \<noteq> untruncated_size r"

definition enum_bit_or :: "int \<Rightarrow> int \<Rightarrow> int" where
  "enum_bit_or a b = a OR b"

definition enum_bit_and :: "int \<Rightarrow> int \<Rightarrow> int" where
  "enum_bit_and a b = a AND b"

definition enum_bit_xor :: "int \<Rightarrow> int \<Rightarrow> int" where
  "enum_bit_xor a b = a XOR b"

definition enum_bit_not :: "int \<Rightarrow> int" where
  "enum_bit_not a = NOT a"

definition send_none :: int where "send_none = 0"

definition send_dontwait :: int where "send_dontwait = ZMQ_DONTWAIT"

definition send_sndmore :: int where "send_sndmore = ZMQ_SNDMORE"

definition recv_none :: int where "recv_none = 0"

definition recv_dontwait :: int where "recv_dontwait = ZMQ_DONTWAIT"

section \<open>Options\<close>

text \<open>The bytes of an integer in the memory of the machine, low byte first.\<close>

definition host_bytes :: "nat \<Rightarrow> int \<Rightarrow> bytes" where
  "host_bytes n v = map (\<lambda>i. char_of (nat (v div 256 ^ i mod 256))) [0..<n]"

record integral_option =
  opt :: int
  opt_size :: nat

record array_option =
  array_opt :: int
  null_term :: nat

definition linger :: integral_option where
  "linger = \<lparr>opt = ZMQ_LINGER, opt_size = 4\<rparr>"

definition set_option :: "('w, 'x) libzmq_scheme \<Rightarrow> nat \<Rightarrow> int \<Rightarrow> bytes \<Rightarrow> ('w, unit) io" where
  "set_option lib h option optval = call lib (plain (zmq_setsockopt lib h option optval))"

definition get_option :: "('w, 'x) libzmq_scheme \<Rightarrow> nat \<Rightarrow> int \<Rightarrow> bytes \<Rightarrow> ('w, bytes \<times> nat) io" where
  "get_option lib h option optval = call lib (zmq_getsockopt lib h option optval)"

text \<open>The untyped functions they replace. \<open>getsockopt<T>\<close> gives the local variable as it is after the call,
  however many bytes were stored.\<close>

definition setsockopt :: "('w, 'x) libzmq_scheme \<Rightarrow> nat \<Rightarrow> int \<Rightarrow> bytes \<Rightarrow> ('w, unit) io" where
  "setsockopt lib h opt_id optval = call lib (plain (zmq_setsockopt lib h opt_id optval))"

definition setsockopt_value :: "('w, 'x) libzmq_scheme \<Rightarrow> nat \<Rightarrow> int \<Rightarrow> nat \<Rightarrow> int \<Rightarrow> ('w, unit) io" where
  "setsockopt_value lib h opt_id size_T optval = setsockopt lib h opt_id (host_bytes size_T optval)"

definition getsockopt :: "('w, 'x) libzmq_scheme \<Rightarrow> nat \<Rightarrow> int \<Rightarrow> bytes \<Rightarrow> ('w, bytes \<times> nat) io" where
  "getsockopt lib h opt_id optval = call lib (zmq_getsockopt lib h opt_id optval)"

definition getsockopt_value :: "('w, 'x) libzmq_scheme \<Rightarrow> nat \<Rightarrow> int \<Rightarrow> bytes \<Rightarrow> ('w, bytes) io" where
  "getsockopt_value lib h opt_id optval = bindIO (getsockopt lib h opt_id optval) (\<lambda>(optval, optlen). returnIO optval)"

definition set_integral :: "('w, 'x) libzmq_scheme \<Rightarrow> nat \<Rightarrow> integral_option \<Rightarrow> int \<Rightarrow> ('w, unit) io" where
  "set_integral lib h o' val = set_option lib h (opt o') (host_bytes (opt_size o') val)"

definition set_bool :: "('w, 'x) libzmq_scheme \<Rightarrow> nat \<Rightarrow> integral_option \<Rightarrow> bool \<Rightarrow> ('w, unit) io" where
  "set_bool lib h o' val = (let rep_val = of_bool val in set_option lib h (opt o') (host_bytes (opt_size o') rep_val))"

definition set_cstring :: "('w, 'x) libzmq_scheme \<Rightarrow> nat \<Rightarrow> array_option \<Rightarrow> bytes \<Rightarrow> ('w, unit) io" where
  "set_cstring lib h o' buf = set_option lib h (array_opt o') (takeWhile (\<lambda>c. c \<noteq> CHR 0x00) buf)"

definition set_bytes :: "('w, 'x) libzmq_scheme \<Rightarrow> nat \<Rightarrow> array_option \<Rightarrow> bytes \<Rightarrow> ('w, unit) io" where
  "set_bytes lib h o' buf = set_option lib h (array_opt o') buf"

text \<open>\<open>val\<close> is the memory of the local variable before the call.\<close>

definition get_integral :: "('w, 'x) libzmq_scheme \<Rightarrow> nat \<Rightarrow> integral_option \<Rightarrow> bytes \<Rightarrow> ('w, bytes) io" where
  "get_integral lib h o' val =
     bindIO (get_option lib h (opt o') val) (\<lambda>(val', size).
       thenIO (assertIO (size = opt_size o')) (returnIO val'))"

definition get_array :: "('w, 'x) libzmq_scheme \<Rightarrow> nat \<Rightarrow> array_option \<Rightarrow> bytes \<Rightarrow> ('w, bytes \<times> nat) io" where
  "get_array lib h o' buf = get_option lib h (array_opt o') buf"

definition last_zero :: "string \<Rightarrow> nat \<Rightarrow> ('w, unit) io" where
  "last_zero str n =
     (if n \<le> length str then assertIO (str ! (n - 1) = CHR 0x00) else throwIO Buffer_Overflow)"

definition resize :: "string \<Rightarrow> nat \<Rightarrow> string" where
  "resize str n = take n str @ replicate (n - length str) (CHR 0x00)"

definition get_array_string :: "('w, 'x) libzmq_scheme \<Rightarrow> nat \<Rightarrow> array_option \<Rightarrow> nat \<Rightarrow> ('w, string) io" where
  "get_array_string lib h o' init_size =
     (let init_size = (if null_term o' = 2 \<and> init_size = 1024 then 41 else init_size)
      in bindIO (get_array lib h o' (replicate init_size (CHR 0x00))) (\<lambda>(str, size).
           if null_term o' = 1
           then (if 0 < size then thenIO (last_zero str size) (returnIO (resize str (size - 1)))
                 else returnIO (resize str size))
           else if null_term o' = 2
           then thenIO (assertIO (size = 32 \<or> size = 41))
                  (if size = 41 then thenIO (last_zero str size) (returnIO (resize str (size - 1)))
                   else returnIO (resize str size))
           else returnIO (resize str size)))"

section \<open>Addresses\<close>

definition bind :: "('w, 'x) libzmq_scheme \<Rightarrow> nat \<Rightarrow> string \<Rightarrow> ('w, unit) io" where
  "bind lib h addr = call lib (plain (zmq_bind lib h addr))"

definition unbind :: "('w, 'x) libzmq_scheme \<Rightarrow> nat \<Rightarrow> string \<Rightarrow> ('w, unit) io" where
  "unbind lib h addr = call lib (plain (zmq_unbind lib h addr))"

definition connect :: "('w, 'x) libzmq_scheme \<Rightarrow> nat \<Rightarrow> string \<Rightarrow> ('w, unit) io" where
  "connect lib h addr = call lib (plain (zmq_connect lib h addr))"

definition disconnect :: "('w, 'x) libzmq_scheme \<Rightarrow> nat \<Rightarrow> string \<Rightarrow> ('w, unit) io" where
  "disconnect lib h addr = call lib (plain (zmq_disconnect lib h addr))"

section \<open>Sending and receiving\<close>

text \<open>
  The common end of the functions below: a byte count, nothing when the call would block, an
  exception otherwise. \<open>None\<close> is the empty \<open>optional\<close>.
\<close>

definition nbytes_result :: "('w, 'x) libzmq_scheme \<Rightarrow> int \<Rightarrow> ('w, nat option) io" where
  "nbytes_result lib nbytes w =
     (if 0 \<le> nbytes then (Inr (Some (nat nbytes)), w)
      else if zmq_errno lib w = EAGAIN then (Inr None, w)
      else throw_errno lib w)"

definition send_buffer :: "('w, 'x) libzmq_scheme \<Rightarrow> nat \<Rightarrow> bytes \<Rightarrow> int \<Rightarrow> ('w, nat option) io" where
  "send_buffer lib h buf flags w = (case zmq_send lib h buf flags w of (nbytes, w') \<Rightarrow> nbytes_result lib nbytes w')"

text \<open>A message that was sent is left as libzmq leaves it.\<close>

definition send_message :: "('w, 'x) libzmq_scheme \<Rightarrow> nat \<Rightarrow> zmq_msg_t \<Rightarrow> int \<Rightarrow> ('w, nat option \<times> zmq_msg_t) io" where
  "send_message lib h msg flags w =
     (case zmq_msg_send lib msg h flags w of
        (nbytes, msg', w') \<Rightarrow> bindIO (nbytes_result lib nbytes) (\<lambda>r. returnIO (r, msg')) w')"

definition send_message_rvalue :: "('w, 'x) libzmq_scheme \<Rightarrow> nat \<Rightarrow> zmq_msg_t \<Rightarrow> int \<Rightarrow> ('w, nat option \<times> zmq_msg_t) io" where
  "send_message_rvalue = send_message"

definition send_raw :: "('w, 'x) libzmq_scheme \<Rightarrow> nat \<Rightarrow> bytes \<Rightarrow> int \<Rightarrow> ('w, nat) io" where
  "send_raw lib h buf flags w =
     (case zmq_send lib h buf flags w of
        (nbytes, w') \<Rightarrow>
          if 0 \<le> nbytes then (Inr (nat nbytes), w')
          else if zmq_errno lib w' = EAGAIN then (Inr 0, w') else throw_errno lib w')"

definition send_message_raw :: "('w, 'x) libzmq_scheme \<Rightarrow> nat \<Rightarrow> zmq_msg_t \<Rightarrow> int \<Rightarrow> ('w, bool \<times> zmq_msg_t) io" where
  "send_message_raw lib h msg flags w =
     (case zmq_msg_send lib msg h flags w of
        (nbytes, msg', w') \<Rightarrow>
          if 0 \<le> nbytes then (Inr (True, msg'), w')
          else if zmq_errno lib w' = EAGAIN then (Inr (False, msg'), w') else throw_errno lib w')"

text \<open>The memory of a message variable after a call, also one that ends in an exception.\<close>

definition msg_after_send :: "('w, 'x) libzmq_scheme \<Rightarrow> zmq_msg_t \<Rightarrow> nat \<Rightarrow> int \<Rightarrow> 'w \<Rightarrow> zmq_msg_t" where
  "msg_after_send lib msg h flags w = fst (snd (zmq_msg_send lib msg h flags w))"

definition msg_after_recv :: "('w, 'x) libzmq_scheme \<Rightarrow> zmq_msg_t \<Rightarrow> nat \<Rightarrow> int \<Rightarrow> 'w \<Rightarrow> zmq_msg_t" where
  "msg_after_recv lib msg h flags w = fst (snd (zmq_msg_recv lib msg h flags w))"

definition send_range :: "('w, 'x) libzmq_scheme \<Rightarrow> nat \<Rightarrow> nat \<Rightarrow> bytes list \<Rightarrow> int \<Rightarrow> ('w, bool) io" where
  "send_range lib h value_size elems flags =
     bindIO (message_range lib value_size elems) (\<lambda>msg.
       bindIO (unwinding (send_message_raw lib h msg flags) (\<lambda>w. message_destroy lib (msg_after_send lib msg h flags w)))
         (\<lambda>(r, msg'). thenIO (message_destroy lib msg') (returnIO r)))"

definition recv_raw :: "('w, 'x) libzmq_scheme \<Rightarrow> nat \<Rightarrow> bytes \<Rightarrow> int \<Rightarrow> ('w, nat \<times> bytes) io" where
  "recv_raw lib h buf flags w =
     (case zmq_recv lib h buf flags w of
        (nbytes, buf', w') \<Rightarrow>
          if 0 \<le> nbytes then (Inr (nat nbytes, buf'), w')
          else if zmq_errno lib w' = EAGAIN then (Inr (0, buf'), w') else throw_errno lib w')"

definition recv_message_raw :: "('w, 'x) libzmq_scheme \<Rightarrow> nat \<Rightarrow> zmq_msg_t \<Rightarrow> int \<Rightarrow> ('w, bool \<times> zmq_msg_t) io" where
  "recv_message_raw lib h msg flags w =
     (case zmq_msg_recv lib msg h flags w of
        (nbytes, msg', w') \<Rightarrow>
          if 0 \<le> nbytes then (Inr (True, msg'), w')
          else if zmq_errno lib w' = EAGAIN then (Inr (False, msg'), w') else throw_errno lib w')"

definition recv_buffer :: "('w, 'x) libzmq_scheme \<Rightarrow> nat \<Rightarrow> bytes \<Rightarrow> int \<Rightarrow> ('w, recv_buffer_size option \<times> bytes) io" where
  "recv_buffer lib h buf flags w =
     (case zmq_recv lib h buf flags w of
        (nbytes, buf', w') \<Rightarrow>
          if 0 \<le> nbytes
          then (Inr (Some \<lparr>written_size = min (nat nbytes) (length buf), untruncated_size = nat nbytes\<rparr>, buf'), w')
          else if zmq_errno lib w' = EAGAIN then (Inr (None, buf'), w') else throw_errno lib w')"

definition recv_message :: "('w, 'x) libzmq_scheme \<Rightarrow> nat \<Rightarrow> zmq_msg_t \<Rightarrow> int \<Rightarrow> ('w, nat option \<times> zmq_msg_t) io" where
  "recv_message lib h msg flags w =
     (case zmq_msg_recv lib msg h flags w of
        (nbytes, msg', w') \<Rightarrow>
          if 0 \<le> nbytes
          then thenIO (assertIO (msg_size msg' = nat nbytes)) (returnIO (Some (nat nbytes), msg')) w'
          else if zmq_errno lib w' = EAGAIN then (Inr (None, msg'), w') else throw_errno lib w')"

section \<open>Sockets\<close>

record socket_t =
  handle :: nat
  ctxptr :: nat

definition no_socket :: socket_t where
  "no_socket = \<lparr>handle = 0, ctxptr = 0\<rparr>"

definition socket_new :: "('w, 'x) libzmq_scheme \<Rightarrow> nat \<Rightarrow> int \<Rightarrow> ('w, socket_t) io" where
  "socket_new lib context type w =
     (case zmq_socket lib context type w of
        (h, w') \<Rightarrow> if h = 0 then throw_errno lib w' else (Inr \<lparr>handle = h, ctxptr = context\<rparr>, w'))"

definition socket_new_ptr :: "('w, 'x) libzmq_scheme \<Rightarrow> nat \<Rightarrow> int \<Rightarrow> ('w, socket_t) io" where
  "socket_new_ptr lib context type w =
     (case zmq_socket lib context type w of
        (h, w') \<Rightarrow>
          if h = 0 then throw_errno lib w'
          else if context = 0 then throw_errno lib w'
          else (Inr \<lparr>handle = h, ctxptr = context\<rparr>, w'))"

definition socket_move :: "socket_t \<Rightarrow> socket_t \<times> socket_t" where
  "socket_move rhs = (rhs, no_socket)"

definition socket_close :: "('w, 'x) libzmq_scheme \<Rightarrow> socket_t \<Rightarrow> ('w, socket_t) io" where
  "socket_close lib s =
     (if handle s = 0 then returnIO s
      else thenIO (assert_call (plain (zmq_close lib (handle s)))) (returnIO no_socket))"

definition socket_move_assign :: "('w, 'x) libzmq_scheme \<Rightarrow> socket_t \<Rightarrow> socket_t \<Rightarrow> ('w, socket_t \<times> socket_t) io" where
  "socket_move_assign lib this rhs = bindIO (socket_close lib this) (\<lambda>this'. returnIO (rhs, this'))"

definition socket_swap :: "socket_t \<Rightarrow> socket_t \<Rightarrow> socket_t \<times> socket_t" where
  "socket_swap this other = (other, this)"

definition socket_destroy :: "('w, 'x) libzmq_scheme \<Rightarrow> socket_t \<Rightarrow> ('w, unit) io" where
  "socket_destroy lib s = thenIO (socket_close lib s) (returnIO ())"

text \<open>References are compared by their handles.\<close>

definition ref_null :: "nat \<Rightarrow> bool" where
  "ref_null sr \<longleftrightarrow> sr = 0"

definition ref_not_null :: "nat \<Rightarrow> bool" where
  "ref_not_null sr \<longleftrightarrow> \<not> ref_null sr"

definition ref_eq :: "nat \<Rightarrow> nat \<Rightarrow> bool" where
  "ref_eq a b \<longleftrightarrow> a = b"

definition ref_neq :: "nat \<Rightarrow> nat \<Rightarrow> bool" where
  "ref_neq a b \<longleftrightarrow> \<not> ref_eq a b"

definition ref_less :: "nat \<Rightarrow> nat \<Rightarrow> bool" where
  "ref_less a b \<longleftrightarrow> a < b"

definition ref_greater :: "nat \<Rightarrow> nat \<Rightarrow> bool" where
  "ref_greater a b \<longleftrightarrow> ref_less b a"

definition ref_less_eq :: "nat \<Rightarrow> nat \<Rightarrow> bool" where
  "ref_less_eq a b \<longleftrightarrow> \<not> ref_greater a b"

definition ref_greater_eq :: "nat \<Rightarrow> nat \<Rightarrow> bool" where
  "ref_greater_eq a b \<longleftrightarrow> \<not> ref_less a b"

section \<open>Polling, proxy, version\<close>

definition detail_poll :: "('w, 'x) libzmq_scheme \<Rightarrow> zmq_pollitem_t list \<Rightarrow> nat \<Rightarrow> int \<Rightarrow> ('w, int \<times> zmq_pollitem_t list) io" where
  "detail_poll lib items nitems timeout w =
     (case zmq_poll lib (take nitems items) (int nitems) timeout w of
        (rc, items', w') \<Rightarrow>
          if rc < 0 then throw_errno lib w' else (Inr (rc, items' @ drop nitems items), w'))"

definition poll :: "('w, 'x) libzmq_scheme \<Rightarrow> zmq_pollitem_t list \<Rightarrow> nat \<Rightarrow> int \<Rightarrow> ('w, int \<times> zmq_pollitem_t list) io" where
  "poll lib items nitems timeout = detail_poll lib items nitems timeout"

definition poll_vector :: "('w, 'x) libzmq_scheme \<Rightarrow> zmq_pollitem_t list \<Rightarrow> int \<Rightarrow> ('w, int \<times> zmq_pollitem_t list) io" where
  "poll_vector lib items timeout = detail_poll lib items (length items) timeout"

definition proxy :: "('w, 'x) libzmq_scheme \<Rightarrow> nat \<Rightarrow> nat \<Rightarrow> nat \<Rightarrow> ('w, unit) io" where
  "proxy lib frontend backend capture = call lib (plain (zmq_proxy lib frontend backend capture))"

definition version :: "('w, 'x) libzmq_scheme \<Rightarrow> int \<times> int \<times> int" where
  "version lib = zmq_version lib"

section \<open>Results\<close>

section \<open>Interrupted termination\<close>

definition interrupted :: "('w, 'x) libzmq_scheme \<Rightarrow> nat \<Rightarrow> 'w \<Rightarrow> 'w \<Rightarrow> bool" where
  "interrupted lib ptr w w' \<longleftrightarrow> zmq_ctx_term lib ptr w = (- 1, w') \<and> zmq_errno lib w' = EINTR"

lemma term_loop_step: "interrupted lib ptr w w' \<Longrightarrow> term_loop lib ptr w = term_loop lib ptr w'"
  by (subst term_loop.simps) (simp add: interrupted_def)

lemma term_loop_interrupted:
  "\<forall>i<k. interrupted lib ptr (ws i) (ws (Suc i)) \<Longrightarrow> term_loop lib ptr (ws 0) = term_loop lib ptr (ws k)"
proof (induction k)
  case (Suc k)
  then have "term_loop lib ptr (ws k) = term_loop lib ptr (ws (Suc k))" by (intro term_loop_step) simp
  with Suc show ?case by simp
qed simp

lemma term_loop_returns:
  assumes "term_loop lib ptr w = Some r"
  shows "\<forall>ws. ws 0 = w \<longrightarrow> (\<exists>i. \<not> interrupted lib ptr (ws i) (ws (Suc i)))"
proof (rule term_loop.raw_induct [where
      P = "\<lambda>lib ptr w r. \<forall>ws. ws 0 = w \<longrightarrow> (\<exists>i. \<not> interrupted lib ptr (ws i) (ws (Suc i)))",
      OF _ assms], intro allI impI)
  fix rec_loop and lib :: "('a, 'b) libzmq_scheme" and ptr w r and ws :: "nat \<Rightarrow> 'a"
  assume IH: "\<And>ptr w b y. rec_loop ptr w b = Some y \<Longrightarrow>
      \<forall>ws. ws 0 = b \<longrightarrow> (\<exists>i. \<not> interrupted ptr w (ws i) (ws (Suc i)))"
    and body: "(let (rc, w') = zmq_ctx_term lib ptr w
      in if rc = - 1 \<and> zmq_errno lib w' = EINTR then rec_loop lib ptr w' else Some (rc, w')) = Some r"
    and start: "ws 0 = w"
  show "\<exists>i. \<not> interrupted lib ptr (ws i) (ws (Suc i))"
  proof (cases "interrupted lib ptr (ws 0) (ws (Suc 0))")
    case True
    then have "rec_loop lib ptr (ws (Suc 0)) = Some r" using body start by (simp add: interrupted_def)
    from IH [OF this, rule_format, of "\<lambda>i. ws (Suc i)"] show ?thesis by blast
  qed blast
qed

lemma term_loop_diverges:
  "term_loop lib ptr w = None \<longleftrightarrow> (\<exists>vs. vs 0 = w \<and> (\<forall>i. interrupted lib ptr (vs i) (vs (Suc i))))"
proof
  assume none: "term_loop lib ptr w = None"
  define vs where "vs i = ((\<lambda>w. snd (zmq_ctx_term lib ptr w)) ^^ i) w" for i
  have step: "interrupted lib ptr v (snd (zmq_ctx_term lib ptr v)) \<and> term_loop lib ptr (snd (zmq_ctx_term lib ptr v)) = None"
    if "term_loop lib ptr v = None" for v
    using that by (subst (asm) term_loop.simps) (auto simp: interrupted_def split: prod.splits if_splits)
  have loop: "term_loop lib ptr (vs i) = None" for i
  proof (induction i)
    case (Suc i)
    then show ?case using step by (simp add: vs_def)
  qed (simp add: vs_def none)
  have "interrupted lib ptr (vs i) (vs (Suc i))" for i using step [OF loop [of i]] by (simp add: vs_def)
  then show "\<exists>vs. vs 0 = w \<and> (\<forall>i. interrupted lib ptr (vs i) (vs (Suc i)))"
    by (intro exI [of _ vs]) (simp add: vs_def)
next
  assume "\<exists>vs. vs 0 = w \<and> (\<forall>i. interrupted lib ptr (vs i) (vs (Suc i)))"
  then show "term_loop lib ptr w = None"
    using term_loop_returns [of lib ptr w] by (cases "term_loop lib ptr w") auto
qed

text \<open>C30: Closing a context that has one terminates it again as long as the call is interrupted by a
  signal: after any number of interruptions the first call that is not ends the loop, empties the
  object when it has succeeded, and fails the assertion otherwise. The close does not return exactly
  when the interruptions have no end. An empty context is left alone.\<close>

theorem context_close_retries:
  assumes "ptr \<noteq> 0"
  shows "(\<forall>k ws rc w'. ws 0 = w \<and> (\<forall>i<k. interrupted lib ptr (ws i) (ws (Suc i))) \<and>
           zmq_ctx_term lib ptr (ws k) = (rc, w') \<and> \<not> (rc = - 1 \<and> zmq_errno lib w' = EINTR) \<longrightarrow>
           context_close lib ptr w = (if rc = 0 then Inr 0 else Inl Assert_Failed, w')) \<and>
         (context_close lib ptr w = (Inl Diverges, w) \<longleftrightarrow>
           (\<exists>vs. vs 0 = w \<and> (\<forall>i. interrupted lib ptr (vs i) (vs (Suc i))))) \<and>
         context_close lib 0 w = (Inr 0, w)"
proof (intro conjI allI impI)
  fix k ws rc w'
  assume run: "ws 0 = w \<and> (\<forall>i<k. interrupted lib ptr (ws i) (ws (Suc i))) \<and>
      zmq_ctx_term lib ptr (ws k) = (rc, w') \<and> \<not> (rc = - 1 \<and> zmq_errno lib w' = EINTR)"
  then have "term_loop lib ptr w = term_loop lib ptr (ws k)" using term_loop_interrupted [of k lib ptr ws] by simp
  also have "\<dots> = Some (rc, w')" using run by (subst term_loop.simps) auto
  finally show "context_close lib ptr w = (if rc = 0 then Inr 0 else Inl Assert_Failed, w')"
    using assms by (simp add: context_close_def)
next
  have "context_close lib ptr w = (Inl Diverges, w) \<longleftrightarrow> term_loop lib ptr w = None"
    using assms by (auto simp: context_close_def split: option.splits if_splits)
  then show "context_close lib ptr w = (Inl Diverges, w) \<longleftrightarrow>
      (\<exists>vs. vs 0 = w \<and> (\<forall>i. interrupted lib ptr (vs i) (vs (Suc i))))"
    unfolding term_loop_diverges .
next
  show "context_close lib 0 w = (Inr 0, w)" by (simp add: context_close_def)
qed

text \<open>Interrupted while the world is above zero, counting down; above nine without end.\<close>

definition busy :: "nat libzmq" where
  "busy = calm\<lparr>zmq_errno := \<lambda>w. EINTR,
               zmq_ctx_term := \<lambda>c w. (if w = 0 then 0 else - 1, if 9 < w then w else w - 1)\<rparr>"

theorem context_close_retries_witness: "context_close busy 1 3 = (Inr 0, 0) \<and> context_close busy 1 10 = (Inl Diverges, 10)"
proof
  have one: "(1 :: nat) \<noteq> 0" by simp
  from conjunct1 [OF context_close_retries [OF one], rule_format, of "\<lambda>i. 3 - i" 3 3 busy 0 0]
  show "context_close busy 1 3 = (Inr 0, 0)" by (simp add: busy_def interrupted_def)
  have "\<exists>vs. vs 0 = 10 \<and> (\<forall>i. interrupted busy 1 (vs i) (vs (Suc i)))"
    by (intro exI [of _ "\<lambda>i. 10"]) (simp add: busy_def interrupted_def)
  then show "context_close busy 1 10 = (Inl Diverges, 10)"
    by (rule context_close_retries [OF one, THEN conjunct2, THEN conjunct1, THEN iffD2])
qed

section \<open>Ownership of handles\<close>

text \<open>
  A program over socket variables: the operations of \<open>socket_t\<close> on variables by position. A variable
  that is assigned to itself is closed, and then swapped with itself.
\<close>

datatype sock_op = Construct nat int | Move_Construct nat | Move_Assign nat nat | Swap nat nat | Close nat

fun sock_exec :: "('w, 'x) libzmq_scheme \<Rightarrow> sock_op \<Rightarrow> socket_t list \<Rightarrow> ('w, socket_t list) io" where
  "sock_exec lib (Construct context type) ss = bindIO (socket_new lib context type) (\<lambda>s. returnIO (ss @ [s]))"
| "sock_exec lib (Move_Construct i) ss =
     returnIO (if i < length ss then let (new, old) = socket_move (ss ! i) in ss[i := old] @ [new] else ss)"
| "sock_exec lib (Move_Assign i j) ss =
     (if i < length ss \<and> j < length ss \<and> i \<noteq> j
      then bindIO (socket_move_assign lib (ss ! i) (ss ! j)) (\<lambda>(a, b). returnIO (ss[i := a, j := b]))
      else if i < length ss \<and> i = j
      then bindIO (socket_close lib (ss ! i)) (\<lambda>s. returnIO (ss[i := s]))
      else returnIO ss)"
| "sock_exec lib (Swap i j) ss =
     returnIO (if i < length ss \<and> j < length ss \<and> i \<noteq> j
               then let (a, b) = socket_swap (ss ! i) (ss ! j) in ss[i := a, j := b] else ss)"
| "sock_exec lib (Close i) ss =
     (if i < length ss then bindIO (socket_close lib (ss ! i)) (\<lambda>s. returnIO (ss[i := s])) else returnIO ss)"

text \<open>An exception of libzmq is caught and the program goes on with the next operation.\<close>

fun sock_run :: "('w, 'x) libzmq_scheme \<Rightarrow> sock_op list \<Rightarrow> socket_t list \<Rightarrow> ('w, socket_t list) io" where
  "sock_run lib [] ss w = (Inr ss, w)"
| "sock_run lib (op # ops) ss w =
     (case sock_exec lib op ss w of
        (Inr ss', w') \<Rightarrow> sock_run lib ops ss' w'
      | (Inl (Zmq_Error n), w') \<Rightarrow> sock_run lib ops ss w'
      | (Inl e, w') \<Rightarrow> (Inl e, w'))"

fun destroy_all :: "('w, 'x) libzmq_scheme \<Rightarrow> socket_t list \<Rightarrow> ('w, unit) io" where
  "destroy_all lib [] = returnIO ()"
| "destroy_all lib (s # ss) = thenIO (destroy_all lib ss) (socket_destroy lib s)"

definition handles :: "socket_t list \<Rightarrow> nat list" where
  "handles ss = filter (\<lambda>h. h \<noteq> 0) (map handle ss)"

definition owns :: "('w \<Rightarrow> nat set) \<Rightarrow> socket_t list \<Rightarrow> 'w \<Rightarrow> bool" where
  "owns open_handles ss w \<longleftrightarrow> distinct (handles ss) \<and> set (handles ss) = open_handles w"

text \<open>libzmq gives fresh handles, and closes those that are open; a second close has no law.\<close>

definition handle_laws :: "('w, 'x) libzmq_scheme \<Rightarrow> ('w \<Rightarrow> nat set) \<Rightarrow> bool" where
  "handle_laws lib open_handles \<longleftrightarrow>
     (\<forall>c t w h w'. zmq_socket lib c t w = (h, w') \<longrightarrow>
        (if h = 0 then open_handles w' = open_handles w
         else h \<notin> open_handles w \<and> open_handles w' = insert h (open_handles w))) \<and>
     (\<forall>h w. h \<in> open_handles w \<longrightarrow>
        (\<exists>w'. zmq_close lib h w = (0, w') \<and> open_handles w' = open_handles w - {h}))"

text \<open>How many variables hold a handle.\<close>

definition holders :: "socket_t list \<Rightarrow> nat \<Rightarrow> nat" where
  "holders ss h = count (mset (map handle ss)) h"

lemma holders_simps [simp]:
  "holders [] h = 0"
  "holders (s # ss) h = of_bool (handle s = h) + holders ss h"
  "holders (ss @ ts) h = holders ss h + holders ts h"
  by (auto simp: holders_def)

lemma holders_update:
  assumes "i < length ss"
  shows "holders (ss[i := s]) h + of_bool (handle (ss ! i) = h) = holders ss h + of_bool (handle s = h)"
proof -
  have "ss = take i ss @ ss ! i # drop (Suc i) ss" using assms by (rule id_take_nth_drop)
  then have "holders ss h = holders (take i ss) h + of_bool (handle (ss ! i) = h) + holders (drop (Suc i) ss) h"
    by (metis (no_types, lifting) add.assoc holders_simps(2) holders_simps(3))
  then show ?thesis using assms by (simp add: upd_conv_take_nth_drop)
qed

lemma holders_handles: "h \<noteq> 0 \<Longrightarrow> count (mset (handles ss)) h = holders ss h"
  by (simp add: handles_def holders_def)

lemma owns_holders:
  "owns open_handles ss w \<longleftrightarrow> 0 \<notin> open_handles w \<and> (\<forall>h. h \<noteq> 0 \<longrightarrow> holders ss h = of_bool (h \<in> open_handles w))"
proof
  assume own: "owns open_handles ss w"
  then have "0 \<notin> open_handles w" by (auto simp: owns_def handles_def)
  moreover have "holders ss h = of_bool (h \<in> open_handles w)" if "h \<noteq> 0" for h
    using own distinct_count_atmost_1 [of "handles ss"] holders_handles [OF that, of ss]
    by (auto simp: owns_def)
  ultimately show "0 \<notin> open_handles w \<and> (\<forall>h. h \<noteq> 0 \<longrightarrow> holders ss h = of_bool (h \<in> open_handles w))" by blast
next
  assume h: "0 \<notin> open_handles w \<and> (\<forall>h. h \<noteq> 0 \<longrightarrow> holders ss h = of_bool (h \<in> open_handles w))"
  have mem: "h \<in> set (handles ss) \<longleftrightarrow> h \<in> open_handles w" for h
  proof (cases "h = 0")
    case True
    with h show ?thesis by (simp add: handles_def)
  next
    case False
    with h have "count (mset (handles ss)) h = of_bool (h \<in> open_handles w)" by (simp add: holders_handles)
    then show ?thesis by (metis count_mset_0_iff of_bool_eq_0_iff)
  qed
  have "count (mset (handles ss)) h = (if h \<in> set (handles ss) then 1 else 0)" for h
  proof (cases "h = 0")
    case True
    then show ?thesis by (simp add: handles_def)
  next
    case False
    with h mem show ?thesis by (simp add: holders_handles)
  qed
  then have "distinct (handles ss)" by (simp add: distinct_count_atmost_1)
  with mem show "owns open_handles ss w" by (auto simp: owns_def)
qed

lemma socket_close_owned:
  assumes "handle_laws lib O'" "0 \<notin> O' w" "handle s \<noteq> 0 \<longrightarrow> handle s \<in> O' w"
  shows "\<exists>s' w'. socket_close lib s w = (Inr s', w') \<and> handle s' = 0 \<and> O' w' = O' w - {handle s}"
proof (cases "handle s = 0")
  case True
  with assms show ?thesis by (auto simp: socket_close_def)
next
  case False
  with assms(3) have "handle s \<in> O' w" by blast
  then obtain w' where "zmq_close lib (handle s) w = (0, w')" "O' w' = O' w - {handle s}"
    using assms(1) unfolding handle_laws_def by meson
  with False show ?thesis
    by (auto simp: socket_close_def thenIO_def bindIO_def assert_call_def plain_def no_socket_def)
qed

lemma owns_close:
  assumes "handle_laws lib O'" "owns O' ss w" "i < length ss"
  shows "\<exists>s' w'. socket_close lib (ss ! i) w = (Inr s', w') \<and> handle s' = 0 \<and> owns O' (ss[i := s']) w'"
proof -
  let ?h = "handle (ss ! i)"
  have own: "0 \<notin> O' w" "\<And>h. h \<noteq> 0 \<Longrightarrow> holders ss h = of_bool (h \<in> O' w)"
    using assms(2) by (auto simp: owns_holders)
  have "?h \<noteq> 0 \<longrightarrow> ?h \<in> O' w" using assms(2,3) by (auto simp: owns_def handles_def)
  from socket_close_owned [OF assms(1) own(1) this] obtain s' w' where
    close: "socket_close lib (ss ! i) w = (Inr s', w')" "handle s' = 0" "O' w' = O' w - {?h}" by blast
  have "holders (ss[i := s']) h = of_bool (h \<in> O' w')" if "h \<noteq> 0" for h
  proof -
    have "holders (ss[i := s']) h + of_bool (?h = h) = of_bool (h \<in> O' w)"
      using holders_update [OF assms(3), of s' h] own(2) [OF that] close(2) that by simp
    with close(3) show ?thesis by (cases "?h = h"; cases "h \<in> O' w") simp_all
  qed
  with own(1) close show ?thesis by (auto simp: owns_holders)
qed

lemma owns_same:
  assumes "owns O' ss w" "\<And>h. h \<noteq> 0 \<Longrightarrow> holders ts h = holders ss h"
  shows "owns O' ts w"
  using assms by (simp add: owns_holders)

lemma holders_swap:
  assumes "i < length ss" "j < length ss" "i \<noteq> j" "handle a = handle (ss ! j)" "handle b = handle (ss ! i)"
  shows "holders (ss[i := a, j := b]) h = holders ss h"
  using holders_update [of i ss a h] holders_update [of j "ss[i := a]" b h] assms by (auto split: if_splits)

lemma sock_exec_owns:
  assumes laws: "handle_laws lib O'" and own: "owns O' ss w"
  shows "(\<exists>ss' w'. sock_exec lib op ss w = (Inr ss', w') \<and> owns O' ss' w') \<or>
         (\<exists>n w'. sock_exec lib op ss w = (Inl (Zmq_Error n), w') \<and> owns O' ss w')"
proof (cases op)
  case (Construct ctx type)
  obtain h w' where c: "zmq_socket lib ctx type w = (h, w')" by (meson surj_pair)
  show ?thesis
  proof (cases "h = 0")
    case True
    with c laws have "O' w' = O' w" by (auto simp: handle_laws_def)
    with True c own Construct show ?thesis
      by (auto simp: socket_new_def bindIO_def throw_errno_eq owns_def)
  next
    case False
    with c laws have "h \<notin> O' w" "O' w' = insert h (O' w)" by (auto simp: handle_laws_def)
    with False c own Construct show ?thesis
      by (auto simp: socket_new_def bindIO_def owns_holders)
  qed
next
  case (Move_Construct i)
  show ?thesis
  proof (cases "i < length ss")
    case True
    have "owns O' (ss[i := no_socket] @ [ss ! i]) w"
      by (rule owns_same [OF own]) (use holders_update [OF True, of no_socket] in \<open>auto simp: no_socket_def split: if_splits\<close>)
    with True Move_Construct show ?thesis by (simp add: socket_move_def)
  qed (use own Move_Construct in simp)
next
  case (Move_Assign i j)
  consider "i < length ss" "j < length ss" "i \<noteq> j" | "i < length ss" "i = j" | "\<not> (i < length ss \<and> j < length ss)"
    by blast
  then show ?thesis
  proof cases
    case 1
    from owns_close [OF laws own 1(1)] obtain s' w' where
      close: "socket_close lib (ss ! i) w = (Inr s', w')" and own': "owns O' (ss[i := s']) w'" by blast
    have "owns O' (ss[i := ss ! j, j := s']) w'"
      by (rule owns_same [OF own']) (use holders_swap [of i "ss[i := s']" j "ss ! j" s'] 1 in \<open>simp\<close>)
    with close 1 Move_Assign show ?thesis by (simp add: socket_move_assign_def bindIO_def)
  next
    case 2
    from owns_close [OF laws own 2(1)] obtain s' w' where
      "socket_close lib (ss ! i) w = (Inr s', w')" "owns O' (ss[i := s']) w'" by blast
    with 2 Move_Assign show ?thesis by (simp add: bindIO_def)
  qed (use own Move_Assign in auto)
next
  case (Swap i j)
  have "owns O' (ss[i := ss ! j, j := ss ! i]) w" if "i < length ss \<and> j < length ss \<and> i \<noteq> j"
    by (rule owns_same [OF own]) (use holders_swap [of i ss j] that in simp)
  with own Swap show ?thesis by (simp add: socket_swap_def)
next
  case (Close i)
  show ?thesis
  proof (cases "i < length ss")
    case True
    from owns_close [OF laws own True] obtain s' w' where
      "socket_close lib (ss ! i) w = (Inr s', w')" "owns O' (ss[i := s']) w'" by blast
    with True Close show ?thesis by (simp add: bindIO_def)
  qed (use own Close in simp)
qed

lemma sock_run_owns:
  assumes "handle_laws lib O'"
  shows "owns O' ss w \<Longrightarrow> \<exists>ss' w'. sock_run lib ops ss w = (Inr ss', w') \<and> owns O' ss' w'"
proof (induction ops arbitrary: ss w)
  case (Cons op ops)
  from sock_exec_owns [OF assms Cons.prems, of op] Cons.IH show ?case by (auto split: prod.split)
qed simp

lemma handles_Cons: "handles (s # ss) = (if handle s = 0 then handles ss else handle s # handles ss)"
  by (simp add: handles_def)

lemma destroy_all_owned:
  assumes "handle_laws lib O'"
  shows "0 \<notin> O' w \<Longrightarrow> distinct (handles ss) \<Longrightarrow> set (handles ss) \<subseteq> O' w \<Longrightarrow>
         \<exists>w'. destroy_all lib ss w = (Inr (), w') \<and> O' w' = O' w - set (handles ss)"
proof (induction ss arbitrary: w)
  case Nil
  then show ?case by (simp add: handles_def)
next
  case (Cons s ss)
  have "distinct (handles ss)" "set (handles ss) \<subseteq> O' w"
    using Cons.prems(2,3) by (auto simp: handles_Cons split: if_splits)
  from Cons.IH [OF Cons.prems(1) this] obtain w1 where
    tail: "destroy_all lib ss w = (Inr (), w1)" "O' w1 = O' w - set (handles ss)" by blast
  have "handle s \<noteq> 0 \<longrightarrow> handle s \<in> O' w1"
    using Cons.prems(2,3) tail(2) by (auto simp: handles_Cons)
  moreover have "0 \<notin> O' w1" using Cons.prems(1) tail(2) by simp
  ultimately obtain s' w2 where
    "socket_close lib s w1 = (Inr s', w2)" "O' w2 = O' w1 - {handle s}"
    using socket_close_owned [OF assms, of w1 s] by blast
  with tail Cons.prems(1) show ?case
    by (auto simp: thenIO_def bindIO_def socket_destroy_def handles_Cons)
qed

lemma destroy_all_owns:
  assumes "handle_laws lib O'" "owns O' ss w"
  shows "\<exists>w'. destroy_all lib ss w = (Inr (), w') \<and> O' w' = {}"
proof -
  have "0 \<notin> O' w" "distinct (handles ss)" "set (handles ss) = O' w"
    using assms(2) by (auto simp: owns_def handles_def)
  with destroy_all_owned [OF assms(1)] show ?thesis by fastforce
qed

text \<open>C10: every handle has exactly one owner. Whatever sequence of constructions, moves, assignments,
  swaps and closes a program performs on socket variables, with constructions failing at any
  point, no close is ever made twice (libzmq promises nothing for one), none fails, and when the
  variables are destroyed no handle is left open.\<close>

theorem sockets_closed_once:
  assumes "handle_laws lib open_handles" "open_handles w = {}"
  shows "\<exists>w'. bindIO (sock_run lib ops []) (destroy_all lib) w = (Inr (), w') \<and> open_handles w' = {}"
proof -
  have "owns open_handles [] w" using assms(2) by (simp add: owns_def handles_def)
  from sock_run_owns [OF assms(1) this, of ops] obtain ss w1 where
    run: "sock_run lib ops [] w = (Inr ss, w1)" "owns open_handles ss w1" by blast
  with destroy_all_owns [OF assms(1)] show ?thesis by (auto simp: bindIO_def)
qed


text \<open>A library that numbers its sockets and remembers which are open; it makes at most two.\<close>

definition numbering :: "(nat \<times> nat set) libzmq" where
  "numbering = calm\<lparr>
     zmq_socket := \<lambda>c t (n, open_set). if n < 2 then (Suc n, Suc n, insert (Suc n) {h \<in> open_set. h \<le> n}) else (0, n, open_set),
     zmq_close := \<lambda>h (n, open_set). (if h \<in> open_set then 0 else - 1, n, open_set - {h})\<rparr>"

definition numbering_open :: "nat \<times> nat set \<Rightarrow> nat set" where
  "numbering_open w = {h \<in> snd w. h \<le> fst w}"

lemma numbering_laws: "handle_laws numbering numbering_open"
  by (auto simp: handle_laws_def numbering_def calm_def numbering_open_def split: if_splits)

theorem sockets_closed_once_witness:
  "\<exists>w'. bindIO (sock_run numbering [Construct 1 3, Construct 1 4, Construct 1 4, Move_Construct 0, Move_Assign 1 2, Swap 0 1, Close 0] [])
          (destroy_all numbering) (0, {}) = (Inr (), w') \<and> numbering_open w' = {}"
  by (rule sockets_closed_once [OF numbering_laws]) (simp add: numbering_open_def)

end
