(* ===== verification/Zmq_Options.thy ===== *)
theory Zmq_Options
  imports Zmq_Socket Zmq_Constants
begin

text \<open>
  The options of sockets (\<open>zmq::sockopt\<close> in \<open>zmq.hpp\<close>): the table of their names, numbers and types,
  and what the typed \<open>set\<close> and \<open>get\<close> of \<open>Zmq_Socket\<close> do with an entry of it. The theorems: of an
  option that can be read, an integer that was set is read back, and a string is read without its
  terminating zero.
\<close>

section \<open>The table\<close>

text \<open>
  An integral option has the size of its type in bytes, whether it is signed, and whether it also
  takes a boolean; an array option says how it is terminated.
\<close>

datatype option_kind = Integral nat bool bool | Array nat

type_synonym sockopt = "string \<times> int \<times> option_kind"

definition sockopts_affinity_to_immediate :: "sockopt list" where
  "sockopts_affinity_to_immediate =
    [(''affinity'', ZMQ_AFFINITY, Integral 8 False False),
     (''backlog'', ZMQ_BACKLOG, Integral 4 True False),
     (''bindtodevice'', ZMQ_BINDTODEVICE, Array 0),
     (''conflate'', ZMQ_CONFLATE, Integral 4 True True),
     (''connect_routing_id'', ZMQ_CONNECT_ROUTING_ID, Array 1),
     (''connect_timeout'', ZMQ_CONNECT_TIMEOUT, Integral 4 True False),
     (''curve_publickey'', ZMQ_CURVE_PUBLICKEY, Array 2),
     (''curve_secretkey'', ZMQ_CURVE_SECRETKEY, Array 2),
     (''curve_server'', ZMQ_CURVE_SERVER, Integral 4 True True),
     (''curve_serverkey'', ZMQ_CURVE_SERVERKEY, Array 2),
     (''events'', ZMQ_EVENTS, Integral 4 True False),
     (''fd'', ZMQ_FD, Integral 4 True False),
     (''gssapi_plaintext'', ZMQ_GSSAPI_PLAINTEXT, Integral 4 True True),
     (''gssapi_server'', ZMQ_GSSAPI_SERVER, Integral 4 True True),
     (''gssapi_service_principal'', ZMQ_GSSAPI_SERVICE_PRINCIPAL, Array 1),
     (''gssapi_service_principal_nametype'', ZMQ_GSSAPI_SERVICE_PRINCIPAL_NAMETYPE, Integral 4 True False),
     (''gssapi_principal'', ZMQ_GSSAPI_PRINCIPAL, Array 1),
     (''gssapi_principal_nametype'', ZMQ_GSSAPI_PRINCIPAL_NAMETYPE, Integral 4 True False),
     (''handshake_ivl'', ZMQ_HANDSHAKE_IVL, Integral 4 True False),
     (''heartbeat_ivl'', ZMQ_HEARTBEAT_IVL, Integral 4 True False),
     (''heartbeat_timeout'', ZMQ_HEARTBEAT_TIMEOUT, Integral 4 True False),
     (''heartbeat_ttl'', ZMQ_HEARTBEAT_TTL, Integral 4 True False),
     (''immediate'', ZMQ_IMMEDIATE, Integral 4 True True)]"

definition sockopts_invert_to_router :: "sockopt list" where
  "sockopts_invert_to_router =
    [(''invert_matching'', ZMQ_INVERT_MATCHING, Integral 4 True True),
     (''ipv6'', ZMQ_IPV6, Integral 4 True True),
     (''last_endpoint'', ZMQ_LAST_ENDPOINT, Array 1),
     (''linger'', ZMQ_LINGER, Integral 4 True False),
     (''maxmsgsize'', ZMQ_MAXMSGSIZE, Integral 8 True False),
     (''mechanism'', ZMQ_MECHANISM, Integral 4 True False),
     (''multicast_hops'', ZMQ_MULTICAST_HOPS, Integral 4 True False),
     (''multicast_maxtpdu'', ZMQ_MULTICAST_MAXTPDU, Integral 4 True False),
     (''plain_server'', ZMQ_PLAIN_SERVER, Integral 4 True True),
     (''plain_password'', ZMQ_PLAIN_PASSWORD, Array 1),
     (''plain_username'', ZMQ_PLAIN_USERNAME, Array 1),
     (''use_fd'', ZMQ_USE_FD, Integral 4 True False),
     (''probe_router'', ZMQ_PROBE_ROUTER, Integral 4 True True),
     (''rate'', ZMQ_RATE, Integral 4 True False),
     (''rcvbuf'', ZMQ_RCVBUF, Integral 4 True False),
     (''rcvhwm'', ZMQ_RCVHWM, Integral 4 True False),
     (''rcvmore'', ZMQ_RCVMORE, Integral 4 True True),
     (''rcvtimeo'', ZMQ_RCVTIMEO, Integral 4 True False),
     (''reconnect_ivl'', ZMQ_RECONNECT_IVL, Integral 4 True False),
     (''reconnect_ivl_max'', ZMQ_RECONNECT_IVL_MAX, Integral 4 True False),
     (''recovery_ivl'', ZMQ_RECOVERY_IVL, Integral 4 True False),
     (''req_correlate'', ZMQ_REQ_CORRELATE, Integral 4 True True),
     (''req_relaxed'', ZMQ_REQ_RELAXED, Integral 4 True True),
     (''router_handover'', ZMQ_ROUTER_HANDOVER, Integral 4 True True),
     (''router_mandatory'', ZMQ_ROUTER_MANDATORY, Integral 4 True True)]"

definition sockopts_routing_to_zap :: "sockopt list" where
  "sockopts_routing_to_zap =
    [(''routing_id'', ZMQ_ROUTING_ID, Array 0),
     (''sndbuf'', ZMQ_SNDBUF, Integral 4 True False),
     (''sndhwm'', ZMQ_SNDHWM, Integral 4 True False),
     (''sndtimeo'', ZMQ_SNDTIMEO, Integral 4 True False),
     (''socks_proxy'', ZMQ_SOCKS_PROXY, Array 1),
     (''stream_notify'', ZMQ_STREAM_NOTIFY, Integral 4 True True),
     (''subscribe'', ZMQ_SUBSCRIBE, Array 1),
     (''tcp_keepalive'', ZMQ_TCP_KEEPALIVE, Integral 4 True False),
     (''tcp_keepalive_cnt'', ZMQ_TCP_KEEPALIVE_CNT, Integral 4 True False),
     (''tcp_keepalive_idle'', ZMQ_TCP_KEEPALIVE_IDLE, Integral 4 True False),
     (''tcp_keepalive_intvl'', ZMQ_TCP_KEEPALIVE_INTVL, Integral 4 True False),
     (''tcp_maxrt'', ZMQ_TCP_MAXRT, Integral 4 True False),
     (''thread_safe'', ZMQ_THREAD_SAFE, Integral 4 True True),
     (''tos'', ZMQ_TOS, Integral 4 True False),
     (''type'', ZMQ_TYPE, Integral 4 True False),
     (''unsubscribe'', ZMQ_UNSUBSCRIBE, Array 1),
     (''vmci_buffer_size'', ZMQ_VMCI_BUFFER_SIZE, Integral 8 False False),
     (''vmci_buffer_min_size'', ZMQ_VMCI_BUFFER_MIN_SIZE, Integral 8 False False),
     (''vmci_buffer_max_size'', ZMQ_VMCI_BUFFER_MAX_SIZE, Integral 8 False False),
     (''vmci_connect_timeout'', ZMQ_VMCI_CONNECT_TIMEOUT, Integral 4 True False),
     (''xpub_verbose'', ZMQ_XPUB_VERBOSE, Integral 4 True True),
     (''xpub_verboser'', ZMQ_XPUB_VERBOSER, Integral 4 True True),
     (''xpub_manual'', ZMQ_XPUB_MANUAL, Integral 4 True True),
     (''xpub_nodrop'', ZMQ_XPUB_NODROP, Integral 4 True True),
     (''xpub_welcome_msg'', ZMQ_XPUB_WELCOME_MSG, Array 1),
     (''zap_domain'', ZMQ_ZAP_DOMAIN, Array 1)]"

definition draft_sockopts :: "sockopt list" where
  "draft_sockopts =
    [(''metadata'', ZMQ_METADATA, Array 1),
     (''multicast_loop'', ZMQ_MULTICAST_LOOP, Integral 4 True True),
     (''router_notify'', ZMQ_ROUTER_NOTIFY, Integral 4 True False),
     (''zap_enforce_domain'', ZMQ_ZAP_ENFORCE_DOMAIN, Integral 4 True True)]"

definition sockopts :: "sockopt list" where
  "sockopts = sockopts_affinity_to_immediate @ sockopts_invert_to_router @ sockopts_routing_to_zap"

lemmas sockopt_tables = sockopts_def sockopts_affinity_to_immediate_def sockopts_invert_to_router_def
  sockopts_routing_to_zap_def draft_sockopts_def

lemma linger_option: "(''linger'', ZMQ_LINGER, Integral 4 True False) \<in> set sockopts"
  unfolding sockopt_tables by simp

section \<open>Integers in memory\<close>

text \<open>The value of an integer of the machine from its bytes, low byte first.\<close>

fun host_nat :: "bytes \<Rightarrow> nat" where
  "host_nat [] = 0"
| "host_nat (b # bs) = of_char b + 256 * host_nat bs"

definition host_value :: "bool \<Rightarrow> bytes \<Rightarrow> int" where
  "host_value is_signed bs =
     (let n = int (host_nat bs)
      in if is_signed \<and> 2 * n \<ge> 256 ^ length bs then n - 256 ^ length bs else n)"

definition in_range :: "nat \<Rightarrow> bool \<Rightarrow> int \<Rightarrow> bool" where
  "in_range n is_signed v \<longleftrightarrow>
     (if is_signed then - (256 ^ n) \<le> 2 * v \<and> 2 * v < 256 ^ n else 0 \<le> v \<and> v < 256 ^ n)"

lemma length_host_bytes [simp]: "length (host_bytes n v) = n"
  by (simp add: host_bytes_def)

lemma host_bytes_Suc: "host_bytes (Suc n) v = char_of (nat (v mod 256)) # host_bytes n (v div 256)"
  unfolding host_bytes_def map_upt_Suc
  by (simp add: zdiv_zmult2_eq power_Suc2 mult.commute)

lemma host_nat_bytes: "int (host_nat (host_bytes n v)) = v mod 256 ^ n"
proof (induction n arbitrary: v)
  case 0
  then show ?case by (simp add: host_bytes_def)
next
  case (Suc n)
  have "v mod 256 ^ Suc n = 256 * (v div 256 mod 256 ^ n) + v mod 256"
    by (simp add: zmod_zmult2_eq)
  with Suc show ?case by (simp add: host_bytes_Suc)
qed

lemma host_value_bytes:
  assumes "in_range n is_signed v"
  shows "host_value is_signed (host_bytes n v) = v"
proof (cases "0 \<le> v")
  case True
  with assms have "v mod 256 ^ n = v" by (auto simp: in_range_def split: if_splits)
  with assms True show ?thesis by (auto simp: host_value_def host_nat_bytes in_range_def Let_def)
next
  case False
  with assms have s: "is_signed" "- (256 ^ n) \<le> 2 * v" by (auto simp: in_range_def split: if_splits)
  have "v mod 256 ^ n = (v + 256 ^ n) mod 256 ^ n" by simp
  also have "\<dots> = v + 256 ^ n"
    by (rule mod_pos_pos_trivial) (use False s(2) zero_less_power [of "256 :: int" n] in linarith)+
  finally have "v mod 256 ^ n = v + 256 ^ n" .
  with s False show ?thesis by (auto simp: host_value_def host_nat_bytes Let_def)
qed

section \<open>What libzmq stores\<close>

text \<open>
  Documented for the options that can be both set and read, such as \<open>linger\<close>: what was set successfully
  is read back with the same bytes, when the memory for it has their size. It is assumed of one option
  at a time, as there are others that can only be set.
\<close>

definition reads_back :: "('w, 'x) libzmq_scheme \<Rightarrow> nat \<Rightarrow> int \<Rightarrow> bool" where
  "reads_back lib h option \<longleftrightarrow>
     (\<forall>v w w' buf. zmq_setsockopt lib h option v w = (0, w') \<and> length buf = length v \<longrightarrow>
        (\<exists>w''. zmq_getsockopt lib h option buf w' = (0, (v, length v), w'')))"

text \<open>The options of the table as the arguments of \<open>set\<close> and \<open>get\<close>.\<close>

definition integral_of :: "sockopt \<Rightarrow> integral_option" where
  "integral_of p = (case p of (nm, n, Integral s sg b) \<Rightarrow> \<lparr>opt = n, opt_size = s\<rparr> | (nm, n, Array t) \<Rightarrow> \<lparr>opt = n, opt_size = 0\<rparr>)"

definition array_of :: "sockopt \<Rightarrow> array_option" where
  "array_of p = (case p of (nm, n, Integral s sg b) \<Rightarrow> \<lparr>array_opt = n, null_term = 0\<rparr> | (nm, n, Array t) \<Rightarrow> \<lparr>array_opt = n, null_term = t\<rparr>)"

lemma set_option_ok: "set_option lib h n v w = (Inr u, w') \<longleftrightarrow> zmq_setsockopt lib h n v w = (0, w')"
  by (auto simp: set_option_def call_def plain_def throw_errno_eq split: prod.splits if_splits)

lemma set_get_integral:
  assumes "reads_back lib h (opt o')" "set_option lib h (opt o') (host_bytes (opt_size o') v) w = (Inr u, w')"
    and "length buf = opt_size o'"
  shows "\<exists>w''. get_integral lib h o' buf w' = (Inr (host_bytes (opt_size o') v), w'')"
proof -
  have "zmq_setsockopt lib h (opt o') (host_bytes (opt_size o') v) w = (0, w')"
    using assms(2) by (simp add: set_option_ok)
  with assms(1,3) obtain w'' where
    "zmq_getsockopt lib h (opt o') buf w' = (0, (host_bytes (opt_size o') v, opt_size o'), w'')"
    unfolding reads_back_def by (metis length_host_bytes)
  then show ?thesis
    by (simp add: get_integral_def get_option_def bindIO_def thenIO_def call_def)
qed

lemma get_array_string_eq:
  assumes "zmq_getsockopt lib h (array_opt o') (replicate n (CHR 0x00)) w = (0, (buf, k), w')"
    and "length buf = n" "null_term o' = 2 \<Longrightarrow> n \<noteq> 1024"
  shows "get_array_string lib h o' n w =
    (if null_term o' = 1 \<and> 0 < k then thenIO (last_zero buf k) (returnIO (resize buf (k - 1))) w'
     else if null_term o' = 2
     then thenIO (assertIO (k = 32 \<or> k = 41))
            (if k = 41 then thenIO (last_zero buf k) (returnIO (resize buf (k - 1))) else returnIO (resize buf k)) w'
     else (Inr (resize buf k), w'))"
  using assms by (simp add: get_array_string_def get_array_def get_option_def call_def bindIO_def Let_def)

section \<open>Properties\<close>

text \<open>An integral option of the table that can be read back is read with the value it was set to, in the
  representation of the machine, and one that was set to a boolean is read as 0 or 1.\<close>

theorem integral_option_roundtrip:
  assumes "reads_back lib h num" "(nm, num, Integral size_of is_signed unit_bool) \<in> set sockopts"
    and "in_range size_of is_signed v" "length buf = size_of"
    and "set_integral lib h (integral_of (nm, num, Integral size_of is_signed unit_bool)) v w = (Inr (), w1)"
    and "set_bool lib h (integral_of (nm, num, Integral size_of is_signed unit_bool)) b w = (Inr (), w2)"
  shows "(\<exists>bs w'. get_integral lib h (integral_of (nm, num, Integral size_of is_signed unit_bool)) buf w1 = (Inr bs, w')
           \<and> host_value is_signed bs = v) \<and>
         (\<exists>bs w'. get_integral lib h (integral_of (nm, num, Integral size_of is_signed unit_bool)) buf w2 = (Inr bs, w')
           \<and> host_value is_signed bs = of_bool b)"
proof -
  have "\<forall>(nm, n, k)\<in>set sockopts. case k of Integral s sg b \<Rightarrow> s \<in> {4, 8} | Array t \<Rightarrow> True"
    unfolding sockopt_tables by simp
  with assms(2) have "size_of \<in> {4, 8}" by auto
  then have b: "in_range size_of is_signed (of_bool b)" by (auto simp: in_range_def)
  let ?o = "integral_of (nm, num, Integral size_of is_signed unit_bool)"
  have o: "opt_size ?o = size_of" "opt ?o = num" by (simp_all add: integral_of_def)
  have "reads_back lib h (opt ?o)" using assms(1) by (simp add: o)
  from set_get_integral [OF this, of v w "()" w1 buf] set_get_integral [OF this, of "of_bool b" w "()" w2 buf]
  show ?thesis
    using assms(4-6) host_value_bytes [OF assms(3)] host_value_bytes [OF b] by (auto simp: o set_integral_def set_bool_def)
qed

text \<open>A library that keeps its options.\<close>

definition option_lib :: "(int \<Rightarrow> bytes) libzmq" where
  "option_lib = calm
     \<lparr>zmq_setsockopt := \<lambda>h n v w. (0, w(n := v)),
      zmq_getsockopt := \<lambda>h n buf w. (0, (w n, length (w n)), w)\<rparr>"

lemma option_lib_reads: "reads_back option_lib h n"
  by (auto simp: reads_back_def option_lib_def)

theorem integral_option_roundtrip_witness:
  "\<exists>bs w'. get_integral option_lib 1 \<lparr>opt = ZMQ_LINGER, opt_size = 4\<rparr> (replicate 4 (CHR 0x00))
       ((\<lambda>n. [])(ZMQ_LINGER := host_bytes 4 (- 1))) = (Inr bs, w') \<and> host_value True bs = - 1"
proof -
  let ?e = "(''linger'', ZMQ_LINGER, Integral 4 True False)"
  have o: "integral_of ?e = \<lparr>opt = ZMQ_LINGER, opt_size = 4\<rparr>" by (simp add: integral_of_def)
  have "set_integral option_lib 1 (integral_of ?e) (- 1) (\<lambda>n. []) = (Inr (), (\<lambda>n. [])(ZMQ_LINGER := host_bytes 4 (- 1)))"
    "set_bool option_lib 1 (integral_of ?e) True (\<lambda>n. []) = (Inr (), (\<lambda>n. [])(ZMQ_LINGER := host_bytes 4 1))"
    by (simp_all add: o set_integral_def set_bool_def set_option_def call_def plain_def option_lib_def)
  from integral_option_roundtrip [OF option_lib_reads linger_option _ _ this, of "replicate 4 (CHR 0x00)"] show ?thesis
    unfolding o by (simp add: in_range_def)
qed

text \<open>Reading a string option drops the terminating zero that libzmq stores with it, and of a key in
  Z85 form as well, while a binary key and a binary option come as they are; the result of libzmq is
  not trusted: a string without its zero, or a key of another size, fails an assertion.\<close>

theorem array_option_string:
  assumes "zmq_getsockopt lib h (array_opt o') (replicate n (CHR 0x00)) w = (0, (s @ rest, k), w')"
    and "length (s @ rest) = n" "length s = k" "null_term o' \<le> 2" "null_term o' = 2 \<longrightarrow> n \<noteq> 1024"
  shows "get_array_string lib h o' n w =
    (if null_term o' = 0 then (Inr s, w')
     else if null_term o' = 1
     then if s = [] then (Inr [], w')
          else if last s = CHR 0x00 then (Inr (butlast s), w') else (Inl Assert_Failed, w')
     else if k = 32 then (Inr s, w')
     else if k = 41 \<and> last s = CHR 0x00 then (Inr (butlast s), w') else (Inl Assert_Failed, w'))"
proof -
  have res: "resize (s @ rest) k = s" "resize (s @ rest) (k - 1) = butlast s"
    using assms(3) by (auto simp: resize_def butlast_conv_take)
  have last: "last_zero (s @ rest) k w' = (if last s = CHR 0x00 then (Inr (), w') else (Inl Assert_Failed, w'))" if "s \<noteq> []"
    using that assms(3) by (auto simp: last_zero_def nth_append last_conv_nth)
  show ?thesis
  proof (cases "s = []")
    case True
    with get_array_string_eq [OF assms(1,2)] assms(3-5) res show ?thesis
      by (auto simp: thenIO_def assertIO_def bindIO_def)
  next
    case False
    with get_array_string_eq [OF assms(1,2)] assms(3-5) res last show ?thesis
      by (auto simp: thenIO_def assertIO_def bindIO_def)
  qed
qed

theorem array_option_string_witness:
  "get_array_string option_lib 1 \<lparr>array_opt = ZMQ_LAST_ENDPOINT, null_term = 1\<rparr> 3
     ((\<lambda>n. [])(ZMQ_LAST_ENDPOINT := [CHR ''a'', CHR ''b'', CHR 0x00])) =
   (Inr ''ab'', (\<lambda>n. [])(ZMQ_LAST_ENDPOINT := [CHR ''a'', CHR ''b'', CHR 0x00]))"
proof -
  let ?w = "(\<lambda>n. [])(ZMQ_LAST_ENDPOINT := [CHR ''a'', CHR ''b'', CHR 0x00])"
  have "zmq_getsockopt option_lib 1 (array_opt \<lparr>array_opt = ZMQ_LAST_ENDPOINT, null_term = 1\<rparr>) (replicate 3 (CHR 0x00)) ?w =
      (0, ([CHR ''a'', CHR ''b'', CHR 0x00] @ [], 3), ?w)"
    by (simp add: option_lib_def)
  from array_option_string [OF this] show ?thesis by simp
qed

end
