(* ===== verification/Zmq_Monitor.thy ===== *)
theory Zmq_Monitor
  imports Zmq_Options
begin

text \<open>
  \<open>zmq::monitor_t\<close> (\<open>zmq.hpp\<close>): a monitor of the events of a socket. It has a reference to the socket
  and owns the socket its events come through. Its virtual functions are the argument \<open>on\<close>, one
  computation for each of them; \<open>default_on\<close> is what the class itself has. The member functions run on
  the world and the monitor.
\<close>

unbundle bit_operations_syntax

section \<open>State and events\<close>

record monitor_t =
  mon_socket :: nat
  mon_events :: socket_t

record zmq_event_t =
  event_id :: u16
  event_value :: "32 word"

datatype callback =
    on_monitor_started | on_event_connected | on_event_connect_delayed | on_event_connect_retried
  | on_event_listening | on_event_bind_failed | on_event_accepted | on_event_accept_failed
  | on_event_closed | on_event_close_failed | on_event_disconnected | on_event_handshake_failed_no_detail
  | on_event_handshake_failed_protocol | on_event_handshake_failed_auth | on_event_handshake_succeeded
  | on_event_unknown

type_synonym ('w, 'a) monitor_io = "('w \<times> monitor_t, 'a) io"

text \<open>An override may use the monitor it belongs to, for instance to abort it.\<close>

type_synonym 'w callbacks = "callback \<Rightarrow> zmq_event_t \<Rightarrow> string \<Rightarrow> ('w, unit) monitor_io"

definition default_on :: "'w callbacks" where
  "default_on = (\<lambda>c event addr. returnIO ())"

definition monitor_new :: monitor_t where
  "monitor_new = \<lparr>mon_socket = 0, mon_events = no_socket\<rparr>"

section \<open>Closing and moving\<close>

text \<open>The result of \<open>zmq_socket_monitor\<close> is not looked at.\<close>

definition stop_events :: "('w, 'x) libzmq_scheme \<Rightarrow> ('w, unit) monitor_io" where
  "stop_events lib s =
     (if mon_socket (snd s) \<noteq> 0
      then on_world (\<lambda>w. (Inr (), snd (zmq_socket_monitor lib (mon_socket (snd s)) None 0 w))) s
      else (Inr (), s))"

definition monitor_close :: "('w, 'x) libzmq_scheme \<Rightarrow> ('w, unit) monitor_io" where
  "monitor_close lib =
     thenIO (stop_events lib)
       (\<lambda>(w, m). case socket_close lib (mon_events m) w of
                   (Inl e, w') \<Rightarrow> (Inl e, (w', m))
                 | (Inr sock, w') \<Rightarrow> (Inr (), (w', m\<lparr>mon_events := sock\<rparr>)))"

definition monitor_destroy :: "('w, 'x) libzmq_scheme \<Rightarrow> ('w, unit) monitor_io" where
  "monitor_destroy = monitor_close"

text \<open>The moved-from monitor gets what a new one has; the pair is (this, the other).\<close>

definition monitor_move :: "monitor_t \<Rightarrow> monitor_t \<times> monitor_t" where
  "monitor_move rhs = (rhs, monitor_new)"

definition monitor_move_assign :: "('w, 'x) libzmq_scheme \<Rightarrow> monitor_t \<Rightarrow> ('w, monitor_t) monitor_io" where
  "monitor_move_assign lib rhs =
     thenIO (monitor_close lib)
       (\<lambda>(w, m). let m = m\<lparr>mon_socket := 0\<rparr>
                 in (Inr \<lparr>mon_socket = mon_socket m, mon_events = mon_events m\<rparr>,
                     (w, \<lparr>mon_socket = mon_socket rhs, mon_events = mon_events rhs\<rparr>)))"

definition monitor_abort :: "('w, 'x) libzmq_scheme \<Rightarrow> ('w, unit) monitor_io" where
  "monitor_abort lib =
     thenIO (stop_events lib) (\<lambda>(w, m). (Inr (), (w, m\<lparr>mon_socket := 0\<rparr>)))"

section \<open>Starting\<close>

text \<open>
  The event socket is assigned from a temporary: the old one is closed, and the temporary has
  nothing left when it is destroyed.
\<close>

definition monitor_init :: "('w, 'x) libzmq_scheme \<Rightarrow> 'w callbacks \<Rightarrow> socket_t \<Rightarrow> string \<Rightarrow> int \<Rightarrow> ('w, unit) monitor_io" where
  "monitor_init lib on sock addr wanted =
     thenIO (on_world (call lib (plain (zmq_socket_monitor lib (handle sock) (Some addr) wanted))))
       (thenIO (\<lambda>(w, m). (Inr (), (w, m\<lparr>mon_socket := handle sock\<rparr>)))
         (bindIO (on_world (socket_new_ptr lib (ctxptr sock) ZMQ_PAIR)) (\<lambda>fresh.
           thenIO
             (\<lambda>(w, m). case socket_move_assign lib (mon_events m) fresh w of
                         (Inl e, w') \<Rightarrow> (Inl e, (w', m))
                       | (Inr (sock', left), w') \<Rightarrow>
                           on_world (socket_destroy lib left) (w', m\<lparr>mon_events := sock'\<rparr>))
             (thenIO (\<lambda>(w, m). on_world (connect lib (handle (mon_events m)) addr) (w, m))
               (on on_monitor_started \<lparr>event_id = 0, event_value = 0\<rparr> [])))))"

section \<open>Events\<close>

definition c_str :: "string \<Rightarrow> string" where
  "c_str s = takeWhile (\<lambda>c. c \<noteq> CHR 0x00) s"

text \<open>The two \<open>memcpy\<close> read the first six bytes, without a look at the size of the message.\<close>

definition read_event :: "bytes \<Rightarrow> zmq_event_t outcome" where
  "read_event d =
     (if length d < 6 then Inl Buffer_Overflow
      else Inr \<lparr>event_id = of_nat (host_nat (take 2 d)), event_value = of_nat (host_nat (take 4 (drop 2 d)))\<rparr>)"

definition event_callback :: "int \<Rightarrow> callback" where
  "event_callback e =
     (if e = ZMQ_EVENT_CONNECTED then on_event_connected
      else if e = ZMQ_EVENT_CONNECT_DELAYED then on_event_connect_delayed
      else if e = ZMQ_EVENT_CONNECT_RETRIED then on_event_connect_retried
      else if e = ZMQ_EVENT_LISTENING then on_event_listening
      else if e = ZMQ_EVENT_BIND_FAILED then on_event_bind_failed
      else if e = ZMQ_EVENT_ACCEPTED then on_event_accepted
      else if e = ZMQ_EVENT_ACCEPT_FAILED then on_event_accept_failed
      else if e = ZMQ_EVENT_CLOSED then on_event_closed
      else if e = ZMQ_EVENT_CLOSE_FAILED then on_event_close_failed
      else if e = ZMQ_EVENT_DISCONNECTED then on_event_disconnected
      else if e = ZMQ_EVENT_HANDSHAKE_FAILED_NO_DETAIL then on_event_handshake_failed_no_detail
      else if e = ZMQ_EVENT_HANDSHAKE_FAILED_PROTOCOL then on_event_handshake_failed_protocol
      else if e = ZMQ_EVENT_HANDSHAKE_FAILED_AUTH then on_event_handshake_failed_auth
      else if e = ZMQ_EVENT_HANDSHAKE_SUCCEEDED then on_event_handshake_succeeded
      else on_event_unknown)"

text \<open>
  Receiving one frame into a local message: false when the context was terminated. Any other
  failure is an assertion.
\<close>

definition recv_frame :: "('w, 'x) libzmq_scheme \<Rightarrow> nat \<Rightarrow> zmq_msg_t \<Rightarrow> ('w, bool \<times> zmq_msg_t) io" where
  "recv_frame lib h msg w =
     (case zmq_msg_recv lib msg h 0 w of
        (rc, msg', w') \<Rightarrow>
          if rc = - 1 \<and> zmq_errno lib w' = ETERM then (Inr (False, msg'), w')
          else thenIO (assertIO (rc \<noteq> - 1)) (returnIO (True, msg')) w')"

text \<open>A result with the destruction of a local message before it is returned.\<close>

definition leave :: "('w, 'x) libzmq_scheme \<Rightarrow> zmq_msg_t \<Rightarrow> 'a \<Rightarrow> ('w, 'a) monitor_io" where
  "leave lib msg r = thenIO (on_world (message_destroy lib msg)) (returnIO r)"

text \<open>
  The end of \<open>check_event\<close>, from the second frame on; it destroys its own message, its caller the
  first one.
\<close>

definition dispatch_event ::
    "('w, 'x) libzmq_scheme \<Rightarrow> 'w callbacks \<Rightarrow> nat \<Rightarrow> zmq_event_t \<Rightarrow> ('w, bool) monitor_io" where
  "dispatch_event lib on h event =
     bindIO (on_world (message_default lib)) (\<lambda>addrMsg.
       bindIO (on_world (recv_frame lib h addrMsg)) (\<lambda>(ok, addrMsg).
         if \<not> ok then leave lib addrMsg False
         else let address = to_string addrMsg
              in if uint (event_id event) = ZMQ_EVENT_MONITOR_STOPPED then leave lib addrMsg False
                 else thenIO (unwinding (on (event_callback (uint (event_id event))) event (c_str address))
                                (\<lambda>s. on_world (message_destroy lib addrMsg)))
                        (leave lib addrMsg True)))"

definition check_event :: "('w, 'x) libzmq_scheme \<Rightarrow> 'w callbacks \<Rightarrow> int \<Rightarrow> ('w, bool) monitor_io" where
  "check_event lib on timeout s =
     (let h = handle (mon_events (snd s));
          items = [\<lparr>socket = h, fd = 0, events = ZMQ_POLLIN, revents = 0\<rparr>]
      in thenIO (assertIO (h \<noteq> 0))
           (bindIO (on_world (message_default lib)) (\<lambda>eventMsg.
              bindIO (unwinding (on_world (poll lib items 1 timeout)) (\<lambda>s. on_world (message_destroy lib eventMsg))) (\<lambda>(n, items).
                if revents (items ! 0) AND ZMQ_POLLIN \<noteq> 0
                then bindIO (on_world (recv_frame lib h eventMsg)) (\<lambda>(ok, eventMsg).
                       if \<not> ok then leave lib eventMsg False
                       else bindIO (liftIO (read_event (content eventMsg))) (\<lambda>event.
                              bindIO (unwinding (dispatch_event lib on h event) (\<lambda>s. on_world (message_destroy lib eventMsg)))
                                (leave lib eventMsg)))
                else leave lib eventMsg False))) s)"

text \<open>The loop of \<open>monitor\<close> has no exit; \<open>None\<close> when it goes on for ever.\<close>

partial_function (option) event_loop ::
    "('w, 'x) libzmq_scheme \<Rightarrow> 'w callbacks \<Rightarrow> 'w \<times> monitor_t \<Rightarrow> (unit outcome \<times> 'w \<times> monitor_t) option" where
  [code]: "event_loop lib on s =
     (case check_event lib on (- 1) s of
        (Inl e, s') \<Rightarrow> Some (Inl e, s')
      | (Inr r, s') \<Rightarrow> event_loop lib on s')"

definition monitor :: "('w, 'x) libzmq_scheme \<Rightarrow> 'w callbacks \<Rightarrow> socket_t \<Rightarrow> string \<Rightarrow> int \<Rightarrow> ('w, unit) monitor_io" where
  "monitor lib on sock addr wanted =
     thenIO (monitor_init lib on sock addr wanted)
       (\<lambda>s. case event_loop lib on s of None \<Rightarrow> (Inl Diverges, s) | Some r \<Rightarrow> r)"

section \<open>Reading an event\<close>

lemma host_nat_append: "host_nat (xs @ ys) = host_nat xs + 256 ^ length xs * host_nat ys"
  by (induction xs) (simp_all add: algebra_simps)

lemma read_event_bytes:
  assumes "in_range 2 False i" "in_range 4 True v"
  shows "\<exists>event. read_event (host_bytes 2 i @ host_bytes 4 v @ rest) = Inr event \<and>
    uint (event_id event) = i \<and> sint (event_value event) = v"
proof -
  have i: "int (host_nat (host_bytes 2 i)) = i" "0 \<le> i" "i < 65536"
    using assms(1) by (auto simp: host_nat_bytes in_range_def)
  have v: "int (host_nat (host_bytes 4 v)) = v mod 2 ^ 32" "- (2 ^ 31) \<le> v" "v < 2 ^ 31"
    using assms(2) by (auto simp: host_nat_bytes in_range_def)
  have "uint (of_nat (host_nat (host_bytes 2 i)) :: u16) = i"
    using i by (simp add: unsigned_of_nat flip: of_nat_eq_iff [where 'a = int]) (simp add: take_bit_eq_mod of_nat_mod)
  moreover have "sint (of_nat (host_nat (host_bytes 4 v)) :: 32 word) = v"
  proof -
    have "(of_nat (host_nat (host_bytes 4 v)) :: 32 word) = of_int (int (host_nat (host_bytes 4 v)))" by simp
    also have "\<dots> = of_int (v mod 2 ^ 32)" by (simp only: v(1))
    finally show ?thesis
      using v(2,3) by (simp add: signed_of_int signed_take_bit_eq_take_bit_shift take_bit_eq_mod mod_add_left_eq)
  qed
  ultimately show ?thesis by (simp add: read_event_def)
qed

text \<open>The function for each event number of \<open>zmq.h\<close>.\<close>

definition event_table :: "(int \<times> callback) list" where
  "event_table =
     [(1, on_event_connected), (2, on_event_connect_delayed), (4, on_event_connect_retried), (8, on_event_listening),
      (16, on_event_bind_failed), (32, on_event_accepted), (64, on_event_accept_failed), (128, on_event_closed),
      (256, on_event_close_failed), (512, on_event_disconnected), (2048, on_event_handshake_failed_no_detail),
      (4096, on_event_handshake_succeeded), (8192, on_event_handshake_failed_protocol),
      (16384, on_event_handshake_failed_auth)]"

lemma event_callback_table:
  "event_callback i = (case map_of event_table i of None \<Rightarrow> on_event_unknown | Some c \<Rightarrow> c)"
  by (simp add: event_callback_def event_table_def event_numbers)

section \<open>Properties\<close>

text \<open>Closing a message never fails; the libraries of the witnesses keep the world.\<close>

definition closes_messages :: "('w, 'x) libzmq_scheme \<Rightarrow> bool" where
  "closes_messages lib \<longleftrightarrow> (\<forall>m w. fst (zmq_msg_close lib m w) = 0)"

lemma destroy_result:
  assumes "closes_messages lib"
  shows "message_destroy lib m w = (Inr (), snd (zmq_msg_close lib m w))"
proof -
  obtain rc w' where c: "zmq_msg_close lib m w = (rc, w')" by (meson surj_pair)
  with assms have "rc = 0" unfolding closes_messages_def by (metis fst_conv)
  with c show ?thesis by (simp add: message_destroy_def assert_call_def plain_def)
qed

lemma leave_result:
  "closes_messages lib \<Longrightarrow> leave lib m r (w, x) = (Inr r, (snd (zmq_msg_close lib m w), x))"
  by (simp add: leave_def thenIO_def bindIO_def on_world_def destroy_result)

lemma unwinding_result:
  assumes "closes_messages lib"
  shows "unwinding c (\<lambda>s. on_world (message_destroy lib m)) s =
    (case c s of
       (Inl e, s') \<Rightarrow> (Inl e, if thrown e then (snd (zmq_msg_close lib m (fst s')), snd s') else s')
     | (Inr x, s') \<Rightarrow> (Inr x, s'))"
  by (auto simp: unwinding_def thenIO_def bindIO_def on_world_def destroy_result [OF assms] split: prod.splits sum.splits)

text \<open>C36: When the monitor socket has an event, \<open>check_event\<close> reads its two frames and calls exactly one
  function, the one named after the event's number in \<open>zmq.h\<close> (\<open>on_event_connected\<close> for 1 up to
  \<open>on_event_handshake_failed_auth\<close> for 16384, and \<open>on_event_unknown\<close> for a number that is not in the
  list), with the number, the signed value and the peer's address up to a zero byte. It then returns
  true, or passes on the exception of the function. For \<open>ZMQ_EVENT_MONITOR_STOPPED\<close>, 1024, it calls
  nothing and returns false. A first frame of less than six bytes, which libzmq never sends, would be
  read past its end.\<close>

theorem monitor_event:
  assumes "closes_messages lib" "handle (mon_events m) = h" "h \<noteq> 0"
    and "zmq_msg_init lib w = (0, w1)"
    and "zmq_poll lib [\<lparr>socket = h, fd = 0, events = ZMQ_POLLIN, revents = 0\<rparr>] 1 timeout w1 = (1, [item], w2)"
    and "revents item AND ZMQ_POLLIN \<noteq> 0"
    and "zmq_msg_recv lib no_msg h 0 w2 = (n1, m1, w3)" "n1 \<noteq> - 1"
    and "zmq_msg_init lib w3 = (0, w4)" "zmq_msg_recv lib no_msg h 0 w4 = (n2, m2, w5)" "n2 \<noteq> - 1"
    and "in_range 2 False i" "in_range 4 True v"
  shows "(length (content m1) < 6 \<longrightarrow> fst (check_event lib on timeout (w, m)) = Inl Buffer_Overflow) \<and>
    (content m1 = host_bytes 2 i @ host_bytes 4 v @ rest \<longrightarrow>
       (\<exists>event callback. uint (event_id event) = i \<and> sint (event_value event) = v \<and>
          callback = (case map_of
              [(1, on_event_connected), (2, on_event_connect_delayed), (4, on_event_connect_retried),
               (8, on_event_listening), (16, on_event_bind_failed), (32, on_event_accepted),
               (64, on_event_accept_failed), (128, on_event_closed), (256, on_event_close_failed),
               (512, on_event_disconnected), (2048, on_event_handshake_failed_no_detail),
               (4096, on_event_handshake_succeeded), (8192, on_event_handshake_failed_protocol),
               (16384, on_event_handshake_failed_auth)] i of None \<Rightarrow> on_event_unknown | Some c \<Rightarrow> c) \<and>
          (if i = 1024
           then \<exists>w'. check_event lib on timeout (w, m) = (Inr False, (w', m))
           else case on callback event (c_str (content m2)) (w5, m) of
                  (Inr _, s') \<Rightarrow> \<exists>w'. check_event lib on timeout (w, m) = (Inr True, (w', snd s'))
                | (Inl e, s') \<Rightarrow> \<exists>w'. check_event lib on timeout (w, m) = (Inl e, (w', snd s')))))"
proof -
  have start: "check_event lib on timeout (w, m) =
      bindIO (liftIO (read_event (content m1))) (\<lambda>event.
        bindIO (unwinding (dispatch_event lib on h event) (\<lambda>s. on_world (message_destroy lib m1))) (leave lib m1)) (w3, m)"
    using assms(2-8)
    by (simp add: check_event_def Let_def message_default_def assert_call_def plain_def poll_def detail_poll_def
        recv_frame_def bindIO_def thenIO_def on_world_eq unwinding_def)
  have dispatch: "dispatch_event lib on h event (w3, m) =
      (if uint (event_id event) = ZMQ_EVENT_MONITOR_STOPPED then leave lib m2 False (w5, m)
       else thenIO (unwinding (on (event_callback (uint (event_id event))) event (c_str (content m2)))
              (\<lambda>s. on_world (message_destroy lib m2))) (leave lib m2 True) (w5, m))" for event
    using assms(9-11)
    by (simp add: dispatch_event_def Let_def message_default_def assert_call_def plain_def recv_frame_def bindIO_def thenIO_def
        on_world_eq to_string_content)
  have "fst (check_event lib on timeout (w, m)) = Inl Buffer_Overflow" if "length (content m1) < 6"
    using that start by (simp add: read_event_def bindIO_def)
  moreover have "\<exists>event callback. uint (event_id event) = i \<and> sint (event_value event) = v \<and> callback = event_callback i \<and>
          (if i = ZMQ_EVENT_MONITOR_STOPPED
           then \<exists>w'. check_event lib on timeout (w, m) = (Inr False, (w', m))
           else case on callback event (c_str (content m2)) (w5, m) of
                  (Inr _, s') \<Rightarrow> \<exists>w'. check_event lib on timeout (w, m) = (Inr True, (w', snd s'))
                | (Inl e, s') \<Rightarrow> \<exists>w'. check_event lib on timeout (w, m) = (Inl e, (w', snd s')))"
    if m1: "content m1 = host_bytes 2 i @ host_bytes 4 v @ rest"
  proof -
    from read_event_bytes [OF assms(12,13)] m1 obtain event where
      event: "read_event (content m1) = Inr event" "uint (event_id event) = i" "sint (event_value event) = v" by metis
    show ?thesis
      unfolding start event(1)
      by (intro exI [of _ event] exI [of _ "event_callback i"])
         (auto simp: event dispatch bindIO_def thenIO_def unwinding_result [OF assms(1)] leave_result [OF assms(1)]
            split: prod.splits sum.splits if_splits)
  qed
  ultimately show ?thesis
    unfolding event_table_def [symmetric] event_callback_table [symmetric] ZMQ_EVENT_MONITOR_STOPPED_def [symmetric]
    by iprover
qed

text \<open>A library whose messages wait in a list.\<close>

definition event_lib :: "bytes list libzmq" where
  "event_lib = calm
     \<lparr>zmq_poll := \<lambda>items n t w. (1, map (\<lambda>i. i\<lparr>revents := ZMQ_POLLIN\<rparr>) items, w),
      zmq_msg_recv := \<lambda>m h f w.
        (case w of [] \<Rightarrow> (- 1, m, w) | b # bs \<Rightarrow> (int (length b), \<lparr>content = b, more_flag = False\<rparr>, bs))\<rparr>"

theorem monitor_event_witness:
  "fst (check_event event_lib (\<lambda>c event addr s. (Inl (Zmq_Error (int (length addr))), s)) 0
     ([host_bytes 2 1 @ host_bytes 4 7, ''tcp''], \<lparr>mon_socket = 0, mon_events = \<lparr>handle = 1, ctxptr = 1\<rparr>\<rparr>)) = Inl (Zmq_Error 3)"
proof -
  let ?m = "\<lparr>mon_socket = 0, mon_events = \<lparr>handle = 1, ctxptr = 1\<rparr>\<rparr>"
  let ?m1 = "\<lparr>content = host_bytes 2 1 @ host_bytes 4 7, more_flag = False\<rparr>"
  let ?m2 = "\<lparr>content = ''tcp'', more_flag = False\<rparr>"
  let ?item = "\<lparr>socket = 1, fd = 0, events = ZMQ_POLLIN, revents = ZMQ_POLLIN\<rparr>"
  let ?on = "\<lambda>c event addr s. (Inl (Zmq_Error (int (length addr))), s)"
  let ?w = "[host_bytes 2 1 @ host_bytes 4 7, ''tcp'']"
  have laws: "closes_messages event_lib" by (simp add: closes_messages_def event_lib_def calm_def)
  have calls: "zmq_msg_init event_lib v = (0, v)"
    "zmq_poll event_lib [\<lparr>socket = 1, fd = 0, events = ZMQ_POLLIN, revents = 0\<rparr>] 1 0 ?w = (1, [?item], ?w)"
    "zmq_msg_recv event_lib no_msg 1 0 ?w = (6, ?m1, [''tcp''])" "zmq_msg_recv event_lib no_msg 1 0 [''tcp''] = (3, ?m2, [])" for v
    by (simp_all add: event_lib_def calm_def)
  have "in_range 2 False 1" "in_range 4 True 7" by (simp_all add: in_range_def)
  from monitor_event [OF laws _ _ calls(1,2) _ calls(3) _ calls(1,4) _ this, where m = ?m and on = ?on and rest = "[]"]
  show ?thesis by (auto simp: ZMQ_POLLIN_def ZMQ_EVENT_MONITOR_STOPPED_def c_str_def)
qed

lemma event_loop_throws: "event_loop lib on s = Some r \<Longrightarrow> \<exists>e s'. r = (Inl e, s')"
proof (erule event_loop.raw_induct [rotated])
  fix rec_loop and lib :: "('a, 'b) libzmq_scheme" and on s r
  assume IH: "\<And>lib on s r. rec_loop lib on s = Some r \<Longrightarrow> \<exists>e s'. r = (Inl e, s')"
    and body: "(case check_event lib on (- 1) s of
        (Inl e, s') \<Rightarrow> Some (Inl e, s') | (Inr r, s') \<Rightarrow> rec_loop lib on s') = Some r"
  then show "\<exists>e s'. r = (Inl e, s')" by (auto split: prod.splits sum.splits)
qed

lemma event_loop_chain:
  assumes "event_loop lib on s = Some r"
  shows "\<forall>ss. ss 0 = s \<longrightarrow> (\<exists>i. \<nexists>b. check_event lib on (- 1) (ss i) = (Inr b, ss (Suc i)))"
proof (rule event_loop.raw_induct [where
      P = "\<lambda>lib on s r. \<forall>ss. ss 0 = s \<longrightarrow> (\<exists>i. \<nexists>b. check_event lib on (- 1) (ss i) = (Inr b, ss (Suc i)))",
      OF _ assms], intro allI impI)
  fix rec_loop and lib :: "('a, 'b) libzmq_scheme" and on s r and ss :: "nat \<Rightarrow> 'a \<times> monitor_t"
  assume IH: "\<And>lib on s r. rec_loop lib on s = Some r \<Longrightarrow>
      \<forall>ss. ss 0 = s \<longrightarrow> (\<exists>i. \<nexists>b. check_event lib on (- 1) (ss i) = (Inr b, ss (Suc i)))"
    and body: "(case check_event lib on (- 1) s of
        (Inl e, s') \<Rightarrow> Some (Inl e, s') | (Inr r, s') \<Rightarrow> rec_loop lib on s') = Some r"
    and start: "ss 0 = s"
  show "\<exists>i. \<nexists>b. check_event lib on (- 1) (ss i) = (Inr b, ss (Suc i))"
  proof (cases "\<exists>b. check_event lib on (- 1) (ss 0) = (Inr b, ss (Suc 0))")
    case True
    then have "rec_loop lib on (ss (Suc 0)) = Some r" using body start by auto
    from IH [OF this, rule_format, of "\<lambda>i. ss (Suc i)"] show ?thesis by blast
  qed blast
qed

text \<open>C37: \<open>monitor\<close> never returns: its loop ignores the result of \<open>check_event\<close>, so the false that stands
  for \<open>ZMQ_EVENT_MONITOR_STOPPED\<close>, which \<open>abort\<close> makes libzmq send, does not end it. It ends only by an
  exception, and as long as \<open>check_event\<close> throws none it runs for ever.\<close>

theorem monitor_never_returns:
  assumes "monitor_init lib on sock addr wanted s = (Inr (), ss 0)"
    and "\<forall>i. \<exists>b. check_event lib on (- 1) (ss i) = (Inr b, ss (Suc i))"
  shows "monitor lib on sock addr wanted s = (Inl Diverges, ss 0) \<and>
         fst (monitor lib' on' sock' addr' wanted' s') \<noteq> Inr ()"
proof
  have "event_loop lib on (ss 0) = None"
  proof (rule ccontr)
    assume "event_loop lib on (ss 0) \<noteq> None"
    then obtain r where "event_loop lib on (ss 0) = Some r" by blast
    from event_loop_chain [OF this] assms(2) show False by blast
  qed
  with assms(1) show "monitor lib on sock addr wanted s = (Inl Diverges, ss 0)"
    by (simp add: monitor_def thenIO_def bindIO_def)
  show "fst (monitor lib' on' sock' addr' wanted' s') \<noteq> Inr ()"
    unfolding monitor_def
    by (auto simp: thenIO_def bindIO_def dest: event_loop_throws split: prod.splits sum.splits option.splits)
qed

theorem monitor_never_returns_witness:
  "fst (monitor (calm :: unit libzmq) default_on \<lparr>handle = 1, ctxptr = 1\<rparr> ''inproc://events'' ZMQ_EVENT_ALL ((), monitor_new)) =
     Inl Diverges"
proof -
  let ?m = "\<lparr>mon_socket = 1, mon_events = \<lparr>handle = 1, ctxptr = 1\<rparr>\<rparr>"
  have init: "monitor_init (calm :: unit libzmq) default_on \<lparr>handle = 1, ctxptr = 1\<rparr> ''inproc://events'' ZMQ_EVENT_ALL ((), monitor_new) =
      (Inr (), ((), ?m))"
    by (simp add: monitor_init_def calm_def call_def plain_def thenIO_def bindIO_def on_world_def socket_new_ptr_def
        socket_move_assign_def socket_close_def no_socket_def monitor_new_def socket_destroy_def connect_def default_on_def)
  have check: "check_event (calm :: unit libzmq) default_on (- 1) ((), ?m) = (Inr False, ((), ?m))"
    by (simp add: check_event_def calm_def Let_def thenIO_def bindIO_def on_world_def message_default_def assert_call_def plain_def
        unwinding_def poll_def detail_poll_def leave_def message_destroy_def)
  from check have "\<forall>i. \<exists>b. check_event (calm :: unit libzmq) default_on (- 1) ((), ?m) = (Inr b, ((), ?m))" by blast
  from monitor_never_returns [where ss = "\<lambda>i. ((), ?m)", OF init this] show ?thesis by (metis fst_conv)
qed

section \<open>The socket of the monitor\<close>

text \<open>A program with a monitor; it catches exceptions, but a failed assertion ends it.\<close>

datatype mon_op = M_init socket_t string int | M_check int | M_abort

fun mon_exec :: "('w, 'x) libzmq_scheme \<Rightarrow> 'w callbacks \<Rightarrow> mon_op \<Rightarrow> ('w, unit) monitor_io" where
  "mon_exec lib on (M_init sock addr wanted) = monitor_init lib on sock addr wanted"
| "mon_exec lib on (M_check timeout) = thenIO (check_event lib on timeout) (returnIO ())"
| "mon_exec lib on M_abort = monitor_abort lib"

fun mon_run :: "('w, 'x) libzmq_scheme \<Rightarrow> 'w callbacks \<Rightarrow> mon_op list \<Rightarrow> ('w, unit) monitor_io" where
  "mon_run lib on [] s = (Inr (), s)"
| "mon_run lib on (op # ops) s =
     (case mon_exec lib on op s of
        (Inl e, s') \<Rightarrow> if thrown e then mon_run lib on ops s' else (Inl e, s')
      | (Inr _, s') \<Rightarrow> mon_run lib on ops s')"

text \<open>The other functions of libzmq open and close no socket.\<close>

definition keeps_handles :: "('w, 'x) libzmq_scheme \<Rightarrow> ('w \<Rightarrow> nat set) \<Rightarrow> bool" where
  "keeps_handles lib O' \<longleftrightarrow>
     (\<forall>w. O' (snd (zmq_msg_init lib w)) = O' w) \<and>
     (\<forall>m w. O' (snd (zmq_msg_close lib m w)) = O' w) \<and>
     (\<forall>m h f w. O' (snd (snd (zmq_msg_recv lib m h f w))) = O' w) \<and>
     (\<forall>items n t w. O' (snd (snd (zmq_poll lib items n t w))) = O' w) \<and>
     (\<forall>h a w. O' (snd (zmq_connect lib h a w)) = O' w) \<and>
     (\<forall>h a e w. O' (snd (zmq_socket_monitor lib h a e w)) = O' w)"

text \<open>What a monitor owns: its event socket, if it has one, on top of the handles of others.\<close>

definition owns_events :: "('w \<Rightarrow> nat set) \<Rightarrow> nat set \<Rightarrow> 'w \<times> monitor_t \<Rightarrow> bool" where
  "owns_events O' others s \<longleftrightarrow>
     (let h = handle (mon_events (snd s))
      in if h = 0 then O' (fst s) = others else h \<notin> others \<and> O' (fst s) = insert h others)"

abbreviation owned :: "('w \<Rightarrow> nat set) \<Rightarrow> 'w \<times> monitor_t \<Rightarrow> nat set \<times> socket_t" where
  "owned O' s \<equiv> (O' (fst s), mon_events (snd s))"

lemma owns_events_keep: "owned O' s' = owned O' s \<Longrightarrow> owns_events O' others s \<Longrightarrow> owns_events O' others s'"
  by (simp add: owns_events_def Let_def)

lemma keeps_owned_world: "keeps O' m \<Longrightarrow> keeps (owned O') (on_world m)"
  by (auto simp: keeps_def on_world_def split: prod.split) (metis snd_conv)+

lemma keeps_check:
  assumes "keeps_handles lib O'" "\<forall>c e a. keeps (owned O') (on c e a)"
  shows "keeps (owned O') (check_event lib on timeout)"
proof -
  have ops: "keeps O' (message_default lib)" "keeps O' (message_destroy lib m)" for m
    using assms(1) by (auto simp: keeps_handles_def message_default_def message_destroy_def intro!: keeps_intros)
  have poll: "keeps O' (poll lib items n t)" for items n t
    using assms(1) unfolding keeps_def poll_def detail_poll_def keeps_handles_def
    by (auto simp: throw_errno_eq split: prod.split) (metis snd_conv)+
  have recv: "keeps O' (recv_frame lib h m)" for h m
    using assms(1) unfolding keeps_def recv_frame_def keeps_handles_def thenIO_def bindIO_def assertIO_def
    by (auto split: prod.split) (metis snd_conv)+
  note world = ops [THEN keeps_owned_world] poll [THEN keeps_owned_world] recv [THEN keeps_owned_world]
  have leave: "keeps (owned O') (leave lib m r)" for m and r :: "'c"
    unfolding leave_def by (intro keeps_then world keeps_return)
  have dispatch: "keeps (owned O') (dispatch_event lib on h event)" for h event
    unfolding dispatch_event_def Let_def
    by (auto intro!: keeps_bind keeps_then keeps_unwinding world leave assms(2) [rule_format] split: prod.split)
  have "keeps (owned O') (\<lambda>s. check_event lib on timeout s)"
    unfolding keeps_def check_event_def Let_def
    by (intro allI) (rule keepsD [OF _ surjective_pairing], auto intro!: keeps_bind keeps_then keeps_unwinding keeps_assert keeps_lift world leave dispatch split: prod.split)
  then show ?thesis .
qed

lemma socket_new_ptr_owned:
  assumes "handle_laws lib O'" "c \<noteq> 0" "socket_new_ptr lib c ty w = (r, w')"
  shows "case r of
      Inl e \<Rightarrow> O' w' = O' w
    | Inr s \<Rightarrow> handle s \<noteq> 0 \<and> handle s \<notin> O' w \<and> O' w' = insert (handle s) (O' w)"
proof -
  obtain h w1 where n: "zmq_socket lib c ty w = (h, w1)" by (meson surj_pair)
  with assms(1) have "if h = 0 then O' w1 = O' w else h \<notin> O' w \<and> O' w1 = insert h (O' w)"
    unfolding handle_laws_def by blast
  with n assms(2,3) show ?thesis by (auto simp: socket_new_ptr_def throw_errno_eq split: if_splits)
qed

text \<open>Assigning a new socket to the event socket closes the old one.\<close>

definition assign_events :: "('w, 'x) libzmq_scheme \<Rightarrow> socket_t \<Rightarrow> ('w, unit) monitor_io" where
  "assign_events lib fresh =
     (\<lambda>(w, m). case socket_move_assign lib (mon_events m) fresh w of
                 (Inl e, w') \<Rightarrow> (Inl e, (w', m))
               | (Inr (sock', left), w') \<Rightarrow> on_world (socket_destroy lib left) (w', m\<lparr>mon_events := sock'\<rparr>))"

lemma assign_events_owns:
  assumes laws: "handle_laws lib O'" and others: "0 \<notin> others"
    and own: "let h = handle (mon_events m)
      in if h = 0 then O' w = insert (handle fresh) others else h \<notin> others \<and> O' w = insert (handle fresh) (insert h others)"
    and fresh: "handle fresh \<noteq> 0" "handle fresh \<noteq> handle (mon_events m)" "handle fresh \<notin> others"
    and run: "assign_events lib fresh (w, m) = (r, s')"
  shows "r = Inr () \<and> owns_events O' others s'"
proof -
  have "0 \<notin> O' w" "handle (mon_events m) \<noteq> 0 \<longrightarrow> handle (mon_events m) \<in> O' w"
    using own others fresh by (auto simp: Let_def split: if_splits)
  from socket_close_owned [OF laws this] obtain old w' where
    close: "socket_close lib (mon_events m) w = (Inr old, w')" "handle old = 0" "O' w' = O' w - {handle (mon_events m)}" by blast
  have "O' w' = insert (handle fresh) others"
    using close(3) own others fresh by (auto simp: Let_def split: if_splits)
  then have "owns_events O' others (w', m\<lparr>mon_events := fresh\<rparr>)" using fresh by (simp add: owns_events_def)
  moreover have "socket_move_assign lib (mon_events m) fresh w = (Inr (fresh, old), w')"
    using close(1) by (simp add: socket_move_assign_def bindIO_def)
  moreover have "socket_destroy lib old w' = (Inr (), w')"
    using close(2) by (simp add: socket_destroy_def socket_close_def thenIO_def bindIO_def)
  ultimately show ?thesis using run by (auto simp: assign_events_def on_world_def)
qed

lemma init_owns:
  assumes "handle_laws lib O'" "keeps_handles lib O'" "\<forall>c e a. keeps (owned O') (on c e a)"
    and "ctxptr sock \<noteq> 0" "0 \<notin> others" "owns_events O' others s" "monitor_init lib on sock addr wanted s = (r, s')"
  shows "owns_events O' others s'"
proof -
  have start: "keeps (owned O') (on_world (call lib (plain (zmq_socket_monitor lib h a e))))" for h a e
    using assms(2) by (auto simp: keeps_handles_def intro!: keeps_owned_world keeps_call)
  have conn: "keeps O' (connect lib h addr)" for h
    using assms(2) by (auto simp: keeps_handles_def connect_def intro!: keeps_call)
  from assms(7) [unfolded monitor_init_def, folded assign_events_def]
  consider (fail) e where "on_world (call lib (plain (zmq_socket_monitor lib (handle sock) (Some addr) wanted))) s = (Inl e, s')"
    | (go) t where "on_world (call lib (plain (zmq_socket_monitor lib (handle sock) (Some addr) wanted))) s = (Inr (), t)"
        "bindIO (on_world (socket_new_ptr lib (ctxptr sock) ZMQ_PAIR)) (\<lambda>fresh.
           thenIO (assign_events lib fresh)
             (thenIO (\<lambda>(w, m). on_world (connect lib (handle (mon_events m)) addr) (w, m))
               (on on_monitor_started \<lparr>event_id = 0, event_value = 0\<rparr> [])))
           (fst t, (snd t)\<lparr>mon_socket := handle sock\<rparr>) = (r, s')"
    by (elim thenIO_cases) (auto split: prod.splits)
  then show ?thesis
  proof cases
    case fail
    with keepsD [OF start] assms(6) show ?thesis by (metis owns_events_keep)
  next
    case go
    let ?t = "(fst t, (snd t)\<lparr>mon_socket := handle sock\<rparr>)"
    have own: "owns_events O' others ?t"
      using keepsD [OF start go(1)] assms(6) by (simp add: owns_events_def Let_def)
    from go(2) show ?thesis
    proof (rule bindIO_cases)
      fix e assume "on_world (socket_new_ptr lib (ctxptr sock) ZMQ_PAIR) ?t = (Inl e, s')"
      then obtain w1 where w1: "socket_new_ptr lib (ctxptr sock) ZMQ_PAIR (fst t) = (Inl e, w1)" "s' = (w1, snd ?t)"
        by (auto simp: on_world_Inl)
      with socket_new_ptr_owned [OF assms(1,4) w1(1)] have "owned O' s' = owned O' ?t" by simp
      from this own show ?thesis by (rule owns_events_keep)
    next
      fix fresh t2 assume "on_world (socket_new_ptr lib (ctxptr sock) ZMQ_PAIR) ?t = (Inr fresh, t2)"
        and rest: "thenIO (assign_events lib fresh)
             (thenIO (\<lambda>(w, m). on_world (connect lib (handle (mon_events m)) addr) (w, m))
               (on on_monitor_started \<lparr>event_id = 0, event_value = 0\<rparr> [])) t2 = (r, s')"
      then obtain w1 where new: "socket_new_ptr lib (ctxptr sock) ZMQ_PAIR (fst t) = (Inr fresh, w1)" and t2: "t2 = (w1, snd ?t)"
        by (auto simp: on_world_Inr)
      from socket_new_ptr_owned [OF assms(1,4) new] have fresh: "handle fresh \<noteq> 0" "handle fresh \<notin> O' (fst t)" "O' w1 = insert (handle fresh) (O' (fst t))"
        by simp_all
      let ?h = "handle (mon_events (snd t))"
      have h: "if ?h = 0 then O' (fst t) = others else ?h \<notin> others \<and> O' (fst t) = insert ?h others"
        using own by (simp add: owns_events_def Let_def split: if_splits)
      from rest consider e t3 where "assign_events lib fresh t2 = (Inl e, t3)"
        | t3 where "assign_events lib fresh t2 = (Inr (), t3)"
          "thenIO (\<lambda>(w, m). on_world (connect lib (handle (mon_events m)) addr) (w, m))
               (on on_monitor_started \<lparr>event_id = 0, event_value = 0\<rparr> []) t3 = (r, s')"
        by (rule thenIO_cases) (simp_all add: unit_eq)
      then show ?thesis
      proof cases
        case 1
        from assign_events_owns [OF assms(1,5) _ fresh(1) _ _ 1 [unfolded t2]] h fresh show ?thesis
          by (auto simp: Let_def split: if_splits)
      next
        case 2
        have own3: "owns_events O' others t3"
          using assign_events_owns [OF assms(1,5) _ fresh(1) _ _ 2(1) [unfolded t2]] h fresh
          by (auto simp: Let_def split: if_splits)
        from 2(2) show ?thesis
        proof (elim thenIO_cases, goal_cases)
          case (1 e)
          then have "owned O' s' = owned O' t3"
            using keepsD [OF keeps_owned_world [OF conn], of _ t3] by (cases t3) auto
          with own3 show ?thesis by (rule owns_events_keep [rotated])
        next
          case (2 u t4)
          then have "owned O' t4 = owned O' t3"
            using keepsD [OF keeps_owned_world [OF conn], of _ t3] by (cases t3) auto
          with keepsD [OF assms(3) [rule_format] 2(2)] have "owned O' s' = owned O' t3" by simp
          with own3 show ?thesis by (rule owns_events_keep [rotated])
        qed
      qed
    qed
  qed
qed

lemma abort_owns:
  assumes "keeps_handles lib O'" "owns_events O' others s" "monitor_abort lib s = (r, s')"
  shows "owns_events O' others s'"
proof -
  have "keeps (owned O') (stop_events lib)"
    using assms(1) by (auto simp: keeps_def keeps_handles_def stop_events_def on_world_def)
  from keepsD [OF this] assms(2,3) show ?thesis
    unfolding monitor_abort_def
    by (elim thenIO_cases) (fastforce simp: owns_events_def Let_def split: prod.splits if_splits)+
qed

lemma close_owns:
  assumes "handle_laws lib O'" "keeps_handles lib O'" "0 \<notin> others" "owns_events O' others s"
  shows "\<exists>s'. monitor_close lib s = (Inr (), s') \<and> O' (fst s') = others \<and> handle (mon_events (snd s')) = 0"
proof -
  have stop: "\<exists>w'. stop_events lib s = (Inr (), (w', snd s)) \<and> O' w' = O' (fst s)"
    using assms(2) by (cases s) (auto simp: keeps_handles_def stop_events_def on_world_def)
  then obtain w' where w': "stop_events lib s = (Inr (), (w', snd s))" "O' w' = O' (fst s)" by blast
  have "0 \<notin> O' w'" "handle (mon_events (snd s)) \<noteq> 0 \<longrightarrow> handle (mon_events (snd s)) \<in> O' w'"
    using assms(3,4) w'(2) by (auto simp: owns_events_def Let_def split: if_splits)
  from socket_close_owned [OF assms(1) this] obtain old w2 where
    "socket_close lib (mon_events (snd s)) w' = (Inr old, w2)" "handle old = 0" "O' w2 = O' w' - {handle (mon_events (snd s))}"
    by blast
  with w' assms(3,4) show ?thesis
    by (auto simp: monitor_close_def thenIO_def bindIO_def owns_events_def Let_def split: if_splits)
qed

text \<open>C38: a monitor closes its event socket exactly once. Whatever a program does with it, starting it
  again on other sockets, checking for events, aborting it, with any of these throwing at any point,
  the event socket is the only handle it has opened and not closed, and when the monitor is destroyed
  that one is closed, no close fails, and the open handles are again those there were before.\<close>

theorem monitor_socket_closed:
  assumes "handle_laws lib open_handles" "keeps_handles lib open_handles" "0 \<notin> open_handles w"
    and "\<forall>c e a. keeps (\<lambda>s. (open_handles (fst s), mon_events (snd s))) (on c e a)"
    and "\<forall>sock addr wanted. M_init sock addr wanted \<in> set ops \<longrightarrow> ctxptr sock \<noteq> 0"
    and "mon_run lib on ops (w, monitor_new) = (r, s)"
  shows "\<exists>s'. monitor_destroy lib s = (Inr (), s') \<and> open_handles (fst s') = open_handles w"
proof -
  have "owns_events open_handles others s \<Longrightarrow> mon_run lib on ops s = (r, s') \<Longrightarrow> owns_events open_handles others s'"
    if "0 \<notin> others" "\<forall>sock addr wanted. M_init sock addr wanted \<in> set ops \<longrightarrow> ctxptr sock \<noteq> 0" for others s s' ops
    using that(2)
  proof (induction ops arbitrary: s)
    case (Cons op ops)
    obtain q t where step: "mon_exec lib on op s = (q, t)" by (meson surj_pair)
    have "owns_events open_handles others t"
    proof (cases op)
      case (M_init sock addr wanted)
      with step Cons.prems(3) show ?thesis
        using init_owns [OF assms(1,2,4) _ that(1) Cons.prems(1), of sock addr wanted q t] by simp
    next
      case (M_check timeout)
      have "keeps (owned open_handles) (mon_exec lib on op)"
        using M_check by (auto intro!: keeps_then keeps_return keeps_check [OF assms(2,4)])
      from keepsD [OF this step] Cons.prems(1) show ?thesis by (rule owns_events_keep)
    next
      case M_abort
      with step abort_owns [OF assms(2) Cons.prems(1)] show ?thesis by simp
    qed
    then have next_ok: "mon_run lib on ops t = (r, s') \<Longrightarrow> owns_events open_handles others s'"
      using Cons.IH [of t] Cons.prems(3) by (meson list.set_intros(2))
    from Cons.prems(2) step show ?case
      using \<open>owns_events open_handles others t\<close> by (cases q) (auto split: if_splits intro: next_ok)
  qed simp
  from this [OF assms(3) assms(5) _ assms(6)] have "owns_events open_handles (open_handles w) s"
    by (simp add: owns_events_def monitor_new_def no_socket_def)
  from close_owns [OF assms(1,2,3) this] show ?thesis by (auto simp: monitor_destroy_def)
qed

theorem monitor_socket_closed_witness:
  "\<exists>s'. monitor_destroy numbering (snd (mon_run numbering default_on
       [M_init \<lparr>handle = 1, ctxptr = 1\<rparr> ''inproc://a'' ZMQ_EVENT_ALL, M_check 0, M_init \<lparr>handle = 1, ctxptr = 1\<rparr> ''inproc://b'' ZMQ_EVENT_ALL,
        M_init \<lparr>handle = 1, ctxptr = 1\<rparr> ''inproc://c'' ZMQ_EVENT_ALL, M_abort] ((0, {}), monitor_new))) = (Inr (), s') \<and>
     numbering_open (fst s') = {}"
proof -
  have "keeps_handles numbering numbering_open"
    by (simp add: keeps_handles_def numbering_def calm_def numbering_open_def)
  moreover have "\<forall>c e a. keeps (\<lambda>s. (numbering_open (fst s), mon_events (snd s))) (default_on c e a)"
    by (simp add: default_on_def keeps_def)
  moreover obtain r s where run: "mon_run numbering default_on
      [M_init \<lparr>handle = 1, ctxptr = 1\<rparr> ''inproc://a'' ZMQ_EVENT_ALL, M_check 0, M_init \<lparr>handle = 1, ctxptr = 1\<rparr> ''inproc://b'' ZMQ_EVENT_ALL,
       M_init \<lparr>handle = 1, ctxptr = 1\<rparr> ''inproc://c'' ZMQ_EVENT_ALL, M_abort] ((0, {}), monitor_new) = (r, s)"
    by (meson surj_pair)
  ultimately have "\<exists>s'. monitor_destroy numbering s = (Inr (), s') \<and> numbering_open (fst s') = numbering_open (0, {})"
    by (intro monitor_socket_closed [OF numbering_laws _ _ _ _ run]) (simp_all add: numbering_open_def)
  with run show ?thesis by (simp only: run snd_conv) (simp add: numbering_open_def)
qed

end
