(* ===== verification/Zmq_Poller.thy ===== *)
theory Zmq_Poller
  imports Zmq_Socket
begin

text \<open>
  The part of the C++ layer that needs the draft functions of libzmq (\<open>ZMQ_BUILD_DRAFT_API\<close>): the
  groups and routing ids of messages, the steerable proxy, \<open>poller_t\<close>, and \<open>active_poller_t\<close>, which
  calls a handler per event. The draft functions extend the record of libzmq. The theorems: which
  handlers a wait calls, that all of them are alive whatever the handlers add or remove, and that
  a failed \<open>add\<close> leaves the poller as it was.
\<close>

section \<open>The draft functions\<close>

record poller_event =
  pe_socket :: nat
  pe_fd :: int
  pe_user_data :: nat
  pe_events :: int

definition blank_event :: poller_event where
  "blank_event = \<lparr>pe_socket = 0, pe_fd = 0, pe_user_data = 0, pe_events = 0\<rparr>"

text \<open>\<open>zmq_poller_wait_all\<close> takes the size of the array, and gives the entries it wrote at its start.\<close>

record 'w draft = "'w libzmq" +
  zmq_join :: "nat \<Rightarrow> string \<Rightarrow> 'w \<Rightarrow> int \<times> 'w"
  zmq_leave :: "nat \<Rightarrow> string \<Rightarrow> 'w \<Rightarrow> int \<times> 'w"
  zmq_msg_routing_id :: "zmq_msg_t \<Rightarrow> 'w \<Rightarrow> u32"
  zmq_msg_set_routing_id :: "zmq_msg_t \<Rightarrow> u32 \<Rightarrow> 'w \<Rightarrow> int \<times> 'w"
  zmq_msg_group :: "zmq_msg_t \<Rightarrow> 'w \<Rightarrow> string"
  zmq_msg_set_group :: "zmq_msg_t \<Rightarrow> string \<Rightarrow> 'w \<Rightarrow> int \<times> 'w"
  zmq_proxy_steerable :: "nat \<Rightarrow> nat \<Rightarrow> nat \<Rightarrow> nat \<Rightarrow> 'w \<Rightarrow> int \<times> 'w"
  zmq_poller_new :: "'w \<Rightarrow> nat \<times> 'w"
  zmq_poller_destroy :: "nat \<Rightarrow> 'w \<Rightarrow> int \<times> 'w"
  zmq_poller_size :: "nat \<Rightarrow> 'w \<Rightarrow> int"
  zmq_poller_add :: "nat \<Rightarrow> nat \<Rightarrow> nat \<Rightarrow> int \<Rightarrow> 'w \<Rightarrow> int \<times> 'w"
  zmq_poller_modify :: "nat \<Rightarrow> nat \<Rightarrow> int \<Rightarrow> 'w \<Rightarrow> int \<times> 'w"
  zmq_poller_remove :: "nat \<Rightarrow> nat \<Rightarrow> 'w \<Rightarrow> int \<times> 'w"
  zmq_poller_wait_all :: "nat \<Rightarrow> nat \<Rightarrow> int \<Rightarrow> 'w \<Rightarrow> int \<times> poller_event list \<times> 'w"

definition routing_id :: "('w, 'x) draft_scheme \<Rightarrow> zmq_msg_t \<Rightarrow> ('w, u32) io" where
  "routing_id lib m w = (Inr (zmq_msg_routing_id lib m w), w)"

definition set_routing_id :: "('w, 'x) draft_scheme \<Rightarrow> zmq_msg_t \<Rightarrow> u32 \<Rightarrow> ('w, unit) io" where
  "set_routing_id lib m r = call lib (plain (zmq_msg_set_routing_id lib m r))"

definition message_group :: "('w, 'x) draft_scheme \<Rightarrow> zmq_msg_t \<Rightarrow> ('w, string) io" where
  "message_group lib m w = (Inr (zmq_msg_group lib m w), w)"

definition set_group :: "('w, 'x) draft_scheme \<Rightarrow> zmq_msg_t \<Rightarrow> string \<Rightarrow> ('w, unit) io" where
  "set_group lib m g = call lib (plain (zmq_msg_set_group lib m g))"

definition socket_join :: "('w, 'x) draft_scheme \<Rightarrow> nat \<Rightarrow> string \<Rightarrow> ('w, unit) io" where
  "socket_join lib h g = call lib (plain (zmq_join lib h g))"

definition socket_leave :: "('w, 'x) draft_scheme \<Rightarrow> nat \<Rightarrow> string \<Rightarrow> ('w, unit) io" where
  "socket_leave lib h g = call lib (plain (zmq_leave lib h g))"

definition proxy_steerable :: "('w, 'x) draft_scheme \<Rightarrow> nat \<Rightarrow> nat \<Rightarrow> nat \<Rightarrow> nat \<Rightarrow> ('w, unit) io" where
  "proxy_steerable lib frontend backend capture control =
     call lib (plain (zmq_proxy_steerable lib frontend backend capture control))"

section \<open>poller\_t\<close>

definition poller_new :: "('w, 'x) draft_scheme \<Rightarrow> ('w, nat) io" where
  "poller_new lib w = (case zmq_poller_new lib w of (ptr, w') \<Rightarrow> if ptr = 0 then throw_errno lib w' else (Inr ptr, w'))"

definition add_impl :: "('w, 'x) draft_scheme \<Rightarrow> nat \<Rightarrow> nat \<Rightarrow> int \<Rightarrow> nat \<Rightarrow> ('w, unit) io" where
  "add_impl lib ptr sock ev user_data = call lib (plain (zmq_poller_add lib ptr sock user_data ev))"

definition poller_add :: "('w, 'x) draft_scheme \<Rightarrow> nat \<Rightarrow> nat \<Rightarrow> int \<Rightarrow> nat \<Rightarrow> ('w, unit) io" where
  "poller_add lib ptr sock ev user_data = add_impl lib ptr sock ev user_data"

definition poller_add_null :: "('w, 'x) draft_scheme \<Rightarrow> nat \<Rightarrow> nat \<Rightarrow> int \<Rightarrow> ('w, unit) io" where
  "poller_add_null lib ptr sock ev = add_impl lib ptr sock ev 0"

definition poller_remove :: "('w, 'x) draft_scheme \<Rightarrow> nat \<Rightarrow> nat \<Rightarrow> ('w, unit) io" where
  "poller_remove lib ptr sock = call lib (plain (zmq_poller_remove lib ptr sock))"

definition poller_modify :: "('w, 'x) draft_scheme \<Rightarrow> nat \<Rightarrow> nat \<Rightarrow> int \<Rightarrow> ('w, unit) io" where
  "poller_modify lib ptr sock ev = call lib (plain (zmq_poller_modify lib ptr sock ev))"

text \<open>The array is written also by a call that throws.\<close>

definition wait_all :: "('w, 'x) draft_scheme \<Rightarrow> nat \<Rightarrow> int \<Rightarrow> ('w \<times> poller_event list, nat) io" where
  "wait_all lib ptr timeout = (\<lambda>(w, evs).
     (case zmq_poller_wait_all lib ptr (length evs) timeout w of
        (rc, written, w') \<Rightarrow>
          let evs' = written @ drop (length written) evs
          in if 0 < rc then (Inr (nat rc), (w', evs'))
             else if zmq_errno lib w' = EAGAIN then (Inr 0, (w', evs'))
             else (case throw_errno lib w' of (r, w'') \<Rightarrow> (r, (w'', evs')))))"

definition poller_size :: "('w, 'x) draft_scheme \<Rightarrow> nat \<Rightarrow> ('w, nat) io" where
  "poller_size lib ptr w =
     (let rc = zmq_poller_size lib ptr w in thenIO (assertIO (0 \<le> rc)) (returnIO (nat (max rc 0))) w)"

definition destroy_poller :: "('w, 'x) draft_scheme \<Rightarrow> nat \<Rightarrow> ('w, unit) io" where
  "destroy_poller lib ptr = (if ptr = 0 then returnIO () else assert_call (plain (zmq_poller_destroy lib ptr)))"

section \<open>active\_poller\_t\<close>

text \<open>
  A handler is an object in memory, owned by the \<open>shared_ptr\<close>s of \<open>handlers\<close> and \<open>poller_handlers\<close> and
  destroyed with the last of them; libzmq and the array of events hold its bare address. \<open>objects\<close> are
  the live objects; the map from sockets is a list without an order that matters.
\<close>

record 'h active_poller =
  need_rebuild :: bool
  base_poller :: nat
  handlers :: "(nat \<times> nat) list"
  poller_events :: "poller_event list"
  poller_handlers :: "nat list"
  objects :: "(nat \<times> 'h) list"

definition active_poller_init :: "nat \<Rightarrow> 'h active_poller" where
  "active_poller_init ptr =
     \<lparr>need_rebuild = False, base_poller = ptr, handlers = [], poller_events = [], poller_handlers = [], objects = []\<rparr>"

definition active_poller_new :: "('w, 'x) draft_scheme \<Rightarrow> ('w, 'h active_poller) io" where
  "active_poller_new lib = bindIO (poller_new lib) (\<lambda>ptr. returnIO (active_poller_init ptr))"

definition held :: "'h active_poller \<Rightarrow> nat \<Rightarrow> bool" where
  "held p a \<longleftrightarrow> a \<in> snd ` set (handlers p) \<or> a \<in> set (poller_handlers p)"

definition release :: "'h active_poller \<Rightarrow> 'h active_poller" where
  "release p = p\<lparr>objects := filter (\<lambda>(a, h). held p a) (objects p)\<rparr>"

text \<open>The allocator's choice: some address that is not in use.\<close>

definition new_address :: "(nat \<times> 'h) list \<Rightarrow> nat" where
  "new_address objs = Suc (foldr max (map fst objs) 0)"

definition erase :: "nat \<Rightarrow> (nat \<times> nat) list \<Rightarrow> (nat \<times> nat) list" where
  "erase sock hs = filter (\<lambda>(s, a). s \<noteq> sock) hs"

definition ap_add :: "('w, 'x) draft_scheme \<Rightarrow> nat \<Rightarrow> int \<Rightarrow> 'h option \<Rightarrow> ('w \<times> 'h active_poller, unit) io" where
  "ap_add lib sock ev handler = (\<lambda>(w, p).
     (case handler of
        None \<Rightarrow> (Inl Invalid_Argument, (w, p))
      | Some h \<Rightarrow>
          if sock \<in> fst ` set (handlers p) then (Inl (Zmq_Error (error_num (error_t_num EINVAL))), (w, p))
          else let a = new_address (objects p);
                   q = p\<lparr>handlers := (sock, a) # handlers p, objects := (a, h) # objects p\<rparr>
               in (case poller_add lib (base_poller p) sock ev a w of
                     (Inr _, w') \<Rightarrow> (Inr (), (w', q\<lparr>need_rebuild := True\<rparr>))
                   | (Inl e, w') \<Rightarrow> (Inl e, (w', release (q\<lparr>handlers := erase sock (handlers q)\<rparr>))))))"

definition ap_remove :: "('w, 'x) draft_scheme \<Rightarrow> nat \<Rightarrow> ('w \<times> 'h active_poller, unit) io" where
  "ap_remove lib sock = (\<lambda>(w, p).
     (case poller_remove lib (base_poller p) sock w of
        (Inl e, w') \<Rightarrow> (Inl e, (w', p))
      | (Inr _, w') \<Rightarrow> (Inr (), (w', release (p\<lparr>handlers := erase sock (handlers p), need_rebuild := True\<rparr>)))))"

definition ap_modify :: "('w, 'x) draft_scheme \<Rightarrow> nat \<Rightarrow> int \<Rightarrow> ('w \<times> 'h active_poller, unit) io" where
  "ap_modify lib sock ev = (\<lambda>(w, p). on_world (poller_modify lib (base_poller p) sock ev) (w, p))"

definition resize_events :: "nat \<Rightarrow> poller_event list \<Rightarrow> poller_event list" where
  "resize_events n evs = take n evs @ replicate (n - length evs) blank_event"

definition rebuild_poller :: "'h active_poller \<Rightarrow> 'h active_poller" where
  "rebuild_poller p =
     (if need_rebuild p
      then release (p\<lparr>poller_events := resize_events (length (handlers p)) (poller_events p),
                      poller_handlers := map snd (handlers p), need_rebuild := False\<rparr>)
      else p)"

text \<open>\<open>std::for_each\<close> from the \<open>i\<close>-th event: \<open>run h ev\<close> is a call of the handler \<open>h\<close>.\<close>

fun call_handlers :: "('h \<Rightarrow> int \<Rightarrow> ('w \<times> 'h active_poller, unit) io) \<Rightarrow> nat \<Rightarrow> nat \<Rightarrow> ('w \<times> 'h active_poller, unit) io" where
  "call_handlers run 0 i = returnIO ()"
| "call_handlers run (Suc n) i = (\<lambda>(w, p).
     if length (poller_events p) \<le> i then (Inl Buffer_Overflow, (w, p))
     else let e = poller_events p ! i
          in if pe_user_data e = 0 then (Inl Assert_Failed, (w, p))
             else (case map_of (objects p) (pe_user_data e) of
                     None \<Rightarrow> (Inl Use_After_Free, (w, p))
                   | Some h \<Rightarrow> thenIO (run h (pe_events e)) (call_handlers run n (Suc i)) (w, p)))"

definition ap_wait :: "('w, 'x) draft_scheme \<Rightarrow> ('h \<Rightarrow> int \<Rightarrow> ('w \<times> 'h active_poller, unit) io) \<Rightarrow> int
    \<Rightarrow> ('w \<times> 'h active_poller, nat) io" where
  "ap_wait lib run timeout = (\<lambda>(w, p).
     (let p = rebuild_poller p
      in (case wait_all lib (base_poller p) timeout (w, poller_events p) of
            (Inl e, (w', evs)) \<Rightarrow> (Inl e, (w', p\<lparr>poller_events := evs\<rparr>))
          | (Inr n, (w', evs)) \<Rightarrow>
              thenIO (call_handlers run n 0) (returnIO n) (w', p\<lparr>poller_events := evs\<rparr>))))"

definition ap_empty :: "'h active_poller \<Rightarrow> bool" where
  "ap_empty p \<longleftrightarrow> handlers p = []"

definition ap_size :: "'h active_poller \<Rightarrow> nat" where
  "ap_size p = length (handlers p)"

text \<open>The members are destroyed in reverse order, the poller of libzmq last.\<close>

definition ap_destroy :: "('w, 'x) draft_scheme \<Rightarrow> ('w \<times> 'h active_poller, unit) io" where
  "ap_destroy lib = (\<lambda>(w, p).
     on_world (destroy_poller lib (base_poller p)) (w, p\<lparr>handlers := [], poller_handlers := [], poller_events := [], objects := []\<rparr>))"

section \<open>What libzmq promises of a poller\<close>

text \<open>
  The registrations of a poller, pairs of a socket and its user data, as an observation of the world. A
  new poller has none.
  A call that fails changes none; a wait delivers only what is registered, in an array it does not
  overrun.
\<close>

definition poller_laws :: "('w, 'x) draft_scheme \<Rightarrow> (nat \<Rightarrow> 'w \<Rightarrow> (nat \<times> nat) set) \<Rightarrow> bool" where
  "poller_laws lib regs \<longleftrightarrow>
     (\<forall>w. fst (zmq_poller_new lib w) \<noteq> 0 \<longrightarrow> regs (fst (zmq_poller_new lib w)) (snd (zmq_poller_new lib w)) = {}) \<and>
     (\<forall>p s u e w. regs p (snd (zmq_poller_add lib p s u e w)) =
        (if fst (zmq_poller_add lib p s u e w) = 0 then insert (s, u) (regs p w) else regs p w)) \<and>
     (\<forall>p s w. regs p (snd (zmq_poller_remove lib p s w)) =
        (if fst (zmq_poller_remove lib p s w) = 0 then {x \<in> regs p w. fst x \<noteq> s} else regs p w)) \<and>
     (\<forall>p s e w. regs p (snd (zmq_poller_modify lib p s e w)) = regs p w) \<and>
     (\<forall>p n t w rc out w'. zmq_poller_wait_all lib p n t w = (rc, out, w') \<longrightarrow>
        regs p w' = regs p w \<and> length out \<le> n \<and> nat rc \<le> length out \<and>
        (\<forall>e\<in>set (take (nat rc) out). (pe_socket e, pe_user_data e) \<in> regs p w))"

lemma call_plain:
  "call lib (plain f) w =
     (if fst (f w) = 0 then (Inr (), snd (f w)) else (Inl (Zmq_Error (zmq_errno lib (snd (f w)))), snd (f w)))"
  by (simp add: call_def plain_def throw_errno_eq case_prod_unfold)

lemma poller_laws_regs:
  assumes "poller_laws lib regs"
  shows "regs p (snd (zmq_poller_add lib p s u e w)) =
      (if fst (zmq_poller_add lib p s u e w) = 0 then insert (s, u) (regs p w) else regs p w)"
    and "regs p (snd (zmq_poller_remove lib p s w)) =
      (if fst (zmq_poller_remove lib p s w) = 0 then {x \<in> regs p w. fst x \<noteq> s} else regs p w)"
    and "regs p (snd (zmq_poller_modify lib p s e w)) = regs p w"
    and "fst (zmq_poller_new lib w) \<noteq> 0 \<Longrightarrow> regs (fst (zmq_poller_new lib w)) (snd (zmq_poller_new lib w)) = {}"
  by (rule assms [unfolded poller_laws_def, THEN conjunct2, THEN conjunct1, rule_format],
      rule assms [unfolded poller_laws_def, THEN conjunct2, THEN conjunct2, THEN conjunct1, rule_format],
      rule assms [unfolded poller_laws_def, THEN conjunct2, THEN conjunct2, THEN conjunct2, THEN conjunct1, rule_format],
      rule assms [unfolded poller_laws_def, THEN conjunct1, rule_format])

lemma poller_add_law:
  "poller_laws lib regs \<Longrightarrow> poller_add lib p s e u w = (r, w') \<Longrightarrow>
   (case r of Inr _ \<Rightarrow> regs p w' = insert (s, u) (regs p w) | Inl f \<Rightarrow> regs p w' = regs p w \<and> (\<exists>n. f = Zmq_Error n))"
  unfolding poller_add_def add_impl_def call_plain by (auto simp: poller_laws_regs split: if_splits)

lemma poller_remove_law:
  "poller_laws lib regs \<Longrightarrow> poller_remove lib p s w = (r, w') \<Longrightarrow>
   (case r of Inr _ \<Rightarrow> regs p w' = {x \<in> regs p w. fst x \<noteq> s} | Inl f \<Rightarrow> regs p w' = regs p w \<and> (\<exists>n. f = Zmq_Error n))"
  unfolding poller_remove_def call_plain by (auto simp: poller_laws_regs split: if_splits)

lemma poller_modify_law:
  "poller_laws lib regs \<Longrightarrow> poller_modify lib p s e w = (r, w') \<Longrightarrow>
   regs p w' = regs p w \<and> (\<forall>f. r = Inl f \<longrightarrow> (\<exists>n. f = Zmq_Error n))"
  unfolding poller_modify_def call_plain by (auto simp: poller_laws_regs split: if_splits)

lemma wait_all_law:
  assumes "poller_laws lib regs" "wait_all lib p t (w, evs) = (r, (w', evs'))"
  shows "regs p w' = regs p w \<and> length evs' = length evs \<and>
    (case r of Inr n \<Rightarrow> n \<le> length evs' \<and> (\<forall>e\<in>set (take n evs'). (pe_socket e, pe_user_data e) \<in> regs p w)
     | Inl f \<Rightarrow> \<exists>n. f = Zmq_Error n)"
proof -
  obtain rc out w1 where c: "zmq_poller_wait_all lib p (length evs) t w = (rc, out, w1)" by (metis surj_pair)
  have "regs p w1 = regs p w \<and> length out \<le> length evs \<and> nat rc \<le> length out \<and>
      (\<forall>e\<in>set (take (nat rc) out). (pe_socket e, pe_user_data e) \<in> regs p w)"
    using assms(1) c unfolding poller_laws_def by blast
  then show ?thesis using assms(2) c by (auto simp: wait_all_def Let_def throw_errno_eq split: if_splits)
qed

section \<open>The invariant\<close>

definition poller_inv :: "(nat \<Rightarrow> 'w \<Rightarrow> (nat \<times> nat) set) \<Rightarrow> 'w \<times> 'h active_poller \<Rightarrow> bool" where
  "poller_inv regs s \<longleftrightarrow> (case s of (w, p) \<Rightarrow>
     distinct (map fst (handlers p)) \<and> distinct (map snd (handlers p)) \<and> distinct (map fst (objects p)) \<and>
     0 \<notin> fst ` set (objects p) \<and>
     fst ` set (objects p) = snd ` set (handlers p) \<union> set (poller_handlers p) \<and>
     regs (base_poller p) w = set (handlers p) \<and>
     (\<not> need_rebuild p \<longrightarrow> set (poller_handlers p) = snd ` set (handlers p)
        \<and> length (poller_events p) = length (handlers p)))"

lemma new_address_fresh: "new_address objs \<notin> fst ` set objs" "new_address objs \<noteq> 0"
proof -
  have "a \<le> foldr max xs 0" if "a \<in> set xs" for a and xs :: "nat list"
    using that by (induction xs) (auto simp: le_max_iff_disj)
  from this [of _ "map fst objs"] show "new_address objs \<notin> fst ` set objs"
    by (fastforce simp: new_address_def)
qed (simp add: new_address_def)

lemma released_objects: "fst ` set (objects (release p)) = {a \<in> fst ` set (objects p). held p a}"
  by (force simp: release_def)

lemma released [simp]:
  "handlers (release p) = handlers p" "poller_handlers (release p) = poller_handlers p"
  "need_rebuild (release p) = need_rebuild p" "poller_events (release p) = poller_events p"
  "base_poller (release p) = base_poller p"
  by (simp_all add: release_def)

lemma erase_members: "set (erase s hs) = {x \<in> set hs. fst x \<noteq> s}"
  by (auto simp: erase_def)

text \<open>What an object is does not change while it is held.\<close>

lemma map_of_filter_key: "map_of (filter (\<lambda>(a, h). P a) xs) a = (if P a then map_of xs a else None)"
  by (induction xs) auto

lemma released_object: "held p a \<Longrightarrow> map_of (objects (release p)) a = map_of (objects p) a"
  unfolding release_def by (simp add: map_of_filter_key)

lemma held_p: "poller_inv regs (w, p) \<Longrightarrow> a \<in> fst ` set (objects p) \<longleftrightarrow> held p a"
  by (auto simp: poller_inv_def held_def)

lemma release_id: "\<forall>x\<in>set (objects p). held p (fst x) \<Longrightarrow> release p = p"
  by (cases p) (simp add: release_def case_prod_unfold)

definition api_error :: "fault \<Rightarrow> bool" where
  "api_error e \<longleftrightarrow> e = Invalid_Argument \<or> (\<exists>n. e = Zmq_Error n)"

text \<open>What an operation between two waits leaves alone.\<close>

definition stable :: "'h active_poller \<Rightarrow> 'h active_poller \<Rightarrow> bool" where
  "stable p q \<longleftrightarrow> base_poller q = base_poller p \<and> poller_events q = poller_events p \<and>
     poller_handlers q = poller_handlers p \<and>
     (\<forall>a\<in>set (poller_handlers p). map_of (objects q) a = map_of (objects p) a)"

lemma stable_refl [simp]: "stable p p"
  by (simp add: stable_def)

lemma stable_trans: "stable p q \<Longrightarrow> stable q r \<Longrightarrow> stable p r"
  by (auto simp: stable_def)

text \<open>A failed \<open>add\<close> is rolled back to exactly the state before.\<close>

lemma ap_add_fails:
  assumes "poller_inv regs (w, p)" "ap_add lib s ev h (w, p) = (Inl e, (w', q))"
  shows "q = p"
proof (cases h)
  case (Some x)
  let ?a = "new_address (objects p)"
  have fresh: "\<not> held p ?a" using held_p [OF assms(1)] new_address_fresh(1) by blast
  show ?thesis
  proof (cases "s \<in> fst ` set (handlers p)")
    case False
    then have "erase s ((s, ?a) # handlers p) = handlers p"
      by (auto simp: erase_def filter_id_conv image_iff case_prod_unfold)
    moreover have "release (p\<lparr>objects := (?a, x) # objects p\<rparr>) = p"
    proof -
      have "filter (\<lambda>(b, h). held p b) (objects p) = objects p"
        by (force simp: filter_id_conv held_p [OF assms(1), symmetric])
      moreover have "held (p\<lparr>objects := os\<rparr>) = held p" for os by (rule ext) (simp add: held_def)
      ultimately show ?thesis using fresh by (simp add: release_def)
    qed
    ultimately show ?thesis using assms(2) Some False
      by (auto simp: ap_add_def Let_def split: sum.splits prod.splits)
  qed (use assms(2) Some in \<open>simp add: ap_add_def\<close>)
qed (use assms(2) in \<open>simp add: ap_add_def\<close>)

lemma ap_add_ok:
  assumes "poller_laws lib regs" "poller_inv regs (w, p)" "ap_add lib s ev h (w, p) = (r, (w', q))"
  shows "poller_inv regs (w', q) \<and> stable p q \<and> (\<forall>e. r = Inl e \<longrightarrow> api_error e)"
proof (cases "\<exists>x w1. h = Some x \<and> s \<notin> fst ` set (handlers p) \<and>
    poller_add lib (base_poller p) s ev (new_address (objects p)) w = (Inr (), w1)")
  case True
  then obtain x w1 where x: "h = Some x" "s \<notin> fst ` set (handlers p)"
    "poller_add lib (base_poller p) s ev (new_address (objects p)) w = (Inr (), w1)" by blast
  let ?a = "new_address (objects p)"
  have q: "r = Inr ()" "w' = w1"
    "q = p\<lparr>handlers := (s, ?a) # handlers p, objects := (?a, x) # objects p, need_rebuild := True\<rparr>"
    using assms(3) x by (simp_all add: ap_add_def Let_def)
  have "?a \<notin> fst ` set (objects p)" "?a \<noteq> 0" by (rule new_address_fresh)+
  moreover from this have "?a \<notin> snd ` set (handlers p)" "?a \<notin> set (poller_handlers p)"
    using assms(2) by (auto simp: poller_inv_def)
  ultimately show ?thesis using assms(2) x(2) poller_add_law [OF assms(1) x(3)]
    by (auto simp: q poller_inv_def stable_def)
next
  case False
  have "regs (base_poller p) w' = regs (base_poller p) w \<and> (\<exists>e. r = Inl e \<and> api_error e)"
  proof (cases h)
    case (Some x)
    show ?thesis
    proof (cases "s \<in> fst ` set (handlers p)")
      case True
      then show ?thesis using assms(3) Some by (auto simp: ap_add_def api_error_def)
    next
      case new: False
      obtain r1 w1 where c: "poller_add lib (base_poller p) s ev (new_address (objects p)) w = (r1, w1)" by (meson surj_pair)
      with False Some new obtain e where "r1 = Inl e" by (cases r1) auto
      with c poller_add_law [OF assms(1) c] assms(3) Some new show ?thesis
        by (auto simp: ap_add_def Let_def api_error_def)
    qed
  qed (use assms(3) in \<open>auto simp: ap_add_def api_error_def\<close>)
  moreover from this assms(3) ap_add_fails [OF assms(2)] have "q = p" by blast
  ultimately show ?thesis using assms(2) by (auto simp: poller_inv_def)
qed

lemma ap_remove_ok:
  assumes "poller_laws lib regs" "poller_inv regs (w, p)" "ap_remove lib s (w, p) = (r, (w', q))"
  shows "poller_inv regs (w', q) \<and> stable p q \<and> (\<forall>e. r = Inl e \<longrightarrow> api_error e)"
proof -
  obtain r1 w1 where c: "poller_remove lib (base_poller p) s w = (r1, w1)" by (meson surj_pair)
  note law = poller_remove_law [OF assms(1) c]
  show ?thesis
  proof (cases r1)
    case (Inl e)
    with c law assms show ?thesis by (auto simp: ap_remove_def poller_inv_def api_error_def)
  next
    case (Inr u)
    let ?p = "p\<lparr>handlers := erase s (handlers p), need_rebuild := True\<rparr>"
    have q: "r = Inr ()" "w' = w1" "q = release ?p" using c Inr assms(3) by (simp_all add: ap_remove_def)
    have inv: "distinct (map fst (handlers p))" "distinct (map snd (handlers p))" "distinct (map fst (objects p))"
      "0 \<notin> fst ` set (objects p)" "fst ` set (objects p) = snd ` set (handlers p) \<union> set (poller_handlers p)"
      "regs (base_poller p) w = set (handlers p)" using assms(2) by (auto simp: poller_inv_def)
    have "fst ` set (objects q) = snd ` set (handlers q) \<union> set (poller_handlers q)"
      unfolding q(3) released_objects using inv(5) by (auto simp: held_def erase_members)
    moreover have "distinct (map fst (objects q))" "0 \<notin> fst ` set (objects q)"
      using inv(3,4) unfolding q(3) by (auto simp: release_def distinct_map_filter)
    moreover have "distinct (map fst (handlers q))" "distinct (map snd (handlers q))"
      using inv(1,2) by (auto simp: q(3) erase_def distinct_map_filter)
    moreover have "regs (base_poller q) w' = set (handlers q)" using law Inr inv(6) q by (simp add: erase_members)
    ultimately have "poller_inv regs (w', q)" by (simp add: poller_inv_def q(3))
    moreover have "stable p q"
      unfolding q(3) stable_def by (auto simp: released_object held_def)
    ultimately show ?thesis by (simp add: q(1))
  qed
qed

lemma ap_modify_ok:
  assumes "poller_laws lib regs" "poller_inv regs (w, p)" "ap_modify lib s ev (w, p) = (r, (w', q))"
  shows "poller_inv regs (w', q) \<and> stable p q \<and> (\<forall>e. r = Inl e \<longrightarrow> api_error e)"
proof -
  obtain r1 w1 where c: "poller_modify lib (base_poller p) s ev w = (r1, w1)" by (meson surj_pair)
  from assms(2,3) poller_modify_law [OF assms(1) c] c show ?thesis
    by (auto simp: ap_modify_def on_world_def poller_inv_def api_error_def)
qed

section \<open>Handlers that add, remove and modify\<close>

text \<open>The body of a handler: what it does to the poller, depending on its event and on the world.\<close>

datatype 'h poller_op = Add nat int "'h option" | Remove nat | Modify nat int

fun exec_op :: "('w, 'x) draft_scheme \<Rightarrow> 'h poller_op \<Rightarrow> ('w \<times> 'h active_poller, unit) io" where
  "exec_op lib (Add s ev h) = ap_add lib s ev h"
| "exec_op lib (Remove s) = ap_remove lib s"
| "exec_op lib (Modify s ev) = ap_modify lib s ev"

fun exec_ops :: "('w, 'x) draft_scheme \<Rightarrow> 'h poller_op list \<Rightarrow> ('w \<times> 'h active_poller, unit) io" where
  "exec_ops lib [] = returnIO ()"
| "exec_ops lib (x # xs) = thenIO (exec_op lib x) (exec_ops lib xs)"

definition run_handler :: "('w, 'x) draft_scheme \<Rightarrow> ('h \<Rightarrow> int \<Rightarrow> 'w \<Rightarrow> 'h poller_op list) \<Rightarrow> 'h \<Rightarrow> int
    \<Rightarrow> ('w \<times> 'h active_poller, unit) io" where
  "run_handler lib body h ev = (\<lambda>(w, p). exec_ops lib (body h ev w) (w, p))"

lemma exec_op_ok:
  assumes "poller_laws lib regs" "poller_inv regs (w, p)" "exec_op lib x (w, p) = (r, (w', q))"
  shows "poller_inv regs (w', q) \<and> stable p q \<and> (\<forall>e. r = Inl e \<longrightarrow> api_error e)"
  using ap_add_ok [OF assms(1,2)] ap_remove_ok [OF assms(1,2)] ap_modify_ok [OF assms(1,2)] assms(3)
  by (cases x) fastforce+

lemma exec_ops_ok:
  assumes "poller_laws lib regs"
  shows "poller_inv regs (w, p) \<Longrightarrow> exec_ops lib xs (w, p) = (r, (w', q)) \<Longrightarrow>
    poller_inv regs (w', q) \<and> stable p q \<and> (\<forall>e. r = Inl e \<longrightarrow> api_error e)"
proof (induction xs arbitrary: w p)
  case (Cons x xs)
  obtain r1 w1 p1 where x: "exec_op lib x (w, p) = (r1, (w1, p1))" by (metis surj_pair)
  note ok = exec_op_ok [OF assms Cons.prems(1) x]
  show ?case
  proof (cases r1)
    case (Inl e)
    with ok x Cons.prems(2) show ?thesis by (auto simp: thenIO_def bindIO_def)
  next
    case (Inr u)
    with x Cons.prems(2) have "exec_ops lib xs (w1, p1) = (r, (w', q))" by (simp add: thenIO_def bindIO_def)
    from Cons.IH [OF _ this] ok show ?thesis using stable_trans by blast
  qed
qed auto

lemma run_handler_ok:
  assumes "poller_laws lib regs" "poller_inv regs (w, p)" "run_handler lib body h ev (w, p) = (r, (w', q))"
  shows "poller_inv regs (w', q) \<and> stable p q \<and> (\<forall>e. r = Inl e \<longrightarrow> api_error e)"
  using assms(3) exec_ops_ok [OF assms(1,2)] by (simp add: run_handler_def)

section \<open>The handlers a wait calls\<close>

fun call_list :: "('h \<Rightarrow> int \<Rightarrow> ('s, unit) io) \<Rightarrow> ('h \<times> int) list \<Rightarrow> ('s, unit) io" where
  "call_list run [] = returnIO ()"
| "call_list run ((h, ev) # xs) = thenIO (run h ev) (call_list run xs)"

definition event_calls :: "'h active_poller \<Rightarrow> poller_event list \<Rightarrow> ('h \<times> int) list" where
  "event_calls p evs = map (\<lambda>e. (the (map_of (objects p) (pe_user_data e)), pe_events e)) evs"

lemma stable_calls:
  "stable p q \<Longrightarrow> \<forall>e\<in>set evs. pe_user_data e \<in> set (poller_handlers p) \<Longrightarrow> event_calls q evs = event_calls p evs"
  by (simp add: stable_def event_calls_def)

lemma live_object:
  assumes "poller_inv regs (w, p)" "a \<in> set (poller_handlers p)"
  obtains h where "map_of (objects p) a = Some h" "a \<noteq> 0"
proof -
  have "a \<in> fst ` set (objects p)" "0 \<notin> fst ` set (objects p)" using assms by (auto simp: poller_inv_def)
  then show thesis using that by (cases "map_of (objects p) a"; cases "a = 0") (auto simp: map_of_eq_None_iff)
qed

lemma call_handlers_list:
  assumes "poller_laws lib regs"
  shows "poller_inv regs (w, p) \<Longrightarrow> i + n \<le> length (poller_events p) \<Longrightarrow>
    \<forall>e\<in>set (take n (drop i (poller_events p))). pe_user_data e \<in> set (poller_handlers p) \<Longrightarrow>
    call_handlers (run_handler lib body) n i (w, p) =
      call_list (run_handler lib body) (event_calls p (take n (drop i (poller_events p)))) (w, p) \<and>
    (\<forall>r w' q. call_handlers (run_handler lib body) n i (w, p) = (r, (w', q)) \<longrightarrow>
       poller_inv regs (w', q) \<and> (\<forall>e. r = Inl e \<longrightarrow> api_error e))"
proof (induction n arbitrary: i w p)
  case (Suc n)
  let ?run = "run_handler lib body" and ?e = "poller_events p ! i"
  have i: "i < length (poller_events p)" using Suc.prems(2) by simp
  have split: "take (Suc n) (drop i (poller_events p)) = ?e # take n (drop (Suc i) (poller_events p))"
    using i by (simp add: Cons_nth_drop_Suc [symmetric])
  have e: "pe_user_data ?e \<in> set (poller_handlers p)"
    and rest: "\<forall>e\<in>set (take n (drop (Suc i) (poller_events p))). pe_user_data e \<in> set (poller_handlers p)"
    using Suc.prems(3) unfolding split by simp_all
  from live_object [OF Suc.prems(1) e] obtain h where h: "map_of (objects p) (pe_user_data ?e) = Some h" "pe_user_data ?e \<noteq> 0" .
  obtain r1 w1 p1 where run: "?run h (pe_events ?e) (w, p) = (r1, (w1, p1))" by (metis surj_pair)
  note ok = run_handler_ok [OF assms Suc.prems(1) run]
  have this_call: "call_handlers ?run (Suc n) i (w, p) =
      thenIO (?run h (pe_events ?e)) (call_handlers ?run n (Suc i)) (w, p)"
    using i h by (simp add: Let_def)
  have calls: "event_calls p (take (Suc n) (drop i (poller_events p))) =
      (h, pe_events ?e) # event_calls p (take n (drop (Suc i) (poller_events p)))"
    unfolding split by (simp add: event_calls_def h)
  show ?case
  proof (cases r1)
    case (Inl e)
    with ok run show ?thesis unfolding this_call calls by (auto simp: thenIO_def bindIO_def)
  next
    case (Inr u)
    have same: "poller_events p1 = poller_events p" "poller_handlers p1 = poller_handlers p"
      using ok by (simp_all add: stable_def)
    have "event_calls p1 (take n (drop (Suc i) (poller_events p))) = event_calls p (take n (drop (Suc i) (poller_events p)))"
      using ok rest by (intro stable_calls) auto
    with Suc.IH [of w1 p1 "Suc i"] ok Suc.prems(2) rest run Inr show ?thesis
      unfolding this_call calls by (auto simp: same thenIO_def bindIO_def)
  qed
qed (simp add: event_calls_def)

lemma rebuilt:
  assumes "poller_inv regs (w, p)"
  shows "poller_inv regs (w, rebuild_poller p)" "set (poller_handlers (rebuild_poller p)) = snd ` set (handlers p)"
    and "base_poller (rebuild_poller p) = base_poller p" "handlers (rebuild_poller p) = handlers p"
    and "a \<in> snd ` set (handlers p) \<Longrightarrow> map_of (objects (rebuild_poller p)) a = map_of (objects p) a"
proof -
  let ?q = "p\<lparr>poller_events := resize_events (length (handlers p)) (poller_events p),
      poller_handlers := map snd (handlers p), need_rebuild := False\<rparr>"
  have inv: "distinct (map fst (handlers p))" "distinct (map snd (handlers p))" "distinct (map fst (objects p))"
    "0 \<notin> fst ` set (objects p)" "fst ` set (objects p) = snd ` set (handlers p) \<union> set (poller_handlers p)"
    "regs (base_poller p) w = set (handlers p)" using assms by (auto simp: poller_inv_def)
  have "fst ` set (objects (release ?q)) = snd ` set (handlers p)"
    unfolding released_objects using inv(5) by (auto simp: held_def)
  moreover have "distinct (map fst (objects (release ?q)))" "0 \<notin> fst ` set (objects (release ?q))"
    using inv(3,4) by (auto simp: release_def distinct_map_filter)
  moreover have "length (resize_events n evs) = n" for n evs by (simp add: resize_events_def)
  ultimately show "poller_inv regs (w, rebuild_poller p)"
    using assms inv by (simp add: rebuild_poller_def poller_inv_def)
  show "set (poller_handlers (rebuild_poller p)) = snd ` set (handlers p)"
    using assms by (auto simp: rebuild_poller_def poller_inv_def)
  show "base_poller (rebuild_poller p) = base_poller p" "handlers (rebuild_poller p) = handlers p"
    by (simp_all add: rebuild_poller_def)
  show "map_of (objects (rebuild_poller p)) a = map_of (objects p) a" if "a \<in> snd ` set (handlers p)"
    using that released_object [of ?q a] by (auto simp: rebuild_poller_def held_def)
qed

text \<open>The handler registered for a socket.\<close>

definition handler_of :: "'h active_poller \<Rightarrow> nat \<Rightarrow> 'h option" where
  "handler_of p s = (case map_of (handlers p) s of None \<Rightarrow> None | Some a \<Rightarrow> map_of (objects p) a)"

definition registered_calls :: "'h active_poller \<Rightarrow> poller_event list \<Rightarrow> ('h \<times> int) list" where
  "registered_calls p evs = map (\<lambda>e. (the (handler_of p (pe_socket e)), pe_events e)) evs"

lemma handler_of_registered:
  assumes "poller_inv regs (w, p)" "(s, a) \<in> set (handlers p)"
  shows "\<exists>h. handler_of p s = Some h \<and> map_of (objects p) a = Some h"
proof -
  have inv: "distinct (map fst (handlers p))" "fst ` set (objects p) = snd ` set (handlers p) \<union> set (poller_handlers p)"
    using assms(1) by (simp_all add: poller_inv_def)
  have "a \<in> snd ` set (handlers p)" using assms(2) by (rule rev_image_eqI) simp
  then have "a \<in> fst ` set (objects p)" unfolding inv(2) by blast
  moreover have "map_of (handlers p) s = Some a" using inv(1) assms(2) by simp
  ultimately show ?thesis by (cases "map_of (objects p) a") (auto simp: handler_of_def map_of_eq_None_iff)
qed

lemma inv_events:
  "poller_inv regs (w, p) \<Longrightarrow> regs (base_poller p) w' = regs (base_poller p) w \<Longrightarrow> length evs = length (poller_events p) \<Longrightarrow>
   poller_inv regs (w', p\<lparr>poller_events := evs\<rparr>)"
  unfolding poller_inv_def by auto

lemma ap_wait_calls:
  assumes "poller_laws lib regs" "poller_inv regs (w, p)"
    and "wait_all lib (base_poller p) t (w, poller_events (rebuild_poller p)) = (Inr n, (w', evs))"
  shows "ap_wait lib (run_handler lib body) t (w, p) =
      thenIO (call_list (run_handler lib body) (registered_calls p (take n evs))) (returnIO n)
        (w', (rebuild_poller p)\<lparr>poller_events := evs\<rparr>) \<and>
    (\<forall>e\<in>set (take n evs). handler_of p (pe_socket e) \<noteq> None) \<and>
    (\<forall>r w2 q. ap_wait lib (run_handler lib body) t (w, p) = (r, (w2, q)) \<longrightarrow>
       poller_inv regs (w2, q) \<and> (\<forall>e. r = Inl e \<longrightarrow> api_error e))"
proof -
  let ?p = "rebuild_poller p" and ?run = "run_handler lib body"
  note rb = rebuilt [OF assms(2)]
  let ?q = "?p\<lparr>poller_events := evs\<rparr>"
  have law: "regs (base_poller p) w' = regs (base_poller p) w" "length evs = length (poller_events ?p)" "n \<le> length evs"
    "\<forall>e\<in>set (take n evs). (pe_socket e, pe_user_data e) \<in> regs (base_poller p) w"
    using wait_all_law [OF assms(1,3)] by simp_all
  have inv: "poller_inv regs (w', ?q)" using inv_events [OF rb(1)] law(1,2) rb(3) by simp
  have reg: "\<forall>e\<in>set (take n evs). (pe_socket e, pe_user_data e) \<in> set (handlers p)"
    using law(4) assms(2) by (simp add: poller_inv_def)
  then have held: "\<forall>e\<in>set (take n (drop 0 (poller_events ?q))). pe_user_data e \<in> set (poller_handlers ?q)"
    using rb(2) by force
  have calls: "event_calls ?q (take n evs) = registered_calls p (take n evs)"
    unfolding event_calls_def registered_calls_def
  proof (rule map_cong [OF refl])
    fix e
    assume "e \<in> set (take n evs)"
    with reg have e: "(pe_socket e, pe_user_data e) \<in> set (handlers p)" by blast
    from handler_of_registered [OF assms(2) e] rb(5) [of "pe_user_data e"] e
    show "(the (map_of (objects ?q) (pe_user_data e)), pe_events e) = (the (handler_of p (pe_socket e)), pe_events e)"
      by force
  qed
  have wait: "ap_wait lib ?run t (w, p) = thenIO (call_handlers ?run n 0) (returnIO n) (w', ?q)"
    using assms(3) by (simp add: ap_wait_def rb(3) Let_def)
  have "call_handlers ?run n 0 (w', ?q) = call_list ?run (registered_calls p (take n evs)) (w', ?q) \<and>
    (\<forall>r w2 q. call_handlers ?run n 0 (w', ?q) = (r, (w2, q)) \<longrightarrow> poller_inv regs (w2, q) \<and> (\<forall>e. r = Inl e \<longrightarrow> api_error e))"
    using call_handlers_list [OF assms(1) inv _ held] law(3) calls by simp
  moreover have "\<forall>e\<in>set (take n evs). handler_of p (pe_socket e) \<noteq> None"
    using handler_of_registered [OF assms(2)] reg by (metis option.distinct(1))
  ultimately show ?thesis
    unfolding wait
    by (auto simp: thenIO_def bindIO_def split: prod.splits sum.splits)
qed

lemma ap_wait_ok:
  assumes "poller_laws lib regs" "poller_inv regs (w, p)" "ap_wait lib (run_handler lib body) t (w, p) = (r, (w2, q))"
  shows "poller_inv regs (w2, q) \<and> (\<forall>e. r = Inl e \<longrightarrow> api_error e)"
proof -
  obtain r1 w1 evs where c: "wait_all lib (base_poller p) t (w, poller_events (rebuild_poller p)) = (r1, (w1, evs))"
    by (metis surj_pair)
  show ?thesis
  proof (cases r1)
    case (Inl e)
    note rb = rebuilt [OF assms(2)] and law = wait_all_law [OF assms(1) c]
    have "poller_inv regs (w1, (rebuild_poller p)\<lparr>poller_events := evs\<rparr>)"
      using inv_events [OF rb(1)] law rb(3) by simp
    then show ?thesis using assms(3) c Inl law by (auto simp: ap_wait_def rb(3) Let_def api_error_def)
  next
    case (Inr n)
    from ap_wait_calls [OF assms(1,2) c [unfolded Inr]] assms(3) show ?thesis by blast
  qed
qed

section \<open>Every state of an active poller\<close>

text \<open>
  A poller from its construction on: operations, waits whose handlers are such bodies, exceptions
  caught or not, and other parts of the program changing the world but not its registrations.
\<close>

inductive ap_reachable for lib body regs where
  ap_new: "active_poller_new lib w = (Inr p, w') \<Longrightarrow> ap_reachable lib body regs (w', p)"
| ap_op: "ap_reachable lib body regs s \<Longrightarrow> exec_op lib x s = (r, s') \<Longrightarrow> ap_reachable lib body regs s'"
| ap_waits: "ap_reachable lib body regs s \<Longrightarrow> ap_wait lib (run_handler lib body) t s = (r, s') \<Longrightarrow> ap_reachable lib body regs s'"
| ap_world: "ap_reachable lib body regs (w, p) \<Longrightarrow> regs (base_poller p) w' = regs (base_poller p) w \<Longrightarrow>
    ap_reachable lib body regs (w', p)"

lemma reachable_inv: "ap_reachable lib body regs s \<Longrightarrow> poller_laws lib regs \<Longrightarrow> poller_inv regs s"
proof (induction rule: ap_reachable.induct)
  case (ap_new w p w')
  then have "fst (zmq_poller_new lib w) \<noteq> 0" "p = active_poller_init (fst (zmq_poller_new lib w))" "w' = snd (zmq_poller_new lib w)"
    by (auto simp: active_poller_new_def poller_new_def bindIO_def throw_errno_eq case_prod_unfold split: if_splits)
  with poller_laws_regs(4) [OF ap_new.prems] show ?case by (simp add: poller_inv_def active_poller_init_def)
next
  case (ap_op s x r s')
  then show ?case using exec_op_ok [of lib regs] by (metis surj_pair)
next
  case (ap_waits s t r s')
  then show ?case using ap_wait_ok [of lib regs] by (metis surj_pair)
next
  case (ap_world w p w')
  then show ?case unfolding poller_inv_def by auto
qed

text \<open>C32: \<open>active_poller_t::wait\<close> calls, in the order of the events libzmq delivers, for each of them exactly
  the handler that is registered for its socket as the wait begins, with the events that occurred; also
  when handlers called before it in the same wait have removed or replaced it.\<close>

theorem active_poller_calls:
  assumes "poller_laws lib regs" "ap_reachable lib body regs (w, p)"
    and "wait_all lib (base_poller p) t (w, poller_events (rebuild_poller p)) = (Inr n, (w', evs))"
  shows "ap_wait lib (run_handler lib body) t (w, p) =
      thenIO (call_list (run_handler lib body) (registered_calls p (take n evs))) (returnIO n)
        (w', (rebuild_poller p)\<lparr>poller_events := evs\<rparr>) \<and>
    (\<forall>e\<in>set (take n evs). handler_of p (pe_socket e) \<noteq> None)"
  using ap_wait_calls [OF assms(1) reachable_inv [OF assms(2,1)] assms(3)] by blast

text \<open>C33: whatever handlers are added, removed and modified, between waits and inside handlers, libzmq never
  delivers an address that is not a live handler: no operation of an active poller uses a destroyed
  handler, a null one or an event past the end of its array; all that is thrown is the errors of
  the interface. And the poller's view of what is registered stays that of libzmq.\<close>

theorem active_poller_safe:
  assumes "poller_laws lib regs" "ap_reachable lib body regs (w, p)"
  shows "(ap_wait lib (run_handler lib body) t (w, p) = (Inl e, s) \<longrightarrow> api_error e) \<and>
    (exec_op lib x (w, p) = (Inl e, s) \<longrightarrow> api_error e) \<and> regs (base_poller p) w = set (handlers p)"
proof -
  note inv = reachable_inv [OF assms(2,1)]
  obtain w' q where s: "s = (w', q)" by (cases s)
  show ?thesis
    using ap_wait_ok [OF assms(1) inv, of body t "Inl e" w' q] exec_op_ok [OF assms(1) inv, of x "Inl e" w' q] inv
    by (auto simp: s poller_inv_def)
qed

text \<open>C34: \<open>active_poller_t::add\<close> fails on an empty handler, on a socket it has already, or when libzmq does,
  and then it has changed nothing of the poller, the new handler being destroyed again.\<close>

theorem active_poller_add:
  assumes "poller_laws lib regs" "ap_reachable lib body regs (w, p)" "ap_add lib s ev h (w, p) = (r, (w', q))"
  shows "(h = None \<longrightarrow> r = Inl Invalid_Argument) \<and>
    (h \<noteq> None \<and> s \<in> fst ` set (handlers p) \<longrightarrow> r = Inl (Zmq_Error EINVAL)) \<and>
    (case r of Inl e \<Rightarrow> q = p | Inr _ \<Rightarrow> \<exists>x. h = Some x \<and> handler_of q s = Some x \<and> need_rebuild q)"
proof -
  note inv = reachable_inv [OF assms(2,1)]
  show ?thesis
  proof (cases r)
    case (Inl e)
    with ap_add_fails [OF inv] assms(3) have "q = p" by blast
    moreover have "r = Inl Invalid_Argument" if "h = None" using that assms(3) by (simp add: ap_add_def)
    moreover have "r = Inl (Zmq_Error EINVAL)" if "h \<noteq> None" "s \<in> fst ` set (handlers p)"
      using that assms(3) by (auto simp only: ap_add_def error_num_def error_t_num_def option.simps if_P prod.case
          split: option.splits) simp_all
    ultimately show ?thesis using Inl by simp
  next
    case (Inr u)
    with assms(3) show ?thesis
      by (auto simp: ap_add_def handler_of_def Let_def split: option.splits if_splits sum.splits prod.splits)
  qed
qed

section \<open>A poller whose sockets are always ready\<close>

text \<open>The world is the list of the registrations; all of them are ready, the oldest first.\<close>

definition ready_event :: "nat \<times> nat \<Rightarrow> poller_event" where
  "ready_event r = \<lparr>pe_socket = fst r, pe_fd = 0, pe_user_data = snd r, pe_events = 1\<rparr>"

definition ready_lib :: "(nat \<times> nat) list draft" where
  "ready_lib = libzmq.extend calm
     \<lparr>zmq_join = \<lambda>s g w. (0, w), zmq_leave = \<lambda>s g w. (0, w), zmq_msg_routing_id = \<lambda>m w. 0,
      zmq_msg_set_routing_id = \<lambda>m r w. (0, w), zmq_msg_group = \<lambda>m w. [], zmq_msg_set_group = \<lambda>m g w. (0, w),
      zmq_proxy_steerable = \<lambda>f b c k w. (0, w), zmq_poller_new = \<lambda>w. (1, []), zmq_poller_destroy = \<lambda>p w. (0, w),
      zmq_poller_size = \<lambda>p w. int (length w), zmq_poller_add = \<lambda>p s u e w. (0, (s, u) # w),
      zmq_poller_modify = \<lambda>p s e w. (0, w), zmq_poller_remove = \<lambda>p s w. (0, filter (\<lambda>x. fst x \<noteq> s) w),
      zmq_poller_wait_all = \<lambda>p n t w.
        (int (length (take n (rev w))), map ready_event (take n (rev w)), w)\<rparr>"

lemma ready_laws: "poller_laws ready_lib (\<lambda>p w. set w)"
  by (auto simp: poller_laws_def ready_lib_def libzmq.defs calm_def ready_event_def dest!: in_set_takeD)

definition two_sockets :: "(nat \<times> nat) list \<times> string active_poller" where
  "two_sockets =
     ([(2, 2), (1, 1)],
      \<lparr>need_rebuild = True, base_poller = 1, handlers = [(2, 2), (1, 1)], poller_events = [], poller_handlers = [],
       objects = [(2, ''B''), (1, ''A'')]\<rparr>)"

lemma ready_ops:
  "active_poller_new ready_lib [] = (Inr (active_poller_init 1), [])"
  "exec_op ready_lib (Add 1 1 (Some ''A'')) ([], active_poller_init 1) =
     (Inr (), ([(1, 1)], (active_poller_init 1)\<lparr>need_rebuild := True, handlers := [(1, 1)], objects := [(1, ''A'')]\<rparr>))"
  "exec_op ready_lib (Add 2 1 (Some ''B''))
     ([(1, 1)], (active_poller_init 1)\<lparr>need_rebuild := True, handlers := [(1, 1)], objects := [(1, ''A'')]\<rparr>) =
     (Inr (), two_sockets)"
  by (simp_all add: active_poller_new_def poller_new_def ap_add_def poller_add_def add_impl_def call_plain ready_lib_def
      libzmq.defs calm_def active_poller_init_def new_address_def two_sockets_def Let_def bindIO_def numeral_2_eq_2)

lemma two_sockets_reachable: "ap_reachable ready_lib body (\<lambda>p w. set w) two_sockets"
  by (rule ap_op [OF ap_op [OF ap_new [OF ready_ops(1)] ready_ops(2)] ready_ops(3)])

lemma two_sockets_wait:
  "wait_all ready_lib 1 0 ([(2, 2), (1, 1)], [blank_event, blank_event]) =
     (Inr 2, ([(2, 2), (1, 1)], [ready_event (1, 1), ready_event (2, 2)]))"
  by (simp add: wait_all_def ready_lib_def libzmq.defs calm_def Let_def)

definition remover :: "string \<Rightarrow> int \<Rightarrow> (nat \<times> nat) list \<Rightarrow> string poller_op list" where
  "remover h ev w = (if h = ''A'' then [Remove 2] else [])"

theorem active_poller_calls_witness:
  "\<exists>s. ap_wait ready_lib (run_handler ready_lib remover) 0 two_sockets =
     thenIO (call_list (run_handler ready_lib remover) [(''A'', 1), (''B'', 1)]) (returnIO 2) s"
proof -
  obtain p where p: "two_sockets = ([(2, 2), (1, 1)], p)" "base_poller p = 1"
    "poller_events (rebuild_poller p) = [blank_event, blank_event]" "handler_of p 1 = Some ''A''" "handler_of p 2 = Some ''B''"
    by (simp add: two_sockets_def rebuild_poller_def resize_events_def handler_of_def numeral_2_eq_2)
  have "ap_reachable ready_lib remover (\<lambda>p w. set w) ([(2, 2), (1, 1)], p)"
    using two_sockets_reachable p(1) by metis
  moreover have "wait_all ready_lib (base_poller p) 0 ([(2, 2), (1, 1)], poller_events (rebuild_poller p)) =
     (Inr 2, ([(2, 2), (1, 1)], [ready_event (1, 1), ready_event (2, 2)]))"
    unfolding p(2,3) by (rule two_sockets_wait)
  ultimately have "ap_wait ready_lib (run_handler ready_lib remover) 0 ([(2, 2), (1, 1)], p) =
      thenIO (call_list (run_handler ready_lib remover) (registered_calls p (take 2 [ready_event (1, 1), ready_event (2, 2)])))
        (returnIO 2) ([(2, 2), (1, 1)], (rebuild_poller p)\<lparr>poller_events := [ready_event (1, 1), ready_event (2, 2)]\<rparr>)"
    using active_poller_calls [OF ready_laws] by blast
  moreover have "registered_calls p (take 2 [ready_event (1, 1), ready_event (2, 2)]) = [(''A'', 1), (''B'', 1)]"
    using p(4,5) by (simp add: registered_calls_def ready_event_def)
  ultimately show ?thesis unfolding p(1) by metis
qed

theorem active_poller_safe_witness:
  "set (fst two_sockets) = set (handlers (snd two_sockets))"
proof -
  obtain w p where s: "two_sockets = (w, p)" by (cases two_sockets)
  then have "ap_reachable ready_lib remover (\<lambda>p w. set w) (w, p)" using two_sockets_reachable by metis
  from active_poller_safe [OF ready_laws this] show ?thesis by (simp add: s)
qed

theorem active_poller_add_witness:
  "fst (ap_add ready_lib 2 1 (Some ''C'') two_sockets) = Inl (Zmq_Error EINVAL)"
proof -
  obtain w p where s: "two_sockets = (w, p)" by (cases two_sockets)
  then have reach: "ap_reachable ready_lib remover (\<lambda>p w. set w) (w, p)" using two_sockets_reachable by metis
  obtain r w' q where r: "ap_add ready_lib 2 1 (Some ''C'') (w, p) = (r, (w', q))" by (metis surj_pair)
  have "2 \<in> fst ` set (handlers p)" using s by (auto simp: two_sockets_def)
  with active_poller_add [OF ready_laws reach r] have "r = Inl (Zmq_Error EINVAL)" by simp
  with r s show ?thesis by simp
qed

section \<open>A wait inside a handler\<close>

text \<open>A handler that removes another one and waits again: the inner wait makes the array of events
  shorter, and the outer one goes on past its end.\<close>

definition waiting_handler :: "string \<Rightarrow> int \<Rightarrow> ((nat \<times> nat) list \<times> string active_poller, unit) io" where
  "waiting_handler h ev =
     (if h = ''A''
      then thenIO (ap_remove ready_lib 2) (bindIO (ap_wait ready_lib (\<lambda>_ _. returnIO ()) 0) (\<lambda>_. returnIO ()))
      else returnIO ())"

theorem nested_wait_overruns:
  "fst (ap_wait ready_lib waiting_handler 0 two_sockets) = Inl Buffer_Overflow"
  by (simp add: ap_wait_def two_sockets_def rebuild_poller_def release_def held_def resize_events_def wait_all_def
      ready_lib_def libzmq.defs calm_def ready_event_def waiting_handler_def ap_remove_def poller_remove_def call_plain
      erase_def thenIO_def bindIO_def Let_def numeral_2_eq_2)

end
