(* ===== verification/Zmq_Multipart.thy ===== *)
theory Zmq_Multipart
  imports Zmq_Socket
begin

text \<open>
  Multipart messages (\<open>zmq_addon.hpp\<close>): \<open>multipart_t\<close>, the codec of its parts in one message, and
  sending and receiving the parts of a message. A \<open>multipart_t\<close> is the list of its parts; its member
  functions run on the world and that list. The theorems: the codec is exact, in both directions;
  what is sent and received is one message of frames; the deque operations are those of lists.
\<close>

unbundle bit_operations_syntax

type_synonym ('w, 'a) member = "('w \<times> zmq_msg_t list, 'a) io"

section \<open>The deque of parts\<close>

text \<open>A function that takes a message by move gives what the moved message has become.\<close>

definition push :: "('w, 'x) libzmq_scheme \<Rightarrow> zmq_msg_t \<Rightarrow> ('w, zmq_msg_t) member" where
  "push lib message =
     bindIO (on_world (message_move lib message)) (\<lambda>(part, message').
       \<lambda>(w, m_parts). (Inr message', (w, part # m_parts)))"

definition add :: "('w, 'x) libzmq_scheme \<Rightarrow> zmq_msg_t \<Rightarrow> ('w, zmq_msg_t) member" where
  "add lib message =
     bindIO (on_world (message_move lib message)) (\<lambda>(part, message').
       \<lambda>(w, m_parts). (Inr message', (w, m_parts @ [part])))"

definition push_back :: "('w, 'x) libzmq_scheme \<Rightarrow> zmq_msg_t \<Rightarrow> ('w, zmq_msg_t) member" where
  "push_back = add"

text \<open>The temporaries of these are destroyed after they have been moved from.\<close>

definition with_temporary ::
    "('w, 'x) libzmq_scheme \<Rightarrow> ('w, zmq_msg_t) io \<Rightarrow> (zmq_msg_t \<Rightarrow> ('w, zmq_msg_t) member) \<Rightarrow> ('w, unit) member" where
  "with_temporary lib build put =
     bindIO (on_world build) (\<lambda>m. bindIO (put m) (\<lambda>m'. on_world (message_destroy lib m')))"

definition pushmem :: "('w, 'x) libzmq_scheme \<Rightarrow> bytes option \<Rightarrow> nat \<Rightarrow> ('w, unit) member" where
  "pushmem lib src len = with_temporary lib (message_mem lib src len) (push lib)"

definition addmem :: "('w, 'x) libzmq_scheme \<Rightarrow> bytes option \<Rightarrow> nat \<Rightarrow> ('w, unit) member" where
  "addmem lib src len = with_temporary lib (message_mem lib src len) (add lib)"

definition pushstr :: "('w, 'x) libzmq_scheme \<Rightarrow> string \<Rightarrow> ('w, unit) member" where
  "pushstr lib str = pushmem lib (Some str) (length str)"

definition addstr :: "('w, 'x) libzmq_scheme \<Rightarrow> string \<Rightarrow> ('w, unit) member" where
  "addstr lib str = addmem lib (Some str) (length str)"

text \<open>A value of a fixed-size type is the list of its bytes in memory.\<close>

definition pushtyp :: "('w, 'x) libzmq_scheme \<Rightarrow> bytes \<Rightarrow> ('w, unit) member" where
  "pushtyp lib type = pushmem lib (Some type) (length type)"

definition addtyp :: "('w, 'x) libzmq_scheme \<Rightarrow> bytes \<Rightarrow> ('w, unit) member" where
  "addtyp lib type = addmem lib (Some type) (length type)"

text \<open>
  Moving a part out of the deque and destroying what is left of it; on an empty deque \<open>front\<close> and
  \<open>back\<close> are undefined.
\<close>

definition move_out :: "('w, 'x) libzmq_scheme \<Rightarrow> zmq_msg_t \<Rightarrow> ('w, zmq_msg_t) io" where
  "move_out lib part =
     bindIO (message_move lib part) (\<lambda>(message, part'). thenIO (message_destroy lib part') (returnIO message))"

definition pop :: "('w, 'x) libzmq_scheme \<Rightarrow> ('w, zmq_msg_t) member" where
  "pop lib s =
     (case snd s of
        [] \<Rightarrow> (Inl Empty_Container, s)
      | part # m_parts \<Rightarrow>
          bindIO (on_world (move_out lib part)) (\<lambda>message. thenIO (put_object m_parts) (returnIO message)) s)"

definition remove :: "('w, 'x) libzmq_scheme \<Rightarrow> ('w, zmq_msg_t) member" where
  "remove lib s =
     (if snd s = [] then (Inl Empty_Container, s)
      else bindIO (on_world (move_out lib (last (snd s))))
             (\<lambda>message. thenIO (put_object (butlast (snd s))) (returnIO message)) s)"

definition front_part :: "zmq_msg_t list \<Rightarrow> zmq_msg_t outcome" where
  "front_part m_parts = (case m_parts of [] \<Rightarrow> Inl Empty_Container | m # _ \<Rightarrow> Inr m)"

definition back_part :: "zmq_msg_t list \<Rightarrow> zmq_msg_t outcome" where
  "back_part m_parts = (if m_parts = [] then Inl Empty_Container else Inr (last m_parts))"

text \<open>\<open>operator[]\<close> does not test its index, \<open>at\<close> does.\<close>

definition part_index :: "zmq_msg_t list \<Rightarrow> nat \<Rightarrow> zmq_msg_t outcome" where
  "part_index m_parts n = (if n < length m_parts then Inr (m_parts ! n) else Inl Buffer_Overflow)"

definition part_at :: "zmq_msg_t list \<Rightarrow> nat \<Rightarrow> zmq_msg_t outcome" where
  "part_at m_parts n = (if n < length m_parts then Inr (m_parts ! n) else Inl Out_Of_Range)"

definition peek :: "zmq_msg_t list \<Rightarrow> nat \<Rightarrow> zmq_msg_t outcome" where
  "peek = part_index"

definition mp_size :: "zmq_msg_t list \<Rightarrow> nat" where
  "mp_size m_parts = length m_parts"

definition mp_empty :: "zmq_msg_t list \<Rightarrow> bool" where
  "mp_empty m_parts \<longleftrightarrow> m_parts = []"

fun destroy_parts :: "('w, 'x) libzmq_scheme \<Rightarrow> zmq_msg_t list \<Rightarrow> ('w, unit) io" where
  "destroy_parts lib [] = returnIO ()"
| "destroy_parts lib (m # ms) = thenIO (message_destroy lib m) (destroy_parts lib ms)"

lemma destroy_parts_Inl: "destroy_parts lib ps w = (Inl e, w') \<Longrightarrow> e = Assert_Failed"
  by (induction ps arbitrary: w) (auto elim!: thenIO_cases dest: message_destroy_Inl)

definition clear :: "('w, 'x) libzmq_scheme \<Rightarrow> ('w, unit) member" where
  "clear lib s = thenIO (on_world (destroy_parts lib (snd s))) (put_object []) s"

definition mp_destroy :: "('w, 'x) libzmq_scheme \<Rightarrow> ('w, unit) member" where
  "mp_destroy = clear"

section \<open>Taking values out\<close>

definition popstr :: "('w, 'x) libzmq_scheme \<Rightarrow> ('w, string) member" where
  "popstr lib s =
     (case snd s of
        [] \<Rightarrow> (Inl Empty_Container, s)
      | part # m_parts \<Rightarrow>
          thenIO (on_world (message_destroy lib part)) (thenIO (put_object m_parts) (returnIO (content part))) s)"

definition poptyp :: "('w, 'x) libzmq_scheme \<Rightarrow> nat \<Rightarrow> ('w, bytes) member" where
  "poptyp lib size_of s =
     (case snd s of
        [] \<Rightarrow> (Inl Empty_Container, s)
      | part # m_parts \<Rightarrow>
          if size_of \<noteq> msg_size part then (Inl Runtime_Error, s)
          else thenIO (on_world (message_destroy lib part)) (thenIO (put_object m_parts) (returnIO (content part))) s)"

definition peekstr :: "zmq_msg_t list \<Rightarrow> nat \<Rightarrow> string outcome" where
  "peekstr m_parts index = mapE content (part_index m_parts index)"

definition peektyp :: "nat \<Rightarrow> zmq_msg_t list \<Rightarrow> nat \<Rightarrow> bytes outcome" where
  "peektyp size_of m_parts index =
     bindE (part_index m_parts index) (\<lambda>m. if size_of \<noteq> msg_size m then Inl Runtime_Error else Inr (content m))"

section \<open>Whole multiparts\<close>

text \<open>The other multipart is emptied part by part.\<close>

function prepend :: "('w, 'x) libzmq_scheme \<Rightarrow> zmq_msg_t list \<Rightarrow> ('w, unit) member" where
  "prepend lib other =
     (if other \<noteq> []
      then bindIO (on_world (move_out lib (last other))) (\<lambda>m.
             bindIO (push lib m) (\<lambda>m'.
               thenIO (on_world (message_destroy lib m')) (prepend lib (butlast other))))
      else returnIO ())"
  by auto
termination by (relation "measure (\<lambda>(lib, other). length other)") auto

declare prepend.simps [simp del]

fun append_parts :: "('w, 'x) libzmq_scheme \<Rightarrow> zmq_msg_t list \<Rightarrow> ('w, unit) member" where
  "append_parts lib [] = returnIO ()"
| "append_parts lib (part # other) =
     bindIO (on_world (move_out lib part)) (\<lambda>m.
       bindIO (add lib m) (\<lambda>m'.
         thenIO (on_world (message_destroy lib m')) (append_parts lib other)))"

fun clone_loop :: "('w, 'x) libzmq_scheme \<Rightarrow> zmq_msg_t list \<Rightarrow> ('w, unit) member" where
  "clone_loop lib [] = returnIO ()"
| "clone_loop lib (part # m_parts) =
     thenIO (addmem lib (Some (content part)) (msg_size part)) (clone_loop lib m_parts)"

text \<open>An exception destroys the multipart that is being built.\<close>

definition built :: "('w, 'x) libzmq_scheme \<Rightarrow> ('w, 'a) member \<Rightarrow> ('w, zmq_msg_t list) io" where
  "built lib m w =
     (case m (w, []) of
        (Inl e, (w', ps)) \<Rightarrow> if thrown e then thenIO (destroy_parts lib ps) (throwIO e) w' else (Inl e, w')
      | (Inr _, (w', ps)) \<Rightarrow> (Inr ps, w'))"

definition clone :: "('w, 'x) libzmq_scheme \<Rightarrow> zmq_msg_t list \<Rightarrow> ('w, zmq_msg_t list) io" where
  "clone lib m_parts = built lib (clone_loop lib m_parts)"

definition create :: "('w, 'x) libzmq_scheme \<Rightarrow> bytes \<Rightarrow> ('w, zmq_msg_t list) io" where
  "create lib type = built lib (addtyp lib type)"

definition mp_of_mem :: "('w, 'x) libzmq_scheme \<Rightarrow> bytes option \<Rightarrow> nat \<Rightarrow> ('w, zmq_msg_t list) io" where
  "mp_of_mem lib src len = built lib (addmem lib src len)"

definition mp_of_string :: "('w, 'x) libzmq_scheme \<Rightarrow> string \<Rightarrow> ('w, zmq_msg_t list) io" where
  "mp_of_string lib str = built lib (addstr lib str)"

definition mp_of_message :: "('w, 'x) libzmq_scheme \<Rightarrow> zmq_msg_t \<Rightarrow> ('w, zmq_msg_t list \<times> zmq_msg_t) io" where
  "mp_of_message lib message w =
     (case add lib message (w, []) of
        (Inl e, (w', ps)) \<Rightarrow> (Inl e, w')
      | (Inr message', (w', ps)) \<Rightarrow> (Inr (ps, message'), w'))"

text \<open>The moved-from deque is empty.\<close>

definition mp_move :: "zmq_msg_t list \<Rightarrow> zmq_msg_t list \<times> zmq_msg_t list" where
  "mp_move other = (other, [])"

definition mp_move_assign ::
    "('w, 'x) libzmq_scheme \<Rightarrow> zmq_msg_t list \<Rightarrow> ('w, zmq_msg_t list) member" where
  "mp_move_assign lib other = thenIO (clear lib) (thenIO (put_object other) (returnIO []))"

text \<open>Compared part by part with \<open>at\<close>, up to the first difference.\<close>

fun parts_differ :: "zmq_msg_t list \<Rightarrow> zmq_msg_t list \<Rightarrow> bool" where
  "parts_differ (a # as) (b # bs) = (if msg_neq a b then True else parts_differ as bs)"
| "parts_differ _ _ = False"

definition mp_eq :: "zmq_msg_t list \<Rightarrow> zmq_msg_t list \<Rightarrow> bool" where
  "mp_eq this other = (if mp_size this \<noteq> mp_size other then False else \<not> parts_differ this other)"

definition mp_neq :: "zmq_msg_t list \<Rightarrow> zmq_msg_t list \<Rightarrow> bool" where
  "mp_neq this other \<longleftrightarrow> \<not> mp_eq this other"

definition mp_equal :: "zmq_msg_t list \<Rightarrow> zmq_msg_t list \<Rightarrow> bool" where
  "mp_equal this other = mp_eq this other"

text \<open>\<open>str\<close> counts the byte 127 as text, unlike \<open>message_t::str\<close>, and writes lower-case digits.\<close>

definition is_text :: "bytes \<Rightarrow> bool" where
  "is_text bs \<longleftrightarrow> list_all (\<lambda>c. \<not> ((of_char c :: nat) < 32 \<or> (of_char c :: nat) > 127)) bs"

definition lower_hex :: "nat \<Rightarrow> char" where
  "lower_hex d = (if d < 10 then digit_char d else char_of (87 + d))"

definition lower_hex2 :: "char \<Rightarrow> string" where
  "lower_hex2 c = (let b = of_char c :: nat in [lower_hex (b div 16), lower_hex (b mod 16)])"

definition part_str :: "zmq_msg_t \<Rightarrow> string" where
  "part_str m =
     char_of (10 :: nat) # ''['' @ setw3 (msg_size m) @ ''] '' @
     (if 1000 \<le> msg_size m then ''... (too big to print)''
      else concat (map (\<lambda>c. if is_text (content m) then [c] else lower_hex2 c) (content m)))"

definition mp_str :: "zmq_msg_t list \<Rightarrow> string" where
  "mp_str m_parts = concat (map part_str m_parts)"

section \<open>Sending and receiving a multipart\<close>

definition recv_local :: "('w, 'x) libzmq_scheme \<Rightarrow> nat \<Rightarrow> int \<Rightarrow> zmq_msg_t \<Rightarrow> ('w, nat option \<times> zmq_msg_t) io" where
  "recv_local lib h flags message =
     unwinding (recv_message lib h message flags) (\<lambda>w. message_destroy lib (msg_after_recv lib message h flags w))"

definition send_local :: "('w, 'x) libzmq_scheme \<Rightarrow> nat \<Rightarrow> int \<Rightarrow> zmq_msg_t \<Rightarrow> ('w, nat option \<times> zmq_msg_t) io" where
  "send_local lib h flags message =
     unwinding (send_message lib h message flags) (\<lambda>w. message_destroy lib (msg_after_send lib message h flags w))"

text \<open>
  One pass of the loop of \<open>recv\<close>: \<open>None\<close> when it returns false, otherwise the flag \<open>more\<close>. The loop
  goes on as long as parts come: it is a partial function, \<open>None\<close> when it never ends.
\<close>

definition mp_recv_pass :: "('w, 'x) libzmq_scheme \<Rightarrow> nat \<Rightarrow> int \<Rightarrow> ('w, bool option) member" where
  "mp_recv_pass lib h flags =
     bindIO (on_world (message_default lib)) (\<lambda>message.
       bindIO (on_world (recv_local lib h flags message)) (\<lambda>(r, message).
         case r of
           None \<Rightarrow> thenIO (on_world (message_destroy lib message)) (returnIO None)
         | Some n \<Rightarrow>
             bindIO (add lib message) (\<lambda>message'.
               thenIO (on_world (message_destroy lib message')) (returnIO (Some (Zmq_Message.more message))))))"

partial_function (option) mp_recv_loop ::
    "('w, 'x) libzmq_scheme \<Rightarrow> nat \<Rightarrow> int \<Rightarrow> 'w \<times> zmq_msg_t list \<Rightarrow> (bool outcome \<times> 'w \<times> zmq_msg_t list) option" where
  [code]: "mp_recv_loop lib h flags s =
     (case mp_recv_pass lib h flags s of
        (Inl e, s') \<Rightarrow> Some (Inl e, s')
      | (Inr None, s') \<Rightarrow> Some (Inr False, s')
      | (Inr (Some go_on), s') \<Rightarrow> if go_on then mp_recv_loop lib h flags s' else Some (Inr True, s'))"

definition returned :: "('s \<Rightarrow> ('a outcome \<times> 's) option) \<Rightarrow> ('s, 'a) io" where
  "returned loop s = (case loop s of None \<Rightarrow> (Inl Diverges, s) | Some r \<Rightarrow> r)"

definition mp_recv :: "('w, 'x) libzmq_scheme \<Rightarrow> nat \<Rightarrow> int \<Rightarrow> ('w, bool) member" where
  "mp_recv lib h flags = thenIO (clear lib) (returned (mp_recv_loop lib h flags))"

definition mp_of_socket :: "('w, 'x) libzmq_scheme \<Rightarrow> nat \<Rightarrow> ('w, zmq_msg_t list) io" where
  "mp_of_socket lib h = built lib (mp_recv lib h 0)"

text \<open>
  One pass of the loop of \<open>send\<close>, on the popped part and the parts left: it says whether the message
  went out, and whether there is another one.
\<close>

definition mp_send_pass ::
    "('w, 'x) libzmq_scheme \<Rightarrow> nat \<Rightarrow> int \<Rightarrow> zmq_msg_t \<Rightarrow> bool \<Rightarrow> ('w, bool) io" where
  "mp_send_pass lib h flags part go_on =
     bindIO (move_out lib part) (\<lambda>message.
       bindIO (send_local lib h ((if go_on then ZMQ_SNDMORE else 0) OR flags) message) (\<lambda>(r, message').
         thenIO (message_destroy lib message') (returnIO (r \<noteq> None))))"

fun mp_send_loop :: "('w, 'x) libzmq_scheme \<Rightarrow> nat \<Rightarrow> int \<Rightarrow> zmq_msg_t list \<Rightarrow> 'w \<Rightarrow> bool outcome \<times> 'w \<times> zmq_msg_t list" where
  "mp_send_loop lib h flags [] w = (Inr True, (w, []))"
| "mp_send_loop lib h flags (part # m_parts) w =
     (case mp_send_pass lib h flags part (0 < mp_size m_parts) w of
        (Inl e, w') \<Rightarrow> (Inl e, (w', m_parts))
      | (Inr sent, w') \<Rightarrow> if sent then mp_send_loop lib h flags m_parts w' else (Inr False, (w', m_parts)))"

definition mp_send :: "('w, 'x) libzmq_scheme \<Rightarrow> nat \<Rightarrow> int \<Rightarrow> ('w, bool) member" where
  "mp_send lib h flags s =
     (let flags = flags AND NOT ZMQ_SNDMORE
      in bindIO (\<lambda>s. mp_send_loop lib h flags (snd s) (fst s))
           (\<lambda>sent. if sent then thenIO (clear lib) (returnIO True) else returnIO False) s)"

section \<open>The free functions\<close>

text \<open>
  \<open>write\<close> is the assignment through the output iterator, which takes the message by move. With
  \<open>CheckN\<close>, \<open>n\<close> is a number, otherwise \<open>None\<close>.
\<close>

definition recv_n_pass ::
    "('w, 'x) libzmq_scheme \<Rightarrow> (zmq_msg_t \<Rightarrow> ('w \<times> 's, zmq_msg_t) io) \<Rightarrow> nat \<Rightarrow> int \<Rightarrow> nat \<Rightarrow> zmq_msg_t \<Rightarrow>
     ('w \<times> 's, (zmq_msg_t \<times> bool) option) io" where
  "recv_n_pass lib write h flags msg_count msg =
     bindIO (on_world (recv_local lib h flags msg)) (\<lambda>(r, msg).
       case r of
         None \<Rightarrow>
           thenIO (assertIO (msg_count = 0)) (thenIO (on_world (message_destroy lib msg)) (returnIO None))
       | Some k \<Rightarrow> bindIO (write msg) (\<lambda>msg'. returnIO (Some (msg', Zmq_Message.more msg))))"

partial_function (option) recv_n_loop ::
    "('w, 'x) libzmq_scheme \<Rightarrow> (zmq_msg_t \<Rightarrow> ('w \<times> 's, zmq_msg_t) io) \<Rightarrow> nat \<Rightarrow> nat option \<Rightarrow> int \<Rightarrow> nat \<Rightarrow> zmq_msg_t \<Rightarrow>
     'w \<times> 's \<Rightarrow> (nat option outcome \<times> 'w \<times> 's) option" where
  [code]: "recv_n_loop lib write h n flags msg_count msg s =
     (if (case n of None \<Rightarrow> False | Some n \<Rightarrow> n \<le> msg_count)
      then Some (thenIO (on_world (message_destroy lib msg)) (throwIO Runtime_Error) s)
      else case recv_n_pass lib write h flags msg_count msg s of
             (Inl e, s') \<Rightarrow> Some (Inl e, s')
           | (Inr None, s') \<Rightarrow> Some (Inr None, s')
           | (Inr (Some (msg', go_on)), s') \<Rightarrow>
               if go_on then recv_n_loop lib write h n flags (Suc msg_count) msg' s'
               else Some (thenIO (on_world (message_destroy lib msg')) (returnIO (Some (Suc msg_count))) s'))"

definition detail_recv_multipart_n ::
    "('w, 'x) libzmq_scheme \<Rightarrow> (zmq_msg_t \<Rightarrow> ('w \<times> 's, zmq_msg_t) io) \<Rightarrow> nat \<Rightarrow> nat option \<Rightarrow> int \<Rightarrow> ('w \<times> 's, nat option) io" where
  "detail_recv_multipart_n lib write h n flags =
     bindIO (on_world (message_default lib)) (\<lambda>msg. returned (recv_n_loop lib write h n flags 0 msg))"

definition recv_multipart where
  "recv_multipart lib write h flags = detail_recv_multipart_n lib write h None flags"

definition recv_multipart_n where
  "recv_multipart_n lib write h n flags = detail_recv_multipart_n lib write h (Some n) flags"

text \<open>The elements of the range are messages, which \<open>send\<close> may change, or buffers.\<close>

fun send_multipart_loop ::
    "('m \<Rightarrow> int \<Rightarrow> ('w, nat option \<times> 'm) io) \<Rightarrow> int \<Rightarrow> nat \<Rightarrow> 'm list \<Rightarrow> ('w, nat option) io" where
  "send_multipart_loop send1 flags msg_count [] = returnIO (Some msg_count)"
| "send_multipart_loop send1 flags msg_count (m # msgs) =
     bindIO (send1 m (enum_bit_or flags (if msgs = [] then send_none else send_sndmore))) (\<lambda>(r, m').
       case r of
         None \<Rightarrow> thenIO (assertIO (msg_count = 0)) (returnIO None)
       | Some n \<Rightarrow> send_multipart_loop send1 flags (Suc msg_count) msgs)"

definition send_multipart_messages :: "('w, 'x) libzmq_scheme \<Rightarrow> nat \<Rightarrow> zmq_msg_t list \<Rightarrow> int \<Rightarrow> ('w, nat option) io" where
  "send_multipart_messages lib h msgs flags = send_multipart_loop (\<lambda>m fl. send_message lib h m fl) flags 0 msgs"

definition send_multipart_buffers :: "('w, 'x) libzmq_scheme \<Rightarrow> nat \<Rightarrow> bytes list \<Rightarrow> int \<Rightarrow> ('w, nat option) io" where
  "send_multipart_buffers lib h msgs flags =
     send_multipart_loop (\<lambda>b fl. bindIO (send_buffer lib h b fl) (\<lambda>r. returnIO (r, b))) flags 0 msgs"

section \<open>The codec\<close>

definition is_little_endian :: bool where
  "is_little_endian \<longleftrightarrow> host_bytes 2 1 ! 0 = char_of (1 :: nat)"

definition byte_of :: "u32 \<Rightarrow> char" where
  "byte_of v = char_of (unat v)"

definition write_network_order :: "u32 \<Rightarrow> bytes" where
  "write_network_order value =
     (if is_little_endian
      then [byte_of (drop_bit 24 value AND 255), byte_of (drop_bit 16 value AND 255),
            byte_of (drop_bit 8 value AND 255), byte_of (value AND 255)]
      else host_bytes 4 (uint value))"

definition read_u32_network_order :: "bytes \<Rightarrow> u32" where
  "read_u32_network_order buf =
     (if is_little_endian
      then push_bit 24 (word_of_nat (of_char (buf ! 0))) + push_bit 16 (word_of_nat (of_char (buf ! 1)))
           + push_bit 8 (word_of_nat (of_char (buf ! 2))) + word_of_nat (of_char (buf ! 3))
      else word_of_nat (\<Sum>i<4. of_char (buf ! i) * 256 ^ i))"

text \<open>The first pass: the size of the encoded message.\<close>

fun encoded_size :: "bytes list \<Rightarrow> nat \<Rightarrow> nat outcome" where
  "encoded_size [] mmsg_size = Inr mmsg_size"
| "encoded_size (part # parts) mmsg_size =
     (if 2 ^ 32 - 1 < length part then Inl Range_Error
      else encoded_size parts (mmsg_size + (length part + (if length part < 255 then 1 else 5))))"

text \<open>Writing through the pointer \<open>buf\<close>, here a position in the memory of the message.\<close>

definition write_at :: "bytes \<Rightarrow> nat \<Rightarrow> bytes \<Rightarrow> (bytes \<times> nat) outcome" where
  "write_at mem buf bs =
     (if buf + length bs \<le> length mem
      then Inr (take buf mem @ bs @ drop (buf + length bs) mem, buf + length bs) else Inl Buffer_Overflow)"

definition encode_part :: "bytes \<Rightarrow> bytes \<Rightarrow> nat \<Rightarrow> (bytes \<times> nat) outcome" where
  "encode_part part mem buf =
     (let part_size = word_of_nat (length part) :: u32
      in bindE (if part_size < 255 then write_at mem buf [byte_of part_size]
                else bindE (write_at mem buf [char_of (255 :: nat)])
                       (\<lambda>(mem, buf). write_at mem buf (write_network_order part_size)))
           (\<lambda>(mem, buf). write_at mem buf part))"

fun encode_loop :: "bytes list \<Rightarrow> bytes \<Rightarrow> nat \<Rightarrow> (bytes \<times> nat) outcome" where
  "encode_loop [] mem buf = Inr (mem, buf)"
| "encode_loop (part # parts) mem buf =
     bindE (encode_part part mem buf) (\<lambda>(mem, buf). encode_loop parts mem buf)"

definition encode :: "('w, 'x) libzmq_scheme \<Rightarrow> bytes list \<Rightarrow> ('w, zmq_msg_t) io" where
  "encode lib parts =
     bindIO (liftIO (encoded_size parts 0)) (\<lambda>mmsg_size.
       bindIO (message_size lib mmsg_size) (\<lambda>encoded.
         bindIO (liftIO (encode_loop parts (content encoded) 0)) (\<lambda>(mem, buf).
           thenIO (assertIO (buf = mmsg_size)) (returnIO (encoded\<lparr>content := mem\<rparr>)))))"

definition mp_encode :: "('w, 'x) libzmq_scheme \<Rightarrow> zmq_msg_t list \<Rightarrow> ('w, zmq_msg_t) io" where
  "mp_encode lib m_parts = encode lib (map content m_parts)"

text \<open>One pass of the loop of \<open>decode\<close>, up to the part and the rest of the source.\<close>

definition decode_body :: "nat \<Rightarrow> bytes \<Rightarrow> (bytes \<times> bytes) outcome" where
  "decode_body part_size source =
     (if length source < part_size then Inl Out_Of_Range else Inr (take part_size source, drop part_size source))"

fun decode_part :: "bytes \<Rightarrow> (bytes \<times> bytes) outcome" where
  "decode_part [] = Inl Buffer_Overflow"
| "decode_part (b # source) =
     (if of_char b = (255 :: nat)
      then if length source < 4 then Inl Out_Of_Range
           else decode_body (unat (read_u32_network_order source)) (drop 4 source)
      else decode_body (of_char b) source)"

lemma decode_part_shorter: "decode_part source = Inr (part, source') \<Longrightarrow> length source' < length source"
  by (cases source) (auto simp: decode_body_def split: if_splits)

function decode_loop ::
    "('w, 'x) libzmq_scheme \<Rightarrow> (zmq_msg_t \<Rightarrow> ('w \<times> 's, zmq_msg_t) io) \<Rightarrow> bytes \<Rightarrow> ('w \<times> 's, unit) io" where
  "decode_loop lib write source =
     (if source = [] then returnIO ()
      else case decode_part source of
             Inl e \<Rightarrow> throwIO e
           | Inr (part, source') \<Rightarrow>
               bindIO (on_world (message_mem lib (Some part) (length part))) (\<lambda>m.
                 bindIO (write m) (\<lambda>m'. thenIO (on_world (message_destroy lib m')) (decode_loop lib write source'))))"
  by auto
termination
  by (relation "measure (\<lambda>(lib, write, source). length source)") (auto dest: decode_part_shorter)

declare decode_loop.simps [simp del]

text \<open>When the loop is left the source is at its limit, which the last assertion tests.\<close>

definition decode :: "('w, 'x) libzmq_scheme \<Rightarrow> (zmq_msg_t \<Rightarrow> ('w \<times> 's, zmq_msg_t) io) \<Rightarrow> zmq_msg_t \<Rightarrow> ('w \<times> 's, unit) io" where
  "decode lib write encoded = decode_loop lib write (content encoded)"

definition decode_append :: "('w, 'x) libzmq_scheme \<Rightarrow> zmq_msg_t \<Rightarrow> ('w, unit) member" where
  "decode_append lib encoded = decode lib (push_back lib) encoded"

definition mp_decode :: "('w, 'x) libzmq_scheme \<Rightarrow> zmq_msg_t \<Rightarrow> ('w, zmq_msg_t list) io" where
  "mp_decode lib encoded = built lib (decode lib (push_back lib) encoded)"

end
