(* ===== verification/Zmq_Values.thy ===== *)
theory Zmq_Values
  imports Zmq_Multipart Zmq_Poller
begin

text \<open>
  The small value types of \<open>zmq.hpp\<close>: the operators of the flag enumerations, whose values are an
  \<open>int\<close> or, for polling events, a \<open>short\<close>; the constructors of \<open>socket_ref\<close>; the free \<open>swap\<close>s and
  the output operators.
\<close>

unbundle bit_operations_syntax

section \<open>Flags\<close>

text \<open>\<open>static_cast\<close> to an enumeration whose underlying type has \<open>n\<close> bits, and the values it has.\<close>

definition enum_cast :: "nat \<Rightarrow> int \<Rightarrow> int" where
  "enum_cast n v = signed_take_bit (n - 1) v"

definition enum_value :: "nat \<Rightarrow> int \<Rightarrow> bool" where
  "enum_value n v \<longleftrightarrow> - (2 ^ (n - 1)) \<le> v \<and> v < 2 ^ (n - 1)"

definition send_flags_or :: "int \<Rightarrow> int \<Rightarrow> int" where
  "send_flags_or a b = enum_cast 32 (enum_bit_or a b)"

definition send_flags_and :: "int \<Rightarrow> int \<Rightarrow> int" where
  "send_flags_and a b = enum_cast 32 (enum_bit_and a b)"

definition send_flags_xor :: "int \<Rightarrow> int \<Rightarrow> int" where
  "send_flags_xor a b = enum_cast 32 (enum_bit_xor a b)"

definition send_flags_not :: "int \<Rightarrow> int" where
  "send_flags_not a = enum_cast 32 (enum_bit_not a)"

definition recv_flags_or :: "int \<Rightarrow> int \<Rightarrow> int" where
  "recv_flags_or a b = enum_cast 32 (enum_bit_or a b)"

definition recv_flags_and :: "int \<Rightarrow> int \<Rightarrow> int" where
  "recv_flags_and a b = enum_cast 32 (enum_bit_and a b)"

definition recv_flags_xor :: "int \<Rightarrow> int \<Rightarrow> int" where
  "recv_flags_xor a b = enum_cast 32 (enum_bit_xor a b)"

definition recv_flags_not :: "int \<Rightarrow> int" where
  "recv_flags_not a = enum_cast 32 (enum_bit_not a)"

definition event_flags_or :: "int \<Rightarrow> int \<Rightarrow> int" where
  "event_flags_or a b = enum_cast 16 (enum_bit_or a b)"

definition event_flags_and :: "int \<Rightarrow> int \<Rightarrow> int" where
  "event_flags_and a b = enum_cast 16 (enum_bit_and a b)"

definition event_flags_xor :: "int \<Rightarrow> int \<Rightarrow> int" where
  "event_flags_xor a b = enum_cast 16 (enum_bit_xor a b)"

definition event_flags_not :: "int \<Rightarrow> int" where
  "event_flags_not a = enum_cast 16 (enum_bit_not a)"

lemmas flag_defs = send_flags_or_def send_flags_and_def send_flags_xor_def send_flags_not_def
  recv_flags_or_def recv_flags_and_def recv_flags_xor_def recv_flags_not_def
  event_flags_or_def event_flags_and_def event_flags_xor_def event_flags_not_def
  enum_bit_or_def enum_bit_and_def enum_bit_xor_def enum_bit_not_def

text \<open>The casts lose nothing: the values of an enumeration are closed under the operators.\<close>

lemma enum_cast_iff: "enum_cast n v = v \<longleftrightarrow> enum_value n v"
  by (simp add: enum_cast_def enum_value_def signed_take_bit_int_eq_self_iff)

lemma enum_cast_0 [simp]: "enum_cast n 0 = 0"
  by (simp add: enum_cast_def)

lemma enum_value_bits: "enum_value n v \<longleftrightarrow> (\<forall>i. bit v (min i (n - 1)) = bit v i)"
  unfolding enum_cast_iff [symmetric] enum_cast_def bit_eq_iff by (simp add: bit_signed_take_bit_iff min.commute)

lemma enum_value_ops:
  "enum_value n a \<Longrightarrow> enum_value n b \<Longrightarrow> enum_value n (a OR b)"
  "enum_value n a \<Longrightarrow> enum_value n b \<Longrightarrow> enum_value n (a AND b)"
  "enum_value n a \<Longrightarrow> enum_value n b \<Longrightarrow> enum_value n (a XOR b)"
  "enum_value n a \<Longrightarrow> enum_value n (NOT a)"
  by (simp_all add: enum_value_bits bit_or_iff bit_and_iff bit_xor_iff bit_not_iff)

text \<open>What \<open>BitmaskType\<close> asks of a flag that is set, cleared and toggled, for the three enumerations.\<close>

definition bitmask_type :: "(int \<Rightarrow> bool) \<Rightarrow> (int \<Rightarrow> int \<Rightarrow> int) \<Rightarrow> (int \<Rightarrow> int \<Rightarrow> int) \<Rightarrow> (int \<Rightarrow> int \<Rightarrow> int) \<Rightarrow> (int \<Rightarrow> int) \<Rightarrow> bool" where
  "bitmask_type V join meet tog compl \<longleftrightarrow>
     (\<forall>x f. V x \<and> V f \<longrightarrow>
        V (join x f) \<and> V (meet x f) \<and> V (tog x f) \<and> V (compl x) \<and>
        meet (join x f) f = f \<and> meet (meet x (compl f)) f = 0 \<and> join (meet x (compl f)) (meet x f) = x \<and>
        tog (tog x f) f = x \<and> compl (compl x) = x)"

lemma flags_algebra:
  fixes x f :: int
  shows "(x OR f) AND f = f" "(x AND NOT f) AND f = 0" "(x AND NOT f) OR (x AND f) = x" "(x XOR f) XOR f = x"
  by (rule bit_eqI; auto simp: bit_or_iff bit_and_iff bit_xor_iff bit_not_iff)+

lemma enum_bitmask:
  "bitmask_type (enum_value n) (\<lambda>a b. enum_cast n (a OR b)) (\<lambda>a b. enum_cast n (a AND b))
     (\<lambda>a b. enum_cast n (a XOR b)) (\<lambda>a. enum_cast n (NOT a))"
  unfolding bitmask_type_def
  by (intro allI impI)
    (simp add: enum_cast_iff [THEN iffD2] enum_value_ops flags_algebra)

theorem flags_bitmask_type:
  "bitmask_type (enum_value 32) send_flags_or send_flags_and send_flags_xor send_flags_not \<and>
   bitmask_type (enum_value 32) recv_flags_or recv_flags_and recv_flags_xor recv_flags_not \<and>
   bitmask_type (enum_value 16) event_flags_or event_flags_and event_flags_xor event_flags_not"
proof -
  have flags: "send_flags_or = (\<lambda>a b. enum_cast 32 (a OR b))" "send_flags_and = (\<lambda>a b. enum_cast 32 (a AND b))"
    "send_flags_xor = (\<lambda>a b. enum_cast 32 (a XOR b))" "send_flags_not = (\<lambda>a. enum_cast 32 (NOT a))"
    "recv_flags_or = (\<lambda>a b. enum_cast 32 (a OR b))" "recv_flags_and = (\<lambda>a b. enum_cast 32 (a AND b))"
    "recv_flags_xor = (\<lambda>a b. enum_cast 32 (a XOR b))" "recv_flags_not = (\<lambda>a. enum_cast 32 (NOT a))"
    "event_flags_or = (\<lambda>a b. enum_cast 16 (a OR b))" "event_flags_and = (\<lambda>a b. enum_cast 16 (a AND b))"
    "event_flags_xor = (\<lambda>a b. enum_cast 16 (a XOR b))" "event_flags_not = (\<lambda>a. enum_cast 16 (NOT a))"
    by (simp_all add: fun_eq_iff flag_defs)
  show ?thesis unfolding flags by (simp only: enum_bitmask)
qed

section \<open>References, swaps and output\<close>

text \<open>A reference is the handle it holds, null for the default constructor and for \<open>nullptr\<close>.\<close>

definition socket_ref_default :: nat where
  "socket_ref_default = 0"

definition socket_ref_nullptr :: nat where
  "socket_ref_nullptr = 0"

definition socket_ref_from_handle :: "nat \<Rightarrow> nat" where
  "socket_ref_from_handle h = h"

definition socket_to_ref :: "socket_t \<Rightarrow> nat" where
  "socket_to_ref s = socket_ref_from_handle (handle s)"

definition swap_messages :: "zmq_msg_t \<Rightarrow> zmq_msg_t \<Rightarrow> zmq_msg_t \<times> zmq_msg_t" where
  "swap_messages a b = message_swap a b"

definition swap_contexts :: "nat \<Rightarrow> nat \<Rightarrow> nat \<times> nat" where
  "swap_contexts a b = context_swap a b"

definition swap_sockets :: "socket_t \<Rightarrow> socket_t \<Rightarrow> socket_t \<times> socket_t" where
  "swap_sockets a b = socket_swap a b"

text \<open>The stream is the text written to it.\<close>

definition message_output :: "string \<Rightarrow> zmq_msg_t \<Rightarrow> string" where
  "message_output os msg = os @ msg_str msg"

definition multipart_output :: "string \<Rightarrow> zmq_msg_t list \<Rightarrow> string" where
  "multipart_output os msg = os @ mp_str msg"

text \<open>References to two sockets, made before the sockets are swapped, name them the other way round
  afterwards; a reference to a socket that was moved from is null.\<close>

lemma refs_after_swap:
  "(case swap_sockets a b of (a', b') \<Rightarrow>
      ref_eq (socket_to_ref a) (socket_to_ref b') \<and> ref_eq (socket_to_ref b) (socket_to_ref a'))"
  "ref_null (socket_to_ref (snd (socket_move a)))" "ref_null socket_ref_default" "ref_eq socket_ref_nullptr socket_ref_default"
  by (simp_all add: swap_sockets_def socket_swap_def ref_eq_def ref_null_def socket_to_ref_def
      socket_ref_from_handle_def socket_move_def no_socket_def socket_ref_default_def socket_ref_nullptr_def)

end
