(* ===== verification/Multipart_Codec.thy ===== *)
theory Multipart_Codec
  imports Zmq_Multipart
begin

text \<open>
  The codec of multipart messages is the one of the ZeroMQ specification 50: a part is its size,
  in one byte or in the byte 255 and four bytes with the high one first, and its bytes. \<open>frames\<close>
  is that specification; the theorems say that \<open>encode\<close> writes it and \<open>decode\<close> accepts exactly it,
  through any output iterator that keeps its contract.
\<close>

unbundle bit_operations_syntax

section \<open>The specification\<close>

definition u32_be :: "nat \<Rightarrow> bytes" where
  "u32_be n = [char_of (n div 2 ^ 24 mod 256), char_of (n div 2 ^ 16 mod 256), char_of (n div 2 ^ 8 mod 256), char_of (n mod 256)]"

inductive frames :: "bytes \<Rightarrow> bytes list \<Rightarrow> bool" where
  frames_end: "frames [] []"
| frames_short: "length part < 255 \<Longrightarrow> frames bs parts \<Longrightarrow> frames (char_of (length part) # part @ bs) (part # parts)"
| frames_long: "length part < 2 ^ 32 \<Longrightarrow> frames bs parts \<Longrightarrow>
    frames (char_of (255 :: nat) # u32_be (length part) @ part @ bs) (part # parts)"

inductive_cases frames_NilE: "frames [] parts"
inductive_cases frames_ConsE: "frames (b # bs) parts"

text \<open>The form \<open>encode\<close> chooses.\<close>

definition part_code :: "bytes \<Rightarrow> bytes" where
  "part_code part =
     (if length part < 255 then [char_of (length part)] else char_of (255 :: nat) # u32_be (length part)) @ part"

lemma frames_code: "\<forall>p\<in>set parts. length p < 2 ^ 32 \<Longrightarrow> frames (concat (map part_code parts)) parts"
  by (induction parts) (auto simp: part_code_def intro: frames.intros)

section \<open>Network order\<close>

lemma little_endian: is_little_endian
  by (simp add: is_little_endian_def host_bytes_def upt_rec)

lemma unat_mask_byte: "unat (v AND 255 :: u32) = unat v mod 256"
proof -
  have "v AND 255 = take_bit 8 v" by (simp add: take_bit_eq_mask mask_eq_exp_minus_1)
  then have "unat (v AND 255) = take_bit 8 (unat v)" by (simp only: unsigned_take_bit_eq)
  then show ?thesis by (simp only: take_bit_eq_mod) simp
qed

lemma unat_drop_bits: "unat (drop_bit k (v :: u32)) = unat v div 2 ^ k"
  unfolding unat_drop_bit_eq by (rule drop_bit_eq_div)

lemma write_u32_be: "write_network_order v = u32_be (unat v)"
  unfolding write_network_order_def byte_of_def u32_be_def unat_mask_byte unat_drop_bits
  using little_endian by simp

lemma length_u32_be [simp]: "length (u32_be n) = 4"
  by (simp add: u32_be_def)

lemma base_256:
  "(n::nat) div 2 ^ 24 * 2 ^ 24 + n div 2 ^ 16 mod 256 * 2 ^ 16 + n div 2 ^ 8 mod 256 * 2 ^ 8 + n mod 256 = n"
proof -
  have aux: "a * 2 ^ 24 + b * 2 ^ 16 + c * 2 ^ 8 + d = m"
    if "m = x * 256 + d" "x = y * 256 + c" "y = a * 256 + b" for a b c d m x y :: nat
    using that by simp
  have d: "n div 2 ^ 24 = n div 256 div 256 div 256" "n div 2 ^ 16 = n div 256 div 256" "n div 2 ^ 8 = n div 256"
    by (simp_all add: div_mult2_eq [symmetric])
  show ?thesis
    unfolding d by (rule aux) (simp_all only: div_mult_mod_eq)
qed

lemma read_u32_be: "n < 2 ^ 32 \<Longrightarrow> unat (read_u32_network_order (u32_be n @ rest)) = n"
proof -
  assume n: "n < 2 ^ 32"
  have d: "n div 2 ^ 24 mod 256 = n div 2 ^ 24" using n by (intro mod_less less_mult_imp_div_less) simp
  have "read_u32_network_order (u32_be n @ rest) =
      (word_of_nat (n div 2 ^ 24 * 2 ^ 24 + n div 2 ^ 16 mod 256 * 2 ^ 16 + n div 2 ^ 8 mod 256 * 2 ^ 8 + n mod 256) :: u32)"
    unfolding read_u32_network_order_def u32_be_def using little_endian d by (simp add: push_bit_eq_mult)
  also have "\<dots> = word_of_nat n" by (simp only: base_256)
  finally show ?thesis using n by (simp add: unsigned_of_nat take_bit_nat_eq_self)
qed

definition read_u32 :: "bytes \<Rightarrow> (u32 \<times> bytes) option" where
  "read_u32 s = (if length s < 4 then None else Some (read_u32_network_order s, drop 4 s))"

interpretation u32_codec: stream_codec "\<lambda>v. True" write_network_order read_u32
proof
  fix v :: u32 and rest
  have "unat (read_u32_network_order (u32_be (unat v) @ rest)) = unat v"
    using unsigned_less [of v] by (intro read_u32_be) simp
  then have "read_u32_network_order (u32_be (unat v) @ rest) = v" by (simp only: unsigned_word_eqI)
  then show "read_u32 (write_network_order v @ rest) = Some (v, rest)"
    by (simp add: read_u32_def write_u32_be)
qed

section \<open>One part\<close>

lemma of_char_less_256: "(of_char c :: nat) < 256"
  by (metis of_char_mod_256 mod_less_divisor zero_less_numeral)

lemma of_char_small: "n < 256 \<Longrightarrow> (of_char (char_of n) :: nat) = n"
  by simp

lemma decode_part_short: "length part < 255 \<Longrightarrow> decode_part (char_of (length part) # part @ rest) = Inr (part, rest)"
  by (simp add: decode_body_def)

lemma decode_part_long:
  assumes "length part < 2 ^ 32"
  shows "decode_part (char_of (255 :: nat) # u32_be (length part) @ part @ rest) = Inr (part, rest)"
  using read_u32_be [OF assms, of "part @ rest"] by (simp add: decode_body_def)

definition read_part :: "bytes \<Rightarrow> (bytes \<times> bytes) option" where
  "read_part s = (case decode_part s of Inl e \<Rightarrow> None | Inr r \<Rightarrow> Some r)"

lemma decode_part_code: "length part < 2 ^ 32 \<Longrightarrow> decode_part (part_code part @ rest) = Inr (part, rest)"
  using decode_part_short [of part rest] decode_part_long [of part rest] by (simp add: part_code_def)

interpretation part_codec: stream_codec "\<lambda>part. length part < 2 ^ 32" part_code read_part
  by unfold_locales (simp add: read_part_def decode_part_code)

lemma digits_256:
  fixes a b c d :: nat
  assumes "a < 256" "b < 256" "c < 256" "d < 256" "n = a * 2 ^ 24 + b * 2 ^ 16 + c * 2 ^ 8 + d"
  shows "n div 2 ^ 24 mod 256 = a \<and> n div 2 ^ 16 mod 256 = b \<and> n div 2 ^ 8 mod 256 = c \<and> n mod 256 = d \<and> n < 2 ^ 32"
proof -
  have n: "n = ((a * 256 + b) * 256 + c) * 256 + d" using assms(5) by simp
  have s: "(x * 256 + y) div 256 = x \<and> (x * 256 + y) mod 256 = y" if "y < 256" for x y :: nat using that by simp
  have d: "n div 2 ^ 24 = n div 256 div 256 div 256" "n div 2 ^ 16 = n div 256 div 256" "n div 2 ^ 8 = n div 256"
    by (simp_all add: div_mult2_eq [symmetric])
  have q: "n div 256 = (a * 256 + b) * 256 + c" "n div 256 div 256 = a * 256 + b" "n div 256 div 256 div 256 = a"
    unfolding n by (simp_all only: s [OF assms(2)] s [OF assms(3)] s [OF assms(4)])
  have "n mod 256 = d" unfolding n by (simp only: s [OF assms(4)])
  moreover have "n div 256 mod 256 = c" "n div 256 div 256 mod 256 = b"
    unfolding q by (simp_all only: s [OF assms(3)] s [OF assms(2)])
  ultimately show ?thesis unfolding d using assms(1-4) q(3) n by simp
qed

lemma u32_read_be:
  assumes "4 \<le> length s"
  shows "u32_be (unat (read_u32_network_order s)) = take 4 s"
proof -
  obtain x y z u t where s: "s = x # y # z # u # t"
    using assms by (cases s; cases "tl s"; cases "tl (tl s)"; cases "tl (tl (tl s))") auto
  define n where "n = of_char x * 2 ^ 24 + of_char y * 2 ^ 16 + of_char z * 2 ^ 8 + (of_char u :: nat)"
  note digits = digits_256 [OF of_char_less_256 of_char_less_256 of_char_less_256 of_char_less_256 n_def]
  have "read_u32_network_order s = (word_of_nat n :: u32)"
    unfolding read_u32_network_order_def s using little_endian by (simp add: push_bit_eq_mult n_def)
  with digits have "unat (read_u32_network_order s) = n" by (simp add: unsigned_of_nat take_bit_nat_eq_self)
  with digits show ?thesis by (simp add: u32_be_def s)
qed

text \<open>A part \<open>decode\<close> takes is a frame, and the rest is what follows it.\<close>

lemma decode_part_split:
  assumes "decode_part bs = Inr (part, rest)"
  shows "\<exists>code. bs = code @ rest \<and> (\<forall>tl ps. frames tl ps \<longrightarrow> frames (code @ tl) (part # ps))"
proof -
  obtain b source where bs: "bs = b # source" using assms by (cases bs) auto
  show ?thesis
  proof (cases "of_char b = (255 :: nat)")
    case False
    then have small: "(of_char b :: nat) < 255" using of_char_less_256 [of b] by linarith
    from False assms bs have "source = part @ rest" "length part = of_char b"
      by (auto simp: decode_body_def split: if_splits)
    moreover from this have "b = char_of (length part)" by simp
    ultimately show ?thesis using bs small frames_short [of part]
      by (intro exI [of _ "b # part"]) simp
  next
    case True
    define n where "n = unat (read_u32_network_order source)"
    from True assms bs have long: "4 \<le> length source" and body: "decode_body n (drop 4 source) = Inr (part, rest)"
      by (auto simp: n_def split: if_splits)
    from body have rest: "drop 4 source = part @ rest" "length part = n"
      by (auto simp: decode_body_def simp del: drop_drop split: if_splits)
    have "n < 2 ^ 32" using unsigned_less [of "read_u32_network_order source"] by (simp add: n_def)
    have "take 4 source = u32_be n"
      using u32_read_be long by (simp add: n_def)
    then have "source = u32_be n @ part @ rest" using rest(1) append_take_drop_id [of 4 source] by simp
    moreover have "b = char_of (255 :: nat)" using True by (metis char_of_char)
    ultimately show ?thesis using bs rest(2) \<open>n < 2 ^ 32\<close> frames_long [of part]
      by (intro exI [of _ "b # u32_be n @ part"]) simp
  qed
qed

lemma decode_part_frame: "decode_part bs = Inr (part, rest) \<Longrightarrow> frames rest parts \<Longrightarrow> frames bs (part # parts)"
  using decode_part_split [of bs part rest] by auto

lemma frames_Nil [simp]: "frames [] parts \<longleftrightarrow> parts = []"
  by (auto intro: frames_end elim: frames_NilE)

lemma frames_decode:
  "frames bs parts \<Longrightarrow> bs \<noteq> [] \<Longrightarrow> \<exists>part rest ps. parts = part # ps \<and> decode_part bs = Inr (part, rest) \<and> frames rest ps"
  by (induction rule: frames.induct) (simp_all only: decode_part_short decode_part_long, auto)

lemma frames_step: "decode_part bs = Inr (part, rest) \<Longrightarrow> frames bs parts \<longleftrightarrow> (\<exists>ps. parts = part # ps \<and> frames rest ps)"
  by (cases "bs = []") (auto dest: frames_decode intro: decode_part_frame)

lemma frames_bad: "decode_part bs = Inl e \<Longrightarrow> bs \<noteq> [] \<Longrightarrow> \<not> frames bs parts"
  by (auto dest: frames_decode)

lemma frames_unique: "frames bs parts \<Longrightarrow> frames bs parts' \<Longrightarrow> parts = parts'"
proof (induction arbitrary: parts' rule: frames.induct)
  case (frames_short part bs parts)
  from frames_step [OF decode_part_short [OF frames_short.hyps(1)]] frames_short.prems
  obtain ps where "parts' = part # ps" "frames bs ps" by metis
  with frames_short.IH show ?case by simp
next
  case (frames_long part bs parts)
  from frames_step [OF decode_part_long [OF frames_long.hyps(1)]] frames_long.prems
  obtain ps where "parts' = part # ps" "frames bs ps" by metis
  with frames_long.IH show ?case by simp
qed simp

text \<open>
  The outcome \<open>r\<close> of decoding \<open>bs\<close>, with the items before and after: the parts of a prefix were
  appended. With success it is the whole; \<open>Out_Of_Range\<close> means that \<open>bs\<close> is no encoding; anything
  else is a failure of libzmq.
\<close>

definition decoded :: "bytes \<Rightarrow> bytes list \<Rightarrow> bytes list \<Rightarrow> 'a outcome \<Rightarrow> bool" where
  "decoded bs before after r \<longleftrightarrow>
     (\<exists>front qs rest. bs = front @ rest \<and> frames front qs \<and> after = before @ qs \<and>
        (case r of
           Inr _ \<Rightarrow> rest = []
         | Inl e \<Rightarrow> e = Out_Of_Range \<and> (\<forall>ps. \<not> frames bs ps) \<or> (\<exists>n. e = Zmq_Error n) \<or> e = Assert_Failed))"

lemma decoded_end: "decoded [] before before (Inr x)"
  by (simp add: decoded_def)

lemma decoded_bad:
  assumes "decode_part bs = Inl e" "bs \<noteq> []"
  shows "decoded bs before before (Inl e)"
proof -
  from assms have "e = Out_Of_Range" by (cases bs) (auto simp: decode_body_def split: if_splits)
  moreover have "\<forall>ps. \<not> frames bs ps" using frames_bad [OF assms] by blast
  ultimately show ?thesis unfolding decoded_def by (intro exI [of _ "[]"] exI [of _ bs]) simp
qed

lemma decoded_fault: "(\<exists>n. e = Zmq_Error n) \<or> e = Assert_Failed \<Longrightarrow> decoded bs before before (Inl e)"
  unfolding decoded_def by (intro exI [of _ "[]"] exI [of _ bs]) auto

lemma decoded_step:
  assumes "decode_part bs = Inr (part, rest)" "decoded rest (before @ [part]) after r"
  shows "decoded bs before after r"
proof -
  from decode_part_split [OF assms(1)] obtain code where code: "bs = code @ rest"
    and on: "\<And>tl ps. frames tl ps \<Longrightarrow> frames (code @ tl) (part # ps)" by blast
  from assms(2) obtain front qs bad where "rest = front @ bad" "frames front qs" "after = before @ part # qs"
    and "case r of Inr _ \<Rightarrow> bad = []
         | Inl e \<Rightarrow> e = Out_Of_Range \<and> (\<forall>ps. \<not> frames rest ps) \<or> (\<exists>n. e = Zmq_Error n) \<or> e = Assert_Failed"
    by (auto simp: decoded_def)
  then show ?thesis
    unfolding decoded_def using code on frames_step [OF assms(1)]
    by (intro exI [of _ "code @ front"] exI [of _ "part # qs"] exI [of _ bad]) (auto split: sum.splits)
qed

section \<open>Decoding through an output iterator\<close>

text \<open>
  What \<open>decode\<close> relies on: an assignment through the iterator appends the message, and leaves the
  items alone when it fails, which it only does by an assertion.
\<close>

locale output_iterator =
  fixes put :: "zmq_msg_t \<Rightarrow> ('w \<times> 's, zmq_msg_t) io"
    and items :: "'s \<Rightarrow> bytes list"
  assumes put_ok: "put m (w, s) = (Inr m', (w', s')) \<Longrightarrow> items s' = items s @ [content m]"
    and put_fail: "put m (w, s) = (Inl e, (w', s')) \<Longrightarrow> e = Assert_Failed \<and> items s' = items s"
begin

lemma put_cases:
  assumes "put m ws = (r, ws')"
  shows "(case r of Inr _ \<Rightarrow> items (snd ws') = items (snd ws) @ [content m]
          | Inl e \<Rightarrow> e = Assert_Failed \<and> items (snd ws') = items (snd ws))"
  using assms put_ok [of m "fst ws" "snd ws" _ "fst ws'" "snd ws'"] put_fail [of m "fst ws" "snd ws" _ "fst ws'" "snd ws'"]
  by (cases r) auto

lemma decode_loop_exact:
  assumes "sized_messages lib"
  shows "decode_loop lib put bs s = (r, s') \<Longrightarrow> decoded bs (items (snd s)) (items (snd s')) r"
proof (induction bs arbitrary: s rule: measure_induct_rule [of length])
  case (less bs)
  note loop = less.prems [unfolded decode_loop.simps [of lib put bs]]
  show ?case
  proof (cases "bs = []")
    case True
    then show ?thesis using loop by (auto simp: decoded_end)
  next
    case False
    show ?thesis
    proof (cases "decode_part bs")
      case (Inl e)
      then show ?thesis using loop False by (auto simp: decoded_bad)
    next
      case (Inr pr)
      then obtain part rest where d: "decode_part bs = Inr (part, rest)" by (cases pr) auto
      let ?mem = "on_world (message_mem lib (Some part) (length part))"
      have mem: "case q of Inr m \<Rightarrow> content m = part | Inl e \<Rightarrow> \<exists>n. e = Zmq_Error n" "snd t = snd s"
        if "?mem s = (q, t)" for q t
        using that builds_Inr [OF builds_message_mem [OF assms]] builds_Inl [OF builds_message_mem [OF assms]]
        by (cases q; auto simp: on_world_def split: prod.splits)+
      have keep: "on_world (message_destroy lib m) t = (q, u) \<Longrightarrow> snd u = snd t"
        "on_world (message_destroy lib m) t = (Inl e, u) \<Longrightarrow> e = Assert_Failed" for q e m t u
        by (auto simp: on_world_def dest: message_destroy_Inl split: prod.splits)
      have "bindIO ?mem (\<lambda>m. bindIO (put m) (\<lambda>m'.
          thenIO (on_world (message_destroy lib m')) (decode_loop lib put rest))) s = (r, s')"
        using loop False d by simp
      then show ?thesis
      proof (elim bindIO_cases thenIO_cases, goal_cases)
        case (1 e)
        with mem [of "Inl e"] show ?thesis by (auto intro: decoded_fault)
      next
        case (2 m t e)
        with mem [of "Inr m"] show ?thesis by (auto dest!: put_cases intro: decoded_fault)
      next
        case (3 m t m' u e)
        with mem [of "Inr m"] have "items (snd s') = items (snd s) @ [part]" "e = Assert_Failed"
          by (auto dest!: put_cases dest: keep)
        with 3 show ?thesis by (auto intro: decoded_step [OF d] decoded_fault)
      next
        case (4 m t m' u x v)
        with mem [of "Inr m"] have "items (snd v) = items (snd s) @ [part]" by (auto dest!: put_cases dest: keep)
        with less.IH [OF decode_part_shorter [OF d] 4(4)] show ?thesis by (auto intro: decoded_step [OF d])
      qed
    qed
  qed
qed

end

lemma add_result:
  "add lib m (w, ps) = (Inr m', (w', ps')) \<Longrightarrow> m' = no_msg \<and> ps' = ps @ [m]"
  "add lib m (w, ps) = (Inl e, (w', ps')) \<Longrightarrow> e = Assert_Failed \<and> ps' = ps"
  unfolding add_def
  by (auto elim!: bindIO_cases simp: on_world_Inr on_world_Inl dest: message_move_result split: prod.splits)

interpretation parts_output: output_iterator "push_back lib" "map content" for lib
  by unfold_locales (auto simp: push_back_def dest: add_result)

section \<open>Encoding\<close>

lemma write_at_ok:
  "length bs \<le> length junk \<Longrightarrow>
   write_at (pre @ junk) (length pre) bs = Inr (pre @ bs @ drop (length bs) junk, length (pre @ bs))"
  by (simp add: write_at_def)

lemma small_word: "n < 2 ^ 32 \<Longrightarrow> unat (word_of_nat n :: u32) = n"
  by (simp add: unsigned_of_nat take_bit_nat_eq_self)

lemma encode_part_ok:
  assumes "length part < 2 ^ 32" "length (part_code part) \<le> length junk"
  shows "encode_part part (pre @ junk) (length pre) =
    Inr (pre @ part_code part @ drop (length (part_code part)) junk, length (pre @ part_code part))"
proof (cases "length part < 255")
  case True
  then have "(word_of_nat (length part) :: u32) < 255" "byte_of (word_of_nat (length part)) = char_of (length part)"
    using small_word [OF assms(1)] by (simp_all add: word_less_nat_alt byte_of_def)
  with True assms(2) show ?thesis
    using write_at_ok [of "[char_of (length part)]" junk pre]
      write_at_ok [of part "drop 1 junk" "pre @ [char_of (length part)]"]
    by (simp add: encode_part_def part_code_def Let_def)
next
  case False
  then have "\<not> (word_of_nat (length part) :: u32) < 255"
    "write_network_order (word_of_nat (length part)) = u32_be (length part)"
    using small_word [OF assms(1)] by (simp_all add: word_less_nat_alt write_u32_be)
  with False assms(2) show ?thesis
    using write_at_ok [of "[char_of (255 :: nat)]" junk pre]
      write_at_ok [of "u32_be (length part)" "drop 1 junk" "pre @ [char_of (255 :: nat)]"]
      write_at_ok [of part "drop 5 junk" "pre @ char_of (255 :: nat) # u32_be (length part)"]
    by (simp add: encode_part_def part_code_def Let_def add.commute)
qed

abbreviation codes :: "bytes list \<Rightarrow> bytes" where
  "codes parts \<equiv> concat (map part_code parts)"

lemma encode_loop_ok:
  "\<forall>p\<in>set parts. length p < 2 ^ 32 \<Longrightarrow> length junk = length (codes parts) \<Longrightarrow>
   encode_loop parts (pre @ junk) (length pre) = Inr (pre @ codes parts, length (pre @ codes parts))"
proof (induction parts arbitrary: pre junk)
  case (Cons part parts)
  have "encode_part part (pre @ junk) (length pre) =
    Inr ((pre @ part_code part) @ drop (length (part_code part)) junk, length (pre @ part_code part))"
    using encode_part_ok [of part junk pre] Cons.prems by simp
  with Cons.IH [of "drop (length (part_code part)) junk" "pre @ part_code part"] Cons.prems show ?case by simp
qed simp

lemma encoded_size_ok:
  "encoded_size parts n =
     (if \<forall>p\<in>set parts. length p < 2 ^ 32 then Inr (n + length (codes parts)) else Inl Range_Error)"
  by (induction parts arbitrary: n) (auto simp: part_code_def)

lemma encode_small:
  assumes "\<forall>p\<in>set parts. length p < 2 ^ 32" "sized_messages lib"
  shows "builds (encode lib parts) (codes parts)"
  unfolding builds_content
proof (rule allI)
  fix w
  show "case encode lib parts w of
          (Inr m, w') \<Rightarrow> content m = codes parts \<and> \<not> more_flag m | (Inl e, w') \<Rightarrow> \<exists>n. e = Zmq_Error n"
    using assms(2)
  proof (rule message_size_cases [where n = "length (codes parts)" and w = w])
    fix m w' assume "message_size lib (length (codes parts)) w = (Inr m, w')" "length (content m) = length (codes parts)" "\<not> more_flag m"
    with encode_loop_ok [of parts "content m" "[]"] assms(1) show ?thesis
      by (simp add: encode_def encoded_size_ok bindIO_def thenIO_def)
  next
    fix k w' assume "message_size lib (length (codes parts)) w = (Inl (Zmq_Error k), w')"
    with assms(1) show ?thesis by (simp add: encode_def encoded_size_ok bindIO_def)
  qed
qed

section \<open>Properties\<close>

text \<open>C26: \<open>encode\<close> writes, for parts below \<open>2\<^sup>3\<^sup>2\<close> bytes, a message that is an encoding of exactly
  these parts: the sizes of its two passes agree, nothing is written outside the message and the last
  assertion holds; only libzmq can make it fail. With a larger part it throws \<open>range_error\<close> before
  it calls libzmq.\<close>

theorem multipart_encode:
  assumes "sized_messages lib"
  shows "if \<forall>p\<in>set parts. length p < 2 ^ 32
         then \<exists>bs. builds (encode lib parts) bs \<and> frames bs parts
         else encode lib parts w = (Inl Range_Error, w)"
  using encode_small [OF _ assms] frames_code by (auto simp: encode_def encoded_size_ok bindIO_def)

theorem multipart_encode_witness:
  "\<exists>bs. builds (encode (calm :: unit libzmq) [''ab'', [], replicate 300 (CHR ''x'')]) bs
        \<and> frames bs [''ab'', [], replicate 300 (CHR ''x'')]"
proof -
  have "sized_messages (calm :: unit libzmq)" by (rule sized_calm)
  from multipart_encode [OF this, of "[''ab'', [], replicate 300 (CHR ''x'')]" "()"] show ?thesis by simp
qed

text \<open>C27: \<open>decode\<close> into a multipart, on any bytes at all, appends the parts of a prefix of them and never
  reads past their end. It succeeds only on an encoding, whose parts are then the ones appended, and
  throws \<open>out_of_range\<close> only on bytes that are none; anything else is a failure of libzmq. A size
  written in five bytes may be less than 255, as the comment in the code says.\<close>

theorem multipart_decode:
  assumes "sized_messages lib" "decode_append lib m (w, ps) = (r, (w', ps'))"
  shows "(\<exists>front rest qs. content m = front @ rest \<and> frames front qs \<and> map content ps' = map content ps @ qs
           \<and> (r = Inr () \<longrightarrow> rest = [])) \<and>
         (r = Inl Out_Of_Range \<longrightarrow> \<not> (\<exists>qs. frames (content m) qs)) \<and>
         (\<forall>e. r = Inl e \<longrightarrow> e \<in> {Out_Of_Range, Assert_Failed} \<or> (\<exists>n. e = Zmq_Error n)) \<and>
         frames (char_of (255 :: nat) # u32_be 2 @ ''ab'') [''ab'']"
proof -
  have "frames (char_of (255 :: nat) # u32_be 2 @ ''ab'') [''ab'']"
  proof -
    have "frames (char_of (255 :: nat) # u32_be (length ''ab'') @ ''ab'' @ []) [''ab'']"
      by (rule frames_long [OF _ frames_end]) simp
    moreover have "length ''ab'' = 2" by simp
    ultimately show ?thesis by (simp only: append_Nil2)
  qed
  moreover have "decoded (content m) (map content ps) (map content ps') r"
    using parts_output.decode_loop_exact [OF assms(1)] assms(2) by (fastforce simp: decode_append_def decode_def)
  moreover from this obtain front qs rest where
    d: "content m = front @ rest" "frames front qs" "map content ps' = map content ps @ qs"
    and r: "case r of Inr _ \<Rightarrow> rest = []
         | Inl e \<Rightarrow> e = Out_Of_Range \<and> (\<forall>ps. \<not> frames (content m) ps) \<or> (\<exists>n. e = Zmq_Error n) \<or> e = Assert_Failed"
    unfolding decoded_def by blast
  moreover from d r have "\<exists>front rest qs. content m = front @ rest \<and> frames front qs \<and>
      map content ps' = map content ps @ qs \<and> (r = Inr () \<longrightarrow> rest = [])"
    by (intro exI [of _ front] exI [of _ rest] exI [of _ qs]) (auto split: sum.splits)
  ultimately show ?thesis by (auto split: sum.splits)
qed

theorem multipart_decode_witness:
  "fst (decode_append (calm :: unit libzmq) \<lparr>content = [char_of (2 :: nat), CHR ''a''], more_flag = False\<rparr> ((), []))
     \<noteq> Inl (Zmq_Error 0) \<and>
   \<not> (\<exists>qs. frames [char_of (2 :: nat), CHR ''a''] qs)"
proof -
  let ?m = "\<lparr>content = [char_of (2 :: nat), CHR ''a''], more_flag = False\<rparr>"
  have run: "decode_append (calm :: unit libzmq) ?m ((), []) = (Inl Out_Of_Range, ((), []))"
    by (simp add: decode_append_def decode_def decode_loop.simps decode_body_def)
  from multipart_decode [OF sized_calm run] run show ?thesis by simp
qed

text \<open>C25: what \<open>encode\<close> wrote, \<open>decode\<close> reads back, part by part: if it returns, it has exactly the
  encoded parts, and it never finds the encoding malformed.\<close>

theorem multipart_codec_roundtrip:
  assumes "sized_messages lib" "encode lib parts w = (Inr m, w1)" "mp_decode lib m w2 = (r, w3)"
  shows "case r of Inr ps \<Rightarrow> map content ps = parts | Inl e \<Rightarrow> e = Assert_Failed \<or> (\<exists>n. e = Zmq_Error n)"
proof -
  have "\<forall>p\<in>set parts. length p < 2 ^ 32"
    using assms(2) by (auto simp: encode_def encoded_size_ok bindIO_def split: if_splits)
  then have frames: "frames (content m) parts"
    using builds_Inr [OF encode_small [OF _ assms(1)] assms(2)] frames_code by simp
  obtain q s where run: "decode_loop lib (push_back lib) (content m) (w2, []) = (q, s)" by (meson surj_pair)
  from parts_output.decode_loop_exact [OF assms(1) this]
  have "decoded (content m) [] (map content (snd s)) q" by simp
  with frames frames_unique have "case q of Inr _ \<Rightarrow> map content (snd s) = parts | Inl e \<Rightarrow> e = Assert_Failed \<or> (\<exists>n. e = Zmq_Error n)"
    by (auto simp: decoded_def split: sum.splits)
  with assms(3) run show ?thesis
    by (auto simp: mp_decode_def built_def decode_def destroy_parts_Inl elim!: thenIO_cases split: prod.splits sum.splits if_splits)
qed

theorem multipart_codec_roundtrip_witness:
  "\<exists>m ps. encode (calm :: unit libzmq) [''ab''] () = (Inr m, ()) \<and> mp_decode (calm :: unit libzmq) m () = (Inr ps, ()) \<and>
     map content ps = [''ab'']"
proof -
  let ?m = "\<lparr>content = [char_of (2 :: nat), CHR ''a'', CHR ''b''], more_flag = False\<rparr>"
  have "write_at [CHR 0x00, CHR 0x00, CHR 0x00] 0 [char_of (2 :: nat)] = Inr ([char_of (2 :: nat), CHR 0x00, CHR 0x00], 1)"
    "write_at [char_of (2 :: nat), CHR 0x00, CHR 0x00] 1 ''ab'' = Inr (content ?m, 3)"
    by (simp_all add: write_at_def)
  then have e1: "encode_loop [''ab''] [CHR 0x00, CHR 0x00, CHR 0x00] 0 = Inr (content ?m, 3)"
    by (simp add: encode_part_def byte_of_def)
  have e2: "message_size (calm :: unit libzmq) 3 () = (Inr \<lparr>content = [CHR 0x00, CHR 0x00, CHR 0x00], more_flag = False\<rparr>, ())"
    by (simp add: message_size_def call_def calm_def eval_nat_numeral)
  have e3: "encoded_size [''ab''] 0 = Inr 3" by (simp add: encoded_size_ok part_code_def)
  have enc: "encode (calm :: unit libzmq) [''ab''] () = (Inr ?m, ())"
    by (simp add: encode_def bindIO_def thenIO_def e1 e2 e3 del: encode_loop.simps encoded_size.simps)
  have dec: "mp_decode (calm :: unit libzmq) ?m () = (Inr [\<lparr>content = ''ab'', more_flag = False\<rparr>], ())"
    by code_simp
  from multipart_codec_roundtrip [OF sized_calm enc dec]
  have "map content [\<lparr>content = ''ab'', more_flag = False\<rparr>] = [''ab'']" by simp
  with enc dec show ?thesis by (intro exI conjI)
qed

end
