(* ===== verification/Multipart_Wire.thy ===== *)
theory Multipart_Wire
  imports Multipart_Codec
begin

text \<open>
  Multipart messages on the wire, and the deque operations of \<open>multipart_t\<close>. The wire is seen as two
  histories of frames, sent and received, a frame being its bytes and whether more of its message
  follow. \<open>wire_laws\<close> is what the code relies on: a successful call adds its frame, and libzmq
  delivers messages atomically, so a call can only block between two messages.
\<close>

unbundle bit_operations_syntax

section \<open>The deque operations are those of lists\<close>

lemma push_result:
  "push lib m (w, ps) = (Inr m', (w', ps')) \<Longrightarrow> m' = no_msg \<and> ps' = m # ps"
  unfolding push_def
  by (auto elim!: bindIO_cases simp: on_world_Inr on_world_Inl dest: message_move_result split: prod.splits)

lemma with_temporary_add:
  assumes "builds c s" "with_temporary lib c (add lib) (w, ps) = (Inr u, (w', ps'))"
  shows "map content ps' = map content ps @ [s]"
  using assms(2) unfolding with_temporary_def
  by (auto elim!: bindIO_cases simp: on_world_Inr dest!: builds_Inr [OF assms(1)] add_result)

lemma with_temporary_push:
  assumes "builds c s" "with_temporary lib c (push lib) (w, ps) = (Inr u, (w', ps'))"
  shows "map content ps' = s # map content ps"
  using assms(2) unfolding with_temporary_def
  by (auto elim!: bindIO_cases simp: on_world_Inr dest!: builds_Inr [OF assms(1)] push_result)

lemma addmem_result:
  "sized_messages lib \<Longrightarrow> addmem lib (Some s) (length s) (w, ps) = (Inr u, (w', ps')) \<Longrightarrow> map content ps' = map content ps @ [s]"
  unfolding addmem_def by (rule with_temporary_add [OF builds_message_mem])

lemma pushmem_result:
  "sized_messages lib \<Longrightarrow> pushmem lib (Some s) (length s) (w, ps) = (Inr u, (w', ps')) \<Longrightarrow> map content ps' = s # map content ps"
  unfolding pushmem_def by (rule with_temporary_push [OF builds_message_mem])

lemma move_out_result: "move_out lib m w = (Inr m', w') \<Longrightarrow> m' = m"
  unfolding move_out_def by (auto elim!: bindIO_cases thenIO_cases dest: message_move_result)

lemma pop_result: "pop lib (w, m # ps) = (Inr m', (w', ps')) \<Longrightarrow> m' = m \<and> ps' = ps"
  unfolding pop_def by (auto elim!: bindIO_cases thenIO_cases simp: on_world_Inr put_object_def dest!: move_out_result)

lemma remove_result: "remove lib (w, ps @ [m]) = (Inr m', (w', ps')) \<Longrightarrow> m' = m \<and> ps' = ps"
  unfolding remove_def by (auto elim!: bindIO_cases thenIO_cases simp: on_world_Inr put_object_def dest!: move_out_result)

lemma append_result: "append_parts lib other (w, ps) = (Inr (), (w', ps')) \<Longrightarrow> ps' = ps @ other"
proof (induction other arbitrary: w ps)
  case (Cons part other)
  from Cons.prems show ?case
    by (auto elim!: bindIO_cases thenIO_cases simp: on_world_Inr dest!: move_out_result add_result Cons.IH)
qed simp

lemma prepend_result: "prepend lib other (w, ps) = (Inr (), (w', ps')) \<Longrightarrow> ps' = other @ ps"
proof (induction other arbitrary: w ps rule: rev_induct)
  case (snoc part other)
  from snoc.prems show ?case
    by (subst (asm) prepend.simps)
       (auto elim!: bindIO_cases thenIO_cases simp: on_world_Inr dest!: move_out_result push_result snoc.IH)
qed (simp add: prepend.simps)

lemma clone_result:
  assumes "sized_messages lib"
  shows "clone_loop lib ps (w, qs) = (Inr (), (w', qs')) \<Longrightarrow> map content qs' = map content qs @ map content ps"
proof (induction ps arbitrary: w qs)
  case (Cons part ps)
  from Cons.prems obtain w1 qs1 where "addmem lib (Some (content part)) (length (content part)) (w, qs) = (Inr (), (w1, qs1))"
    and "clone_loop lib ps (w1, qs1) = (Inr (), (w', qs'))"
    by (auto elim!: thenIO_cases simp: msg_size_def)
  with addmem_result [OF assms] Cons.IH [of w1 qs1] show ?case by (metis append_Cons append_Nil append_assoc list.map(2))
qed simp

lemma parts_differ_iff: "length as = length bs \<Longrightarrow> parts_differ as bs \<longleftrightarrow> map content as \<noteq> map content bs"
  by (induction as bs rule: list_induct2) (auto simp: msg_neq_def msg_eq_content)

lemma mp_eq_iff: "mp_eq as bs \<longleftrightarrow> map content as = map content bs"
  by (auto simp: mp_eq_def mp_size_def parts_differ_iff dest: map_eq_imp_length_eq)

text \<open>The operations of a multipart are those of a deque. When they return, the parts pushed in
  front or added at the back, as memory blocks or by \<open>prepend\<close> and \<open>append\<close>, are there in order,
  \<open>pop\<close> and \<open>remove\<close> give and take away the first and the last, a clone has the same parts, and two
  multiparts are equal exactly when their parts have the same bytes. Taking a value of the wrong size
  throws and changes nothing.\<close>

theorem multipart_deque:
  assumes "sized_messages lib"
  shows "(pushmem lib (Some s) (length s) (w, ps) = (Inr (), (w1, ps1)) \<longrightarrow> map content ps1 = s # map content ps) \<and>
    (addstr lib s (w, ps) = (Inr (), (w2, ps2)) \<longrightarrow> map content ps2 = map content ps @ [s]) \<and>
    (prepend lib other (w, ps) = (Inr (), (w3, ps3)) \<longrightarrow> ps3 = other @ ps) \<and>
    (append_parts lib other (w, ps) = (Inr (), (w4, ps4)) \<longrightarrow> ps4 = ps @ other) \<and>
    (pop lib (w, m # ps) = (Inr m5, (w5, ps5)) \<longrightarrow> m5 = m \<and> ps5 = ps) \<and>
    (remove lib (w, ps @ [m]) = (Inr m6, (w6, ps6)) \<longrightarrow> m6 = m \<and> ps6 = ps) \<and>
    (clone lib ps w = (Inr ps7, w7) \<longrightarrow> map content ps7 = map content ps \<and> mp_eq ps ps7) \<and>
    mp_eq ps other = (map content ps = map content other) \<and>
    (n \<noteq> length (content m) \<longrightarrow> poptyp lib n (w, m # ps) = (Inl Runtime_Error, (w, m # ps)))"
proof -
  have "map content ps7 = map content ps" if "clone lib ps w = (Inr ps7, w7)"
    using that clone_result [OF assms, of ps w "[]" w7 ps7]
    by (auto simp: clone_def built_def elim!: thenIO_cases split: prod.splits sum.splits if_splits)
  moreover have "addstr lib s (w, ps) = (Inr (), (w2, ps2)) \<longrightarrow> map content ps2 = map content ps @ [s]"
    using addmem_result [OF assms] by (auto simp: addstr_def)
  moreover have "n \<noteq> length (content m) \<longrightarrow> poptyp lib n (w, m # ps) = (Inl Runtime_Error, (w, m # ps))"
    by (simp add: poptyp_def msg_size_def)
  ultimately show ?thesis
    by (auto simp only: mp_eq_iff dest: pushmem_result [OF assms] prepend_result append_result pop_result remove_result)
qed

theorem multipart_deque_witness:
  "poptyp (calm :: unit libzmq) 4 ((), [no_msg]) = (Inl Runtime_Error, ((), [no_msg])) \<and>
   (\<exists>ps. prepend (calm :: unit libzmq) [no_msg] ((), []) = (Inr (), ((), ps)) \<and> ps = [no_msg])"
proof -
  have "sized_messages (calm :: unit libzmq)" by (rule sized_calm)
  note use = multipart_deque [OF this, where n = 4 and m = no_msg and w = "()" and ps = "[]" and other = "[no_msg]"]
  have "prepend (calm :: unit libzmq) [no_msg] ((), []) = (Inr (), ((), [no_msg]))" by code_simp
  moreover from this use have "[no_msg] = [no_msg :: zmq_msg_t]" by blast
  ultimately show ?thesis using use by (auto simp: no_msg_def)
qed

section \<open>The wire\<close>

text \<open>The frames of a message; the last says whether more parts will follow.\<close>

definition wire_frames :: "bool \<Rightarrow> bytes list \<Rightarrow> (bytes \<times> bool) list" where
  "wire_frames go_on parts =
     (if parts = [] then [] else map (\<lambda>p. (p, True)) (butlast parts) @ [(last parts, go_on)])"

definition boundary :: "(bytes \<times> bool) list \<Rightarrow> bool" where
  "boundary fs \<longleftrightarrow> fs = [] \<or> \<not> snd (last fs)"

definition quiet :: "('w, 'x) libzmq_scheme \<Rightarrow> ('w \<Rightarrow> 'o) \<Rightarrow> bool" where
  "quiet lib f \<longleftrightarrow>
     (\<forall>w. f (snd (zmq_msg_init lib w)) = f w) \<and>
     (\<forall>n w. f (snd (snd (zmq_msg_init_size lib n w))) = f w) \<and>
     (\<forall>m w. f (snd (zmq_msg_close lib m w)) = f w)"

definition sends_one :: "('w \<Rightarrow> int) \<Rightarrow> ('w \<Rightarrow> (bytes \<times> bool) list) \<Rightarrow> bytes \<Rightarrow> int \<Rightarrow> 'w \<Rightarrow> int \<Rightarrow> 'w \<Rightarrow> bool" where
  "sends_one errno out b flags w n w' \<longleftrightarrow>
     (if 0 \<le> n then out w' = out w @ [(b, flags AND ZMQ_SNDMORE \<noteq> 0)]
      else out w' = out w \<and> (errno w' = EAGAIN \<longrightarrow> boundary (out w)))"

text \<open>
  \<open>pending\<close> is a bound on the parts of the current message still to come: a message has finitely
  many.
\<close>

definition receives_one ::
    "('w \<Rightarrow> int) \<Rightarrow> ('w \<Rightarrow> (bytes \<times> bool) list) \<Rightarrow> ('w \<Rightarrow> nat) \<Rightarrow> 'w \<Rightarrow> int \<Rightarrow> zmq_msg_t \<Rightarrow> 'w \<Rightarrow> bool" where
  "receives_one errno got pending w n m' w' \<longleftrightarrow>
     (if 0 \<le> n then n = int (length (content m')) \<and> got w' = got w @ [(content m', more_flag m')]
        \<and> (more_flag m' \<longrightarrow> pending w' < pending w)
      else got w' = got w \<and> (errno w' = EAGAIN \<longrightarrow> boundary (got w)))"

definition send_laws :: "('w, 'x) libzmq_scheme \<Rightarrow> nat \<Rightarrow> ('w \<Rightarrow> (bytes \<times> bool) list) \<Rightarrow> bool" where
  "send_laws lib h out \<longleftrightarrow>
     quiet lib out \<and>
     (\<forall>m f w n m' w'. zmq_msg_send lib m h f w = (n, m', w') \<longrightarrow> sends_one (zmq_errno lib) out (content m) f w n w') \<and>
     (\<forall>b f w n w'. zmq_send lib h b f w = (n, w') \<longrightarrow> sends_one (zmq_errno lib) out b f w n w')"

definition recv_laws :: "('w, 'x) libzmq_scheme \<Rightarrow> nat \<Rightarrow> ('w \<Rightarrow> (bytes \<times> bool) list) \<Rightarrow> ('w \<Rightarrow> nat) \<Rightarrow> bool" where
  "recv_laws lib h got pending \<longleftrightarrow>
     quiet lib got \<and> quiet lib pending \<and>
     (\<forall>m f w n m' w'. zmq_msg_recv lib m h f w = (n, m', w') \<longrightarrow> receives_one (zmq_errno lib) got pending w n m' w')"

lemma quiet_ops:
  assumes "quiet lib f"
  shows "keeps f (message_default lib)" "keeps f (message_destroy lib m)" "keeps f (message_move lib m)"
    "keeps f (move_out lib m)" "keeps f (destroy_parts lib ps)"
proof -
  show ops: "keeps f (message_default lib)" "keeps f (message_destroy lib m)" "keeps f (message_move lib m)" for m
    using assms by (auto simp: quiet_def message_default_def message_destroy_def message_move_def intro!: keeps_intros)
  show "keeps f (move_out lib m)"
    unfolding move_out_def by (auto intro!: keeps_bind keeps_then keeps_return ops split: prod.split)
  show "keeps f (destroy_parts lib ps)"
    by (induction ps) (simp_all only: destroy_parts.simps keeps_return keeps_then ops)
qed

lemma quiet_add:
  assumes "quiet lib f" "add lib m (w, ps) = (r, (w', ps'))"
  shows "f w' = f w"
  using assms(2) keepsD [OF quiet_ops(3) [OF assms(1), of m]] unfolding add_def
  by (auto elim!: bindIO_cases simp: on_world_def split: prod.splits)

section \<open>Receiving\<close>

abbreviation ordinary :: "fault \<Rightarrow> bool" where
  "ordinary e \<equiv> e = Assert_Failed \<or> (\<exists>n. e = Zmq_Error n)"

lemma recv_message_wire:
  assumes "recv_laws lib h got pending" "recv_message lib h m f w = (r, w1)"
  shows "case r of
      Inl e \<Rightarrow> ordinary e
    | Inr (None, m') \<Rightarrow> got w1 = got w \<and> boundary (got w)
    | Inr (Some k, m') \<Rightarrow> got w1 = got w @ [(content m', more_flag m')] \<and> (more_flag m' \<longrightarrow> pending w1 < pending w)"
proof -
  obtain n m' w' where c: "zmq_msg_recv lib m h f w = (n, m', w')" by (metis prod_cases3)
  with assms(1) have "receives_one (zmq_errno lib) got pending w n m' w'" by (auto simp: recv_laws_def)
  with c assms(2) show ?thesis
    by (auto simp: recv_message_def receives_one_def thenIO_def bindIO_def throw_errno_eq msg_size_def split: if_splits)
qed

lemma recv_local_wire:
  assumes "recv_laws lib h got pending" "recv_local lib h f m w = (r, w1)"
  shows "case r of
      Inl e \<Rightarrow> ordinary e
    | Inr (None, m') \<Rightarrow> got w1 = got w \<and> boundary (got w)
    | Inr (Some k, m') \<Rightarrow> got w1 = got w @ [(content m', more_flag m')] \<and> (more_flag m' \<longrightarrow> pending w1 < pending w)"
proof (cases r)
  case (Inr p)
  with assms(2) have "recv_message lib h m f w = (r, w1)" by (simp add: recv_local_def unwinding_Inr)
  from recv_message_wire [OF assms(1) this] show ?thesis .
next
  case (Inl e)
  with assms(2) show ?thesis
    using recv_message_wire [OF assms(1), of m f w]
    by (auto simp: recv_local_def unwinding_def dest: message_destroy_Inl elim!: thenIO_cases
        split: prod.splits sum.splits if_splits)
qed

text \<open>The calls around a transfer: they keep a quiet observation and only fail by an assertion.\<close>

lemma quiet_calls:
  assumes "quiet lib f"
  shows "on_world (message_default lib) s = (q, s') \<Longrightarrow>
      f (fst s') = f (fst s) \<and> snd s' = snd s \<and> (case q of Inr m \<Rightarrow> m = no_msg | Inl e \<Rightarrow> e = Assert_Failed)"
    and "on_world (message_destroy lib m) s = (p, s') \<Longrightarrow>
      f (fst s') = f (fst s) \<and> snd s' = snd s \<and> (case p of Inr _ \<Rightarrow> True | Inl e \<Rightarrow> e = Assert_Failed)"
    and "add lib m t = (q, t') \<Longrightarrow>
      f (fst t') = f (fst t) \<and> (case q of Inr _ \<Rightarrow> snd t' = snd t @ [m] | Inl e \<Rightarrow> e = Assert_Failed \<and> snd t' = snd t)"
  using keepsD [OF quiet_ops(1) [OF assms]] keepsD [OF quiet_ops(2) [OF assms, of m]]
    quiet_add [OF assms, of m "fst t" "snd t" q "fst t'" "snd t'"]
    add_result [of lib m "fst t" "snd t" _ "fst t'" "snd t'"]
  by (auto simp: on_world_def dest: message_default_result message_destroy_Inl split: prod.splits sum.splits)

lemma recv_pass_wire:
  assumes laws: "recv_laws lib h got pending" and pass: "mp_recv_pass lib h f (w, ps) = (r, (w', ps'))"
  shows "case r of
      Inl e \<Rightarrow> ordinary e
    | Inr None \<Rightarrow> got w' = got w \<and> boundary (got w) \<and> ps' = ps
    | Inr (Some go_on) \<Rightarrow> \<exists>m. ps' = ps @ [m] \<and> got w' = got w @ [(content m, go_on)] \<and> (go_on \<longrightarrow> pending w' < pending w)"
proof -
  have "quiet lib (\<lambda>w. (got w, pending w))" using laws by (simp add: recv_laws_def quiet_def)
  note calls = quiet_calls [OF this]
  from pass show ?thesis
    unfolding mp_recv_pass_def Zmq_Message.more_def
  proof (elim bindIO_cases, goal_cases)
    case (1 e)
    then show ?thesis using calls(1) by fastforce
  next
    case (2 m s e)
    then show ?thesis using recv_local_wire [OF laws, of f m "fst s"] by (auto simp: on_world_def split: prod.splits)
  next
    case (3 m s x t)
    obtain k msg where x: "x = (k, msg)" by (cases x)
    from calls(1) [OF 3(1)] have s: "got (fst s) = got w" "pending (fst s) = pending w" "snd s = ps" by auto
    from 3(2) have local: "recv_local lib h f m (fst s) = (Inr (k, msg), fst t)" "snd t = ps"
      using s by (auto simp: on_world_def x split: prod.splits)
    note recv = recv_local_wire [OF laws local(1)]
    show ?thesis
    proof (cases k)
      case None
      with 3(3) x local recv s show ?thesis
        by (auto elim!: thenIO_cases dest!: calls(2))
    next
      case (Some n)
      with 3(3) x local recv s show ?thesis
        by (auto elim!: thenIO_cases bindIO_cases dest!: calls(2) calls(3))
    qed
  qed
qed

lemma wire_frames_snoc: "wire_frames b (xs @ [x]) = map (\<lambda>p. (p, True)) xs @ [(x, b)]"
  by (simp add: wire_frames_def)

lemma boundary_open: "boundary (fs @ map (\<lambda>p. (p, True)) xs) \<longleftrightarrow> xs = [] \<and> boundary fs"
  by (cases xs rule: rev_cases) (auto simp: boundary_def)

lemma recv_loop_wire:
  assumes "recv_laws lib h got pending" "boundary before"
  shows "got w = before @ map (\<lambda>p. (p, True)) (map content ps) \<Longrightarrow>
    \<exists>r w' ps'. mp_recv_loop lib h f (w, ps) = Some (r, (w', ps')) \<and>
      (case r of
         Inl e \<Rightarrow> ordinary e
       | Inr True \<Rightarrow> ps' \<noteq> [] \<and> got w' = before @ wire_frames False (map content ps')
       | Inr False \<Rightarrow> ps' = [] \<and> got w' = before)"
proof (induction "pending w" arbitrary: w ps rule: less_induct)
  case less
  obtain r w1 ps1 where pass: "mp_recv_pass lib h f (w, ps) = (r, (w1, ps1))" by (metis prod_cases3)
  note res = recv_pass_wire [OF assms(1) pass]
  note loop = mp_recv_loop.simps [of lib h f "(w, ps)"]
  consider (fault) e where "r = Inl e" | (none) "r = Inr None" | (last) "r = Inr (Some False)" | (more) "r = Inr (Some True)"
  proof (cases r)
    case (Inr x)
    then show thesis using that(2-4) by (cases x) (metis (full_types))+
  qed (rule that(1))
  then show ?case
  proof cases
    case fault
    with res pass loop show ?thesis by auto
  next
    case none
    with res less.prems boundary_open [of before "map content ps"] pass loop show ?thesis by auto
  next
    case last
    with res obtain m where "ps1 = ps @ [m]" "got w1 = got w @ [(content m, False)]" by auto
    with last pass loop less.prems show ?thesis by (simp add: wire_frames_snoc)
  next
    case more
    with res obtain m where m: "ps1 = ps @ [m]" "got w1 = got w @ [(content m, True)]" "pending w1 < pending w" by auto
    with less.prems less.hyps [of w1 ps1] more pass loop show ?thesis by simp
  qed
qed

text \<open>C31: \<open>multipart_t::recv\<close> takes exactly one message off the wire. It always returns, since a message
  has finitely many parts: true with the parts of one whole message, in order, in place of the old
  ones; false, with no part and nothing taken, only when the wire would block at the start; or an
  exception of libzmq. Because libzmq delivers atomically it is never left in the middle of a
  message by a call that would block.\<close>

theorem multipart_recv:
  assumes "recv_laws lib h got pending" "boundary (got w)"
    and "mp_recv lib h f (w, ps) = (r, (w', ps'))"
  shows "case r of
      Inr True \<Rightarrow> ps' \<noteq> [] \<and> got w' = got w @ wire_frames False (map content ps')
    | Inr False \<Rightarrow> ps' = [] \<and> got w' = got w
    | Inl e \<Rightarrow> ordinary e"
proof -
  have "quiet lib (\<lambda>w. (got w, pending w))" using assms(1) by (simp add: recv_laws_def quiet_def)
  note keep = keepsD [OF quiet_ops(5) [OF this, of ps]]
  from assms(3) show ?thesis
    unfolding mp_recv_def
  proof (rule thenIO_cases)
    fix e assume "r = Inl e" "clear lib (w, ps) = (Inl e, (w', ps'))"
    then show ?thesis
      by (auto simp: clear_def on_world_def put_object_def elim!: thenIO_cases dest!: destroy_parts_Inl split: prod.splits)
  next
    fix u s assume c: "clear lib (w, ps) = (Inr u, s)" and loop: "returned (mp_recv_loop lib h f) s = (r, (w', ps'))"
    from c keep have "got (fst s) = got w" "snd s = []"
      by (auto simp: clear_def on_world_def put_object_def elim!: thenIO_cases split: prod.splits)
    with recv_loop_wire [OF assms(1) assms(2), of "fst s" "[]" f] loop show ?thesis
      by (cases s) (auto simp: returned_def)
  qed
qed

section \<open>Receiving into an output iterator\<close>

text \<open>
  The outcome of receiving at most \<open>n\<close> parts, with the frames taken and the items before and after: one
  whole message, nothing, the first \<open>n\<close> parts of a longer message, or a failure of libzmq.
\<close>

definition one_message ::
    "(bytes \<times> bool) list \<Rightarrow> bytes list \<Rightarrow> nat option \<Rightarrow> (bytes \<times> bool) list \<Rightarrow> bytes list \<Rightarrow> nat option outcome \<Rightarrow> bool" where
  "one_message before old n after new r \<longleftrightarrow>
     (case r of
        Inl e \<Rightarrow> ordinary e \<or> e = Runtime_Error \<and> (\<exists>ys. new = old @ ys \<and> n = Some (length ys) \<and> after = before @ map (\<lambda>p. (p, True)) ys)
      | Inr None \<Rightarrow> new = old \<and> after = before
      | Inr (Some k) \<Rightarrow> \<exists>ys. new = old @ ys \<and> k = length ys \<and> ys \<noteq> [] \<and> (\<forall>N. n = Some N \<longrightarrow> k \<le> N) \<and>
           after = before @ wire_frames False ys)"

context output_iterator
begin

lemma recv_n_pass_wire:
  assumes laws: "recv_laws lib h got pending"
    and keep: "\<forall>m s q s'. put m s = (q, s') \<longrightarrow> got (fst s') = got (fst s) \<and> pending (fst s') = pending (fst s)"
    and pass: "recv_n_pass lib put h f c msg s = (r, s')"
  shows "case r of
      Inl e \<Rightarrow> ordinary e
    | Inr None \<Rightarrow> got (fst s') = got (fst s) \<and> boundary (got (fst s)) \<and> items (snd s') = items (snd s) \<and> c = 0
    | Inr (Some (msg', go_on)) \<Rightarrow> \<exists>p. items (snd s') = items (snd s) @ [p] \<and> got (fst s') = got (fst s) @ [(p, go_on)] \<and>
        (go_on \<longrightarrow> pending (fst s') < pending (fst s))"
proof -
  have "quiet lib (\<lambda>w. (got w, pending w))" using laws by (simp add: recv_laws_def quiet_def)
  note calls = quiet_calls(2) [OF this]
  from pass show ?thesis
    unfolding recv_n_pass_def Zmq_Message.more_def
  proof (elim bindIO_cases, goal_cases)
    case (1 e)
    then show ?thesis using recv_local_wire [OF laws, of f msg "fst s"] by (auto simp: on_world_def split: prod.splits)
  next
    case (2 x t)
    obtain k m where x: "x = (k, m)" by (cases x)
    from 2(1) have local: "recv_local lib h f msg (fst s) = (Inr (k, m), fst t)" "snd t = snd s"
      by (auto simp: on_world_def x split: prod.splits)
    note recv = recv_local_wire [OF laws local(1)]
    show ?thesis
    proof (cases k)
      case None
      with 2(2) x local recv show ?thesis
        by (cases "c = 0") (auto elim!: thenIO_cases dest!: calls simp: assertIO_def)
    next
      case (Some n)
      have out: "got (fst u) = got (fst t) \<and> pending (fst u) = pending (fst t) \<and>
          (case q of Inr _ \<Rightarrow> items (snd u) = items (snd t) @ [content m] | Inl e \<Rightarrow> e = Assert_Failed)"
        if "put m t = (q, u)" for q u
        using keep [rule_format, OF that] put_cases [OF that] by (auto split: sum.splits)
      with Some 2(2) x local recv show ?thesis
        by (auto elim!: bindIO_cases dest!: out)
    qed
  qed
qed

lemma recv_n_loop_wire:
  assumes laws: "recv_laws lib h got pending" and start: "boundary before"
    and keep: "\<forall>m s q s'. put m s = (q, s') \<longrightarrow> got (fst s') = got (fst s) \<and> pending (fst s') = pending (fst s)"
  shows "got (fst s) = before @ map (\<lambda>p. (p, True)) xs \<Longrightarrow> items (snd s) = old @ xs \<Longrightarrow> length xs = c \<Longrightarrow>
    \<forall>N. n = Some N \<longrightarrow> c \<le> N \<Longrightarrow>
    \<exists>r s'. recv_n_loop lib put h n f c msg s = Some (r, s') \<and> one_message before old n (got (fst s')) (items (snd s')) r"
proof (induction "pending (fst s)" arbitrary: s xs c msg rule: less_induct)
  case less
  have "quiet lib (\<lambda>w. (got w, pending w))" using laws by (simp add: recv_laws_def quiet_def)
  note calls = quiet_calls(2) [OF this]
  note loop = recv_n_loop.simps [of lib put h n f c msg s]
  show ?case
  proof (cases "n = Some c")
    case True
    obtain r :: "nat option outcome" and s' where
      d: "thenIO (on_world (message_destroy lib msg)) (throwIO Runtime_Error) s = (r, s')" by (meson surj_pair)
    then have "r = Inl Runtime_Error \<and> got (fst s') = got (fst s) \<and> snd s' = snd s \<or> r = Inl Assert_Failed"
      by (auto elim!: thenIO_cases dest!: calls)
    with d True loop less.prems show ?thesis by (intro exI [of _ r] exI [of _ s']) (auto simp: one_message_def)
  next
    case False
    then have "\<not> (case n of None \<Rightarrow> False | Some n \<Rightarrow> n \<le> c)" using less.prems(4) by (auto split: option.splits)
    note loop' = loop [simplified if_not_P [OF this]]
    obtain r s1 where pass: "recv_n_pass lib put h f c msg s = (r, s1)" by (meson surj_pair)
    note res = recv_n_pass_wire [OF laws keep pass]
    consider (fault) e where "r = Inl e" | (none) "r = Inr None" | (last) m where "r = Inr (Some (m, False))"
      | (more) m where "r = Inr (Some (m, True))"
    proof (cases r)
      case (Inr x)
      then show thesis using that(2-4) by (cases x) (metis (full_types) surj_pair)+
    qed (rule that(1))
    then show ?thesis
    proof cases
      case fault
      with res pass loop' show ?thesis by (intro exI [of _ "Inl e"] exI [of _ s1]) (auto simp: one_message_def)
    next
      case none
      with res pass loop' less.prems boundary_open [of before xs] show ?thesis
        by (intro exI [of _ "Inr None"] exI [of _ s1]) (auto simp: one_message_def)
    next
      case (last m)
      with res obtain p where p: "items (snd s1) = items (snd s) @ [p]" "got (fst s1) = got (fst s) @ [(p, False)]" by auto
      obtain q s2 where d: "thenIO (on_world (message_destroy lib m)) (returnIO (Some (Suc c))) s1 = (q, s2)"
        by (meson surj_pair)
      then have "q = Inr (Some (Suc c)) \<and> got (fst s2) = got (fst s1) \<and> snd s2 = snd s1 \<or> q = Inl Assert_Failed"
        by (auto elim!: thenIO_cases dest!: calls)
      with d p last pass loop' less.prems False show ?thesis
        by (intro exI [of _ q] exI [of _ s2]) (auto simp: one_message_def wire_frames_snoc le_less intro!: exI [of _ "xs @ [p]"])
    next
      case (more m)
      with res obtain p where p: "items (snd s1) = items (snd s) @ [p]" "got (fst s1) = got (fst s) @ [(p, True)]"
        "pending (fst s1) < pending (fst s)" by auto
      have "\<forall>N. n = Some N \<longrightarrow> Suc c \<le> N" using less.prems(4) False by (metis Suc_leI le_neq_implies_less)
      with less.hyps [OF p(3), of "xs @ [p]" "Suc c" m] p less.prems(1-3) have
        "\<exists>r s'. recv_n_loop lib put h n f (Suc c) m s1 = Some (r, s') \<and> one_message before old n (got (fst s')) (items (snd s')) r"
        by simp
      with more pass loop' show ?thesis by simp
    qed
  qed
qed

end

section \<open>A library with frames\<close>

text \<open>A library that delivers the frames of a queue, and blocks between two messages.\<close>

record frame_world =
  arriving :: "(bytes \<times> bool) list"
  arrived :: "(bytes \<times> bool) list"
  departed :: "(bytes \<times> bool) list"

definition frame_lib :: "frame_world libzmq" where
  "frame_lib = calm
     \<lparr>zmq_errno := \<lambda>w. if boundary (arrived w) \<and> boundary (departed w) then EAGAIN else ETERM,
      zmq_send := \<lambda>h b f w. (int (length b), w\<lparr>departed := departed w @ [(b, f AND ZMQ_SNDMORE \<noteq> 0)]\<rparr>),
      zmq_msg_send := \<lambda>m h f w.
        (int (length (content m)), no_msg, w\<lparr>departed := departed w @ [(content m, f AND ZMQ_SNDMORE \<noteq> 0)]\<rparr>),
      zmq_msg_recv := \<lambda>m h f w.
        (case arriving w of
           [] \<Rightarrow> (- 1, m, w)
         | (b, go_on) # fs \<Rightarrow>
             (int (length b), \<lparr>content = b, more_flag = go_on\<rparr>, w\<lparr>arriving := fs, arrived := arrived w @ [(b, go_on)]\<rparr>))\<rparr>"

lemma frame_recv_laws: "recv_laws frame_lib 1 arrived (\<lambda>w. length (arriving w))"
  by (auto simp: recv_laws_def quiet_def receives_one_def frame_lib_def calm_def EAGAIN_def ETERM_def ZMQ_HAUSNUMERO_def
      split: list.splits if_splits)

lemma frame_send_laws: "send_laws frame_lib 1 departed"
  by (auto simp: send_laws_def quiet_def sends_one_def frame_lib_def calm_def)

text \<open>With \<open>n = 0\<close> the loop throws before its first receive.\<close>

lemma recv_n_zero:
  assumes "quiet lib obs" "recv_multipart_n lib put h 0 f (w, x) = (r, (w', x'))"
  shows "(r = Inl Runtime_Error \<or> (\<exists>e. r = Inl e \<and> ordinary e)) \<and> obs w' = obs w \<and> x' = x"
  using assms(2) unfolding recv_multipart_n_def detail_recv_multipart_n_def
proof (rule bindIO_cases)
  fix e assume "r = Inl e" and default: "on_world (message_default lib) (w, x) = (Inl e, w', x')"
  with quiet_calls(1) [OF assms(1) default] show ?thesis by simp
next
  fix m s assume default: "on_world (message_default lib) (w, x) = (Inr m, s)"
    and loop: "returned (recv_n_loop lib put h (Some 0) f 0 m) s = (r, w', x')"
  from loop have "thenIO (on_world (message_destroy lib m)) (throwIO Runtime_Error) s = (r, w', x')"
    by (simp add: returned_def recv_n_loop.simps)
  then show ?thesis
    using quiet_calls(1) [OF assms(1) default]
    by (auto elim!: thenIO_cases dest!: quiet_calls(2) [OF assms(1)] simp: throwIO_def)
qed

text \<open>C35: \<open>recv_multipart\<close> and \<open>recv_multipart_n\<close> into a multipart append one whole message and return
  the number of its parts; or they return nothing, have taken nothing and appended nothing, because the
  wire would block; or an exception of libzmq or an assertion ends them. \<open>recv_multipart_n\<close> with \<open>n\<close>
  above zero appends a message of at most \<open>n\<close> parts, and throws \<open>runtime_error\<close> only within a longer
  one, of which the first \<open>n\<close> parts have then been taken and appended. With \<open>n\<close> zero it throws
  \<open>runtime_error\<close> before it has looked at the wire, also when that would block.\<close>

theorem multipart_recv_n:
  assumes "recv_laws lib h got pending" "boundary (got w)"
    and "recv_multipart_n lib (push_back lib) h n f (w, ps) = (r, (w', ps'))"
    and "recv_multipart lib (push_back lib) h f (w, ps) = (r2, (w2, ps2))"
  shows "one_message (got w) (map content ps) (Some n) (got w') (map content ps') r \<and>
         one_message (got w) (map content ps) None (got w2) (map content ps2) r2 \<and>
         (n = 0 \<longrightarrow> (r = Inl Runtime_Error \<or> (\<exists>e. r = Inl e \<and> ordinary e)) \<and> got w' = got w \<and> ps' = ps)"
proof -
  have quiet: "quiet lib (\<lambda>w. (got w, pending w))" using assms(1) by (simp add: recv_laws_def quiet_def)
  have keep: "\<forall>m s q s'. push_back lib m s = (q, s') \<longrightarrow> got (fst s') = got (fst s) \<and> pending (fst s') = pending (fst s)"
    using quiet_calls(3) [OF quiet] by (fastforce simp: push_back_def)
  have "one_message (got w) (map content ps) N (got w1) (map content ps1) q"
    if "detail_recv_multipart_n lib (push_back lib) h N f (w, ps) = (q, (w1, ps1))" for N q w1 ps1
    using that unfolding detail_recv_multipart_n_def
  proof (rule bindIO_cases)
    fix e assume "q = Inl e" and default: "on_world (message_default lib) (w, ps) = (Inl e, w1, ps1)"
    with quiet_calls(1) [OF quiet default] show ?thesis by (simp add: one_message_def)
  next
    fix m s assume default: "on_world (message_default lib) (w, ps) = (Inr m, s)"
      and loop: "returned (recv_n_loop lib (push_back lib) h N f 0 m) s = (q, w1, ps1)"
    from quiet_calls(1) [OF quiet default] have "got (fst s) = got w" "snd s = ps" by simp_all
    with parts_output.recv_n_loop_wire [OF assms(1) assms(2) keep, of s "[]" "map content ps" 0 N f m] loop
    show ?thesis by (auto simp: returned_def)
  qed
  moreover have "(r = Inl Runtime_Error \<or> (\<exists>e. r = Inl e \<and> ordinary e)) \<and> got w' = got w \<and> ps' = ps" if "n = 0"
    using recv_n_zero [OF quiet assms(3) [unfolded that]] by simp
  ultimately show ?thesis using assms(3,4) by (auto simp: recv_multipart_n_def recv_multipart_def)
qed

theorem multipart_recv_n_witness:
  "\<exists>w' ps'. recv_multipart_n frame_lib (push_back frame_lib) 1 1 0
       (\<lparr>arriving = [(''a'', True), (''b'', False)], arrived = [], departed = []\<rparr>, []) = (Inl Runtime_Error, (w', ps')) \<and>
     one_message [] [] (Some 1) (arrived w') (map content ps') (Inl Runtime_Error)"
proof -
  let ?w = "\<lparr>arriving = [(''a'', True), (''b'', False)], arrived = [], departed = []\<rparr>"
  have n: "recv_multipart_n frame_lib (push_back frame_lib) 1 1 0 (?w, []) =
    (Inl Runtime_Error, (\<lparr>arriving = [(''b'', False)], arrived = [(''a'', True)], departed = []\<rparr>, [\<lparr>content = ''a'', more_flag = True\<rparr>]))"
    by code_simp
  obtain r w2 ps2 where "recv_multipart frame_lib (push_back frame_lib) 1 0 (?w, []) = (r, (w2, ps2))" by (metis prod_cases3)
  from multipart_recv_n [OF frame_recv_laws _ n this] n show ?thesis by (simp add: boundary_def)
qed

theorem multipart_recv_witness:
  "\<exists>w. mp_recv frame_lib 1 0 (\<lparr>arriving = [(''a'', True), (''b'', False)], arrived = [], departed = []\<rparr>, []) =
     (Inr True, (w, [\<lparr>content = ''a'', more_flag = True\<rparr>, \<lparr>content = ''b'', more_flag = False\<rparr>])) \<and>
   arrived w = wire_frames False [''a'', ''b'']"
proof -
  let ?w = "\<lparr>arriving = [(''a'', True), (''b'', False)], arrived = [], departed = []\<rparr>"
  let ?w' = "\<lparr>arriving = [], arrived = [(''a'', True), (''b'', False)], departed = []\<rparr>"
  have run: "mp_recv frame_lib 1 0 (?w, []) =
      (Inr True, (?w', [\<lparr>content = ''a'', more_flag = True\<rparr>, \<lparr>content = ''b'', more_flag = False\<rparr>]))"
    by code_simp
  from multipart_recv [OF frame_recv_laws _ this] run show ?thesis by (simp add: boundary_def)
qed

section \<open>Sending\<close>

lemma more_bit:
  "(f AND ZMQ_SNDMORE \<noteq> 0) = bit f 1"
  "((if b then ZMQ_SNDMORE else 0) OR (f AND NOT ZMQ_SNDMORE)) AND ZMQ_SNDMORE \<noteq> 0 \<longleftrightarrow> b"
  "enum_bit_or f (if b then send_none else send_sndmore) AND ZMQ_SNDMORE \<noteq> 0 \<longleftrightarrow> bit f 1 \<or> \<not> b"
proof -
  have two: "(g AND 2 \<noteq> 0) = bit g 1" for g :: int using and_exp_eq_0_iff_not_bit [of g 1] by simp
  show "(f AND ZMQ_SNDMORE \<noteq> 0) = bit f 1"
    "((if b then ZMQ_SNDMORE else 0) OR (f AND NOT ZMQ_SNDMORE)) AND ZMQ_SNDMORE \<noteq> 0 \<longleftrightarrow> b"
    "enum_bit_or f (if b then send_none else send_sndmore) AND ZMQ_SNDMORE \<noteq> 0 \<longleftrightarrow> bit f 1 \<or> \<not> b"
    unfolding ZMQ_SNDMORE_def two
    by (auto simp: enum_bit_or_def send_none_def send_sndmore_def ZMQ_SNDMORE_def bit_or_iff bit_and_iff bit_not_iff)
qed

text \<open>The outcome of sending one frame.\<close>

definition sent_result ::
    "('w \<Rightarrow> (bytes \<times> bool) list) \<Rightarrow> bytes \<Rightarrow> int \<Rightarrow> 'w \<Rightarrow> (nat option \<times> 'm) outcome \<Rightarrow> 'w \<Rightarrow> bool" where
  "sent_result out b f w r w' \<longleftrightarrow>
     (case r of
        Inl e \<Rightarrow> ordinary e \<and> out w' = out w
      | Inr (None, _) \<Rightarrow> out w' = out w \<and> boundary (out w)
      | Inr (Some k, _) \<Rightarrow> out w' = out w @ [(b, bit f 1)])"

lemma send_message_wire:
  assumes "send_laws lib h out" "send_message lib h m f w = (r, w1)"
  shows "sent_result out (content m) f w r w1"
proof -
  obtain n m' w' where c: "zmq_msg_send lib m h f w = (n, m', w')" by (metis prod_cases3)
  with assms(1) have "sends_one (zmq_errno lib) out (content m) f w n w'" by (auto simp: send_laws_def)
  with c assms(2) show ?thesis
    by (auto simp: send_message_def nbytes_result_def sends_one_def bindIO_def throw_errno_eq sent_result_def more_bit split: if_splits)
qed

lemma send_buffer_wire:
  assumes "send_laws lib h out" "send_buffer lib h b f w = (r, w1)"
  shows "sent_result out b f w (mapE (\<lambda>k. (k, b)) r) w1"
proof -
  obtain n w' where c: "zmq_send lib h b f w = (n, w')" by (meson surj_pair)
  with assms(1) have "sends_one (zmq_errno lib) out b f w n w'" by (auto simp: send_laws_def)
  with c assms(2) show ?thesis
    by (auto simp: send_buffer_def nbytes_result_def sends_one_def throw_errno_eq sent_result_def more_bit split: if_splits)
qed

lemma send_pass_wire:
  assumes laws: "send_laws lib h out" and pass: "mp_send_pass lib h (f AND NOT ZMQ_SNDMORE) part go_on w = (r, w')"
  shows "case r of
      Inl e \<Rightarrow> ordinary e \<and> (out w' = out w \<or> out w' = out w @ [(content part, go_on)])
    | Inr True \<Rightarrow> out w' = out w @ [(content part, go_on)]
    | Inr False \<Rightarrow> out w' = out w \<and> boundary (out w)"
proof -
  have quiet: "quiet lib out" using laws by (simp add: send_laws_def)
  note keep = keepsD [OF quiet_ops(2) [OF quiet]] and keep_move = keepsD [OF quiet_ops(4) [OF quiet, of part]]
  let ?f = "(if go_on then ZMQ_SNDMORE else 0) OR (f AND NOT ZMQ_SNDMORE)"
  have flag: "bit ?f 1 = go_on" using more_bit(2) [of go_on f] more_bit(1) [of ?f] by blast
  have local: "sent_result out (content m) ?f w1 q w2 \<or> q = Inl Assert_Failed \<and> out w2 = out w1"
    if "send_local lib h ?f m w1 = (q, w2)" for m w1 q w2
  proof -
    obtain q1 w3 where s: "send_message lib h m ?f w1 = (q1, w3)" by (meson surj_pair)
    note wire = send_message_wire [OF laws s]
    from that s wire show ?thesis
      by (auto simp: send_local_def unwinding_def sent_result_def elim!: thenIO_cases
          dest: message_destroy_Inl keep split: sum.splits if_splits)
  qed
  from pass show ?thesis
    unfolding mp_send_pass_def
  proof (elim bindIO_cases, goal_cases)
    case (1 e)
    then have "e = Assert_Failed" by (auto simp: move_out_def elim!: bindIO_cases thenIO_cases dest: message_move_result message_destroy_Inl)
    with 1 keep_move show ?thesis by simp
  next
    case (2 m w1 e)
    with local [OF 2(3)] keep_move [OF 2(1)] show ?thesis by (auto simp: sent_result_def)
  next
    case (3 m w1 x w2)
    obtain k msg where x: "x = (k, msg)" by (cases x)
    have "m = part" using move_out_result [OF 3(1)] .
    moreover have "sent_result out (content m) ?f w1 (Inr (k, msg)) w2" using local [OF 3(2) [unfolded x]] by blast
    ultimately have sent: "case k of None \<Rightarrow> out w2 = out w \<and> boundary (out w) | Some n \<Rightarrow> out w2 = out w @ [(content part, go_on)]"
      unfolding sent_result_def flag using keep_move [OF 3(1)] by (cases k) simp_all
    have "r = Inr (k \<noteq> None) \<and> out w' = out w2 \<or> r = Inl Assert_Failed \<and> out w' = out w2"
      using 3(3) x keep by (auto elim!: thenIO_cases dest: message_destroy_Inl)
    with sent show ?thesis by (cases k) auto
  qed
qed

lemma send_loop_wire:
  assumes laws: "send_laws lib h out" and start: "boundary before"
  shows "out w = before @ map (\<lambda>p. (p, True)) xs \<Longrightarrow>
    mp_send_loop lib h (f AND NOT ZMQ_SNDMORE) (part # ps) w = (r, (w', ps')) \<Longrightarrow>
    case r of
      Inr True \<Rightarrow> ps' = [] \<and> out w' = before @ wire_frames False (xs @ map content (part # ps))
    | Inr False \<Rightarrow> xs = [] \<and> ps' = ps \<and> out w' = before
    | Inl e \<Rightarrow> ordinary e \<and> (\<exists>k. out w' = before @ take k (wire_frames False (xs @ map content (part # ps))))"
proof (induction ps arbitrary: part w xs)
  case Nil
  obtain q w1 where pass: "mp_send_pass lib h (f AND NOT ZMQ_SNDMORE) part False w = (q, w1)" by (meson surj_pair)
  note res = send_pass_wire [OF laws pass] and step = Nil.prems(2) [unfolded mp_send_loop.simps mp_size_def]
  have k: "map (\<lambda>p. (p, True)) xs = take (length xs) (wire_frames False (xs @ [content part]))"
    "map (\<lambda>p. (p, True)) xs @ [(content part, False)] = take (Suc (length xs)) (wire_frames False (xs @ [content part]))"
    by (simp_all add: wire_frames_snoc)
  consider (fault) e where "q = Inl e" | (blocked) "q = Inr False" | (sent) "q = Inr True"
    by (cases q) auto
  then show ?case
  proof cases
    case fault
    with step pass have r: "r = Inl e" "w' = w1" by simp_all
    from res fault Nil.prems(1) k have "ordinary e \<and> (\<exists>n. out w1 = before @ take n (wire_frames False (xs @ [content part])))"
      unfolding fault sum.case by (elim conjE disjE) (simp_all only: k append_assoc, blast+)
    with r show ?thesis by simp
  next
    case blocked
    with step pass have "r = Inr False" "w' = w1" "ps' = []" by simp_all
    with res blocked Nil.prems(1) boundary_open [of before xs] show ?thesis by auto
  next
    case sent
    with step pass have "r = Inr True" "w' = w1" "ps' = []" by simp_all
    with res sent Nil.prems(1) show ?thesis by (simp add: wire_frames_snoc)
  qed
next
  case (Cons p ps)
  obtain q w1 where pass: "mp_send_pass lib h (f AND NOT ZMQ_SNDMORE) part True w = (q, w1)" by (meson surj_pair)
  note res = send_pass_wire [OF laws pass]
  have step: "(case (q, w1) of (Inl e, w') \<Rightarrow> (Inl e, w', p # ps)
      | (Inr sent, w') \<Rightarrow> if sent then mp_send_loop lib h (f AND NOT ZMQ_SNDMORE) (p # ps) w' else (Inr False, w', p # ps)) = (r, (w', ps'))"
    using Cons.prems(2) pass by (simp only: mp_send_loop.simps(2) [of _ _ _ part] mp_size_def) simp
  let ?all = "wire_frames False (xs @ map content (part # p # ps))"
  have k: "map (\<lambda>p. (p, True)) xs = take (length xs) ?all"
    "map (\<lambda>p. (p, True)) xs @ [(content part, True)] = take (Suc (length xs)) ?all"
    by (simp_all add: wire_frames_def butlast_append)
  consider (fault) e where "q = Inl e" | (blocked) "q = Inr False" | (sent) "q = Inr True"
    by (cases q) auto
  then show ?case
  proof cases
    case fault
    with step have r: "r = Inl e" "w' = w1" by simp_all
    from res fault Cons.prems(1) k have "ordinary e \<and> (\<exists>n. out w1 = before @ take n ?all)"
      unfolding fault sum.case by (elim conjE disjE) (simp_all only: k append_assoc, blast+)
    with r show ?thesis by simp
  next
    case blocked
    with step have "r = Inr False" "w' = w1" "ps' = p # ps" by simp_all
    with res blocked Cons.prems(1) boundary_open [of before xs] show ?thesis by auto
  next
    case sent
    with res Cons.prems(1) have "out w1 = before @ map (\<lambda>p. (p, True)) (xs @ [content part])" by simp
    moreover from step sent have "mp_send_loop lib h (f AND NOT ZMQ_SNDMORE) (p # ps) w1 = (r, (w', ps'))" by simp
    ultimately show ?thesis using Cons.IH [of w1 "xs @ [content part]" p] by (simp split: sum.splits bool.splits)
  qed
qed

text \<open>The loop of \<open>send_multipart\<close>, for any way of sending an element.\<close>

lemma send_multipart_wire:
  assumes send: "\<forall>m f w r w'. send1 m f w = (r, w') \<longrightarrow> sent_result out (bytes_of m) f w r w'" and start: "boundary before"
  shows "out w = before @ map (\<lambda>p. (p, True)) xs \<Longrightarrow> length xs = c \<Longrightarrow> msgs \<noteq> [] \<Longrightarrow>
    send_multipart_loop send1 f c msgs w = (r, w') \<Longrightarrow>
    case r of
      Inr (Some n) \<Rightarrow> n = c + length msgs \<and> out w' = before @ wire_frames (bit f 1) (xs @ map bytes_of msgs)
    | Inr None \<Rightarrow> xs = [] \<and> out w' = before
    | Inl e \<Rightarrow> ordinary e \<and> (\<exists>k. out w' = before @ take k (wire_frames (bit f 1) (xs @ map bytes_of msgs)))"
proof (induction msgs arbitrary: w xs c)
  case (Cons m msgs)
  let ?all = "wire_frames (bit f 1) (xs @ map bytes_of (m # msgs))"
  let ?f = "enum_bit_or f (if msgs = [] then send_none else send_sndmore)"
  have flag: "bit ?f 1 = (bit f 1 \<or> msgs \<noteq> [])"
    using more_bit(3) [of f "msgs = []"] more_bit(1) [of ?f] by blast
  obtain q w1 where one: "send1 m ?f w = (q, w1)" by (meson surj_pair)
  with send have res: "sent_result out (bytes_of m) ?f w q w1" by blast
  have k: "map (\<lambda>p. (p, True)) xs = take (length xs) ?all"
    by (simp add: wire_frames_def butlast_append)
  consider (fault) e where "q = Inl e" | (blocked) m' where "q = Inr (None, m')" | (sent) n m' where "q = Inr (Some n, m')"
    by (cases q) (auto, metis option.exhaust)
  then show ?case
  proof cases
    case fault
    with Cons.prems(4) one have "r = Inl e" "w' = w1" by (simp_all add: bindIO_def)
    with res fault Cons.prems(1) k show ?thesis unfolding sent_result_def by auto
  next
    case blocked
    with res boundary_open [of before xs] Cons.prems(1) have "xs = []" "out w1 = before" by (auto simp: sent_result_def)
    with Cons.prems(2,4) one blocked show ?thesis by (auto simp: bindIO_def thenIO_def assertIO_def)
  next
    case sent
    then have out: "out w1 = out w @ [(bytes_of m, bit f 1 \<or> msgs \<noteq> [])]" using res flag by (simp add: sent_result_def)
    have rest: "send_multipart_loop send1 f (Suc c) msgs w1 = (r, w')" using Cons.prems(4) one sent by (simp add: bindIO_def)
    show ?thesis
    proof (cases "msgs = []")
      case True
      with rest out Cons.prems(1) show ?thesis by (auto simp: wire_frames_snoc)
    next
      case False
      with out Cons.prems(1) have "out w1 = before @ map (\<lambda>p. (p, True)) (xs @ [bytes_of m])" by simp
      from Cons.IH [OF this _ False rest] Cons.prems(2) show ?thesis by (simp split: sum.splits option.splits)
    qed
  qed
qed simp

text \<open>C28: \<open>multipart_t::send\<close> puts the parts on the wire as the frames of one message, each but the last
  marked to be followed by more, whatever the flags say, and is empty afterwards. But when the wire
  would block, which can only happen at the first part, it returns false with that part lost: it has
  been popped and is destroyed, and the multipart keeps the others. After an exception a prefix of the
  frames is out.\<close>

theorem multipart_send:
  assumes "send_laws lib h out" "boundary (out w)" "mp_send lib h f (w, ps) = (r, (w', ps'))"
  shows "case r of
      Inr True \<Rightarrow> ps' = [] \<and> out w' = out w @ wire_frames False (map content ps)
    | Inr False \<Rightarrow> ps \<noteq> [] \<and> ps' = tl ps \<and> out w' = out w
    | Inl e \<Rightarrow> ordinary e \<and> (\<exists>k. out w' = out w @ take k (wire_frames False (map content ps)))"
proof -
  have loop: "case q of
      Inr True \<Rightarrow> qs = [] \<and> out w1 = out w @ wire_frames False (map content ps)
    | Inr False \<Rightarrow> ps \<noteq> [] \<and> qs = tl ps \<and> out w1 = out w
    | Inl e \<Rightarrow> ordinary e \<and> (\<exists>k. out w1 = out w @ take k (wire_frames False (map content ps)))"
    if "mp_send_loop lib h (f AND NOT ZMQ_SNDMORE) ps w = (q, (w1, qs))" for q w1 qs
  proof (cases ps)
    case Nil
    with that show ?thesis by (auto simp: wire_frames_def)
  next
    case (Cons p rest)
    with that send_loop_wire [OF assms(1,2), of w "[]" f p rest q w1 qs] show ?thesis by (simp split: sum.splits bool.splits)
  qed
  from assms(3) show ?thesis
    unfolding mp_send_def Let_def
  proof (elim bindIO_cases, goal_cases)
    case (1 e)
    with loop [of "Inl e" w' ps'] show ?thesis by simp
  next
    case (2 sent s)
    obtain w1 qs where s: "s = (w1, qs)" by (cases s)
    with 2(1) have run: "mp_send_loop lib h (f AND NOT ZMQ_SNDMORE) ps w = (Inr sent, (w1, qs))" by simp
    with loop have "sent \<Longrightarrow> qs = []" by fastforce
    then have "r = Inr sent \<and> w' = w1 \<and> ps' = qs"
      using 2(2) s by (cases sent) (auto simp: clear_def on_world_def put_object_def elim!: thenIO_cases)
    with loop [OF run] show ?thesis by (simp split: bool.splits)
  qed
qed

theorem multipart_send_witness:
  "\<exists>w. mp_send frame_lib 1 ZMQ_SNDMORE (\<lparr>arriving = [], arrived = [], departed = []\<rparr>,
       [\<lparr>content = ''a'', more_flag = False\<rparr>, \<lparr>content = ''b'', more_flag = False\<rparr>]) = (Inr True, (w, [])) \<and>
     departed w = [(''a'', True), (''b'', False)]"
proof -
  let ?w = "\<lparr>arriving = [], arrived = [], departed = []\<rparr>"
  let ?w' = "\<lparr>arriving = [], arrived = [], departed = [(''a'', True), (''b'', False)]\<rparr>"
  let ?ps = "[\<lparr>content = ''a'', more_flag = False\<rparr>, \<lparr>content = ''b'', more_flag = False\<rparr>]"
  have run: "mp_send frame_lib 1 ZMQ_SNDMORE (?w, ?ps) = (Inr True, (?w', []))" by code_simp
  from multipart_send [OF frame_send_laws _ run] run show ?thesis by (simp add: boundary_def)
qed

text \<open>C29: \<open>send_multipart\<close>, of messages or of buffers, puts the elements on the wire as the frames of one
  message, the last marked to be followed by more exactly when the flags ask for it, and returns their
  number. It returns nothing, and has sent nothing, when the wire would block; and an exception of
  libzmq leaves a beginning of these frames on the wire.\<close>

theorem multipart_send_range:
  assumes "send_laws lib h out" "boundary (out w)" "msgs \<noteq> []" "bufs \<noteq> []"
    and "send_multipart_messages lib h msgs f w = (r, w1)" "send_multipart_buffers lib h bufs f w = (r2, w2)"
  shows "(case r of
      Inr (Some n) \<Rightarrow> n = length msgs \<and> out w1 = out w @ wire_frames (bit f 1) (map content msgs)
    | Inr None \<Rightarrow> out w1 = out w
    | Inl e \<Rightarrow> ordinary e \<and> (\<exists>k. out w1 = out w @ take k (wire_frames (bit f 1) (map content msgs)))) \<and>
    (case r2 of
      Inr (Some n) \<Rightarrow> n = length bufs \<and> out w2 = out w @ wire_frames (bit f 1) bufs
    | Inr None \<Rightarrow> out w2 = out w
    | Inl e \<Rightarrow> ordinary e \<and> (\<exists>k. out w2 = out w @ take k (wire_frames (bit f 1) bufs)))"
proof -
  have buffers: "\<forall>b f w r w'. bindIO (send_buffer lib h b f) (\<lambda>r. returnIO (r, b)) w = (r, w') \<longrightarrow> sent_result out b f w r w'"
    using send_buffer_wire [OF assms(1)] by (fastforce elim!: bindIO_cases)
  have messages: "\<forall>m f w r w'. send_message lib h m f w = (r, w') \<longrightarrow> sent_result out (content m) f w r w'"
    using send_message_wire [OF assms(1)] by blast
  show ?thesis
    using send_multipart_wire [where bytes_of = content and xs = "[]" and c = 0, OF messages assms(2) _ _ assms(3), of w f r w1]
      send_multipart_wire [where bytes_of = "\<lambda>b. b" and xs = "[]" and c = 0, OF buffers assms(2) _ _ assms(4), of w f r2 w2]
      assms(5,6)
    by (simp add: send_multipart_messages_def send_multipart_buffers_def split: sum.splits option.splits)
qed

theorem multipart_send_range_witness:
  "departed (snd (send_multipart_buffers frame_lib 1 [''a'', ''b''] send_none \<lparr>arriving = [], arrived = [], departed = []\<rparr>)) =
     [(''a'', True), (''b'', False)]"
proof -
  let ?w = "\<lparr>arriving = [], arrived = [], departed = []\<rparr>"
  let ?w' = "\<lparr>arriving = [], arrived = [], departed = [(''a'', True), (''b'', False)]\<rparr>"
  have b: "send_multipart_buffers frame_lib 1 [''a'', ''b''] send_none ?w = (Inr (Some 2), ?w')" by code_simp
  have m: "send_multipart_messages frame_lib 1 [no_msg] send_none ?w = (Inr (Some 1), \<lparr>arriving = [], arrived = [], departed = [([], False)]\<rparr>)"
    by code_simp
  from multipart_send_range [OF frame_send_laws _ _ _ m b] b show ?thesis
    by (simp add: boundary_def wire_frames_def send_none_def)
qed

end
