(* ===== verification/Host.thy ===== *)
theory Host
  imports Zmq_Socket Cpu_Monitor Memory_Monitor Disk_Monitor
begin

text \<open>
  What the programs use besides libzmq: the files of \<open>/proc\<close> and the output of \<open>df\<close> as a read
  finds them, the objects shared with the monitor threads as a load finds them, the log, the
  standard output and sleeping. They are parameters, in a record that extends the one of libzmq.
\<close>

record 'w host = "'w libzmq" +
  read_cpuinfo :: "'w \<Rightarrow> string option \<times> 'w"
  read_meminfo :: "'w \<Rightarrow> string option \<times> 'w"
  run_df :: "'w \<Rightarrow> string option \<times> 'w"
  cpu_object :: "'w \<Rightarrow> CPUPrivate \<times> 'w"
  disk_object :: "'w \<Rightarrow> DiskPrivate \<times> 'w"
  log_line :: "string \<Rightarrow> 'w \<Rightarrow> 'w"
  print_out :: "string \<Rightarrow> 'w \<Rightarrow> 'w"
  sleep_ms :: "nat \<Rightarrow> 'w \<Rightarrow> 'w"

definition readIO :: "('w \<Rightarrow> 'a \<times> 'w) \<Rightarrow> ('w, 'a) io" where
  "readIO f w = (case f w of (x, w') \<Rightarrow> (Inr x, w'))"

definition doIO :: "('w \<Rightarrow> 'w) \<Rightarrow> ('w, unit) io" where
  "doIO f w = (Inr (), f w)"

lemma readIO_eq [io_simps]: "f w = (x, w') \<Longrightarrow> readIO f w = (Inr x, w')"
  by (simp add: readIO_def)

lemma doIO_eq [simp, io_simps]: "doIO f w = (Inr (), f w)"
  by (simp add: doIO_def)

lemma keeps_read [keeps_intros]: "(\<And>w. f (snd (g w)) = f w) \<Longrightarrow> keeps f (readIO g)"
  by (auto simp: keeps_def readIO_def split: prod.splits) (metis snd_conv)

lemma keeps_do [keeps_intros]: "(\<And>w. f (g w) = f w) \<Longrightarrow> keeps f (doIO g)"
  by (simp add: keeps_def)

section \<open>The monitors with their reads\<close>

text \<open>
  The file is opened only while nothing is cached. The atomics of a thread's object are loaded one
  at a time, the thread going on in between: the usage for the test, and again for the result unless
  the test returns 0; one rate of the disks and then the other, here the read rate first.
\<close>

definition model_name_io :: "('w, 'x) host_scheme \<Rightarrow> CPUMonitor \<Rightarrow> ('w, string \<times> CPUMonitor) io" where
  "model_name_io host mon =
     (if modelName mon = []
      then bindIO (readIO (read_cpuinfo host)) (\<lambda>file. liftIO (GetCPUModelName file mon))
      else liftIO (GetCPUModelName None mon))"

definition base_clock_io :: "('w, 'x) host_scheme \<Rightarrow> CPUMonitor \<Rightarrow> ('w, string \<times> CPUMonitor) io" where
  "base_clock_io host mon =
     (if baseClock mon = []
      then bindIO (readIO (read_cpuinfo host)) (\<lambda>file. liftIO (GetCpuBaseClock file mon))
      else liftIO (GetCpuBaseClock None mon))"

definition cpu_usage_io :: "('w, 'x) host_scheme \<Rightarrow> ('w, string) io" where
  "cpu_usage_io host =
     bindIO (readIO (cpu_object host)) (\<lambda>s.
     if dless (cpuUsage s) (DFin 0) then returnIO (GetCpuUsage (cpuUsage s) (cpuUsage s))
     else bindIO (readIO (cpu_object host)) (\<lambda>t. returnIO (GetCpuUsage (cpuUsage s) (cpuUsage t))))"

definition memory_total_io :: "('w, 'x) host_scheme \<Rightarrow> ('w, u64) io" where
  "memory_total_io host = bindIO (readIO (read_meminfo host)) (\<lambda>file. liftIO (GetMemoryTotal file))"

definition memory_unused_io :: "('w, 'x) host_scheme \<Rightarrow> ('w, u64) io" where
  "memory_unused_io host = bindIO (readIO (read_meminfo host)) (\<lambda>file. liftIO (GetMemoryUnused file))"

definition memory_usage_io :: "('w, 'x) host_scheme \<Rightarrow> ('w, string) io" where
  "memory_usage_io host = bindIO (readIO (read_meminfo host)) (\<lambda>file. liftIO (GetMemoryUsage file))"

definition disks_io :: "('w, 'x) host_scheme \<Rightarrow> ('w, DFStructInfo list) io" where
  "disks_io host = bindIO (readIO (run_df host)) (\<lambda>out. liftIO (GetDisksByDf out))"

definition disk_total_io :: "('w, 'x) host_scheme \<Rightarrow> ('w, double) io" where
  "disk_total_io host = bindIO (readIO (run_df host)) (\<lambda>out. liftIO (DiskTotalByDf out))"

definition disk_used_io :: "('w, 'x) host_scheme \<Rightarrow> ('w, double) io" where
  "disk_used_io host = bindIO (readIO (run_df host)) (\<lambda>out. liftIO (DiskUsedByDf out))"

definition disk_rates_io :: "('w, 'x) host_scheme \<Rightarrow> ('w, double \<times> double) io" where
  "disk_rates_io host =
     bindIO (readIO (disk_object host)) (\<lambda>s.
     bindIO (readIO (disk_object host)) (\<lambda>t.
     liftIO (GetDiskIO s t)))"

lemmas monitor_io_defs = model_name_io_def base_clock_io_def cpu_usage_io_def memory_total_io_def
  memory_unused_io_def memory_usage_io_def disks_io_def disk_total_io_def disk_used_io_def disk_rates_io_def

text \<open>A host whose reads always find the same.\<close>

definition still :: "string \<Rightarrow> string \<Rightarrow> string \<Rightarrow> 'w host" where
  "still cpuinfo meminfo df =
     libzmq.extend calm
       \<lparr>read_cpuinfo = \<lambda>w. (Some cpuinfo, w), read_meminfo = \<lambda>w. (Some meminfo, w), run_df = \<lambda>w. (Some df, w),
        cpu_object = \<lambda>w. (CPUPrivate_init, w), disk_object = \<lambda>w. (DiskPrivate_init, w),
        log_line = \<lambda>s w. w, print_out = \<lambda>s w. w, sleep_ms = \<lambda>n w. w\<rparr>"

end
