(* ===== verification/Monitor_Json.thy ===== *)
theory Monitor_Json
  imports Host Json_Value
begin

text \<open>
  \<open>Monitor\<close> (\<open>Monitor.cpp\<close>): the JSON values it builds from what the monitors return, in the order
  the code builds them. The theorems say which members the replies have, for any number of disks,
  and what becomes of them when there is none.
\<close>

section \<open>The requests\<close>

text \<open>A pair in braces: \<open>{"key", value}\<close>.\<close>

definition pair :: "string \<Rightarrow> json \<Rightarrow> json" where
  "pair key v = braces [JString key, v]"

definition GetCPU :: "('w, 'x) host_scheme \<Rightarrow> CPUMonitor \<Rightarrow> ('w, json \<times> CPUMonitor) io" where
  "GetCPU host mon =
     bindIO (model_name_io host mon) (\<lambda>(name, mon1).
     bindIO (base_clock_io host mon1) (\<lambda>(clock, mon2).
     bindIO (cpu_usage_io host) (\<lambda>usage.
     liftIO (mapE (\<lambda>j. (j, mon2))
       (assign_key JNull ''cpu''
         (braces [pair ''modelName'' (JString name),
                  pair ''baseClock'' (JString clock),
                  pair ''usage'' (JString usage)]))))))"

definition GetMemory :: "('w, 'x) host_scheme \<Rightarrow> ('w, json) io" where
  "GetMemory host =
     bindIO (memory_total_io host) (\<lambda>total.
     bindIO (memory_unused_io host) (\<lambda>unused.
     bindIO (memory_usage_io host) (\<lambda>usage.
     liftIO (assign_key JNull ''memory''
       (braces [pair ''total'' (JUnsigned total),
                pair ''unused'' (JUnsigned unused),
                pair ''usage'' (JString usage)])))))"

definition disk_braces :: "DFStructInfo \<Rightarrow> json" where
  "disk_braces it =
     (let GB = DFin (1024 * 1024)
      in braces [pair ''name'' (JString (mounted it)),
                 pair ''total'' (JFloat (ddiv (blocks it) GB)),
                 pair ''unused'' (JFloat (ddiv (available it) GB)),
                 pair ''used'' (JFloat (ddiv (used it) GB))])"

fun disk_loop :: "nat \<Rightarrow> DFStructInfo list \<Rightarrow> json \<Rightarrow> json outcome" where
  "disk_loop num [] diskJson = Inr diskJson"
| "disk_loop num (it # disks) diskJson =
     bindE (assign_key diskJson (''disk'' @ dec_str num) (disk_braces it)) (disk_loop (num + 1) disks)"

definition GetDisk :: "('w, 'x) host_scheme \<Rightarrow> ('w, json) io" where
  "GetDisk host = bindIO (disks_io host) (\<lambda>disks. liftIO (disk_loop 0 disks JNull))"

definition GetInfoByJson :: "('w, 'x) host_scheme \<Rightarrow> CPUMonitor \<Rightarrow> ('w, json \<times> CPUMonitor) io" where
  "GetInfoByJson host mon =
     bindIO (GetCPU host mon) (\<lambda>(cpu, mon').
     let result = merge_patch JNull cpu
     in bindIO (GetMemory host) (\<lambda>memory.
        let result = merge_patch result memory
        in bindIO (GetDisk host) (\<lambda>disk.
           let result = merge_patch result disk
           in if json_empty result then returnIO (JNull, mon') else returnIO (result, mon'))))"

definition DiskInfoOverview :: "('w, 'x) host_scheme \<Rightarrow> ('w, json) io" where
  "DiskInfoOverview host =
     bindIO (disk_total_io host) (\<lambda>total.
     bindIO (disk_used_io host) (\<lambda>used.
     liftIO (assign_key JNull ''data''
       (braces [pair ''lastCount'' (JFloat total), pair ''useCount'' (JFloat used)]))))"

definition disk_data :: "DFStructInfo \<Rightarrow> json outcome" where
  "disk_data it =
     (let TB = DFin (1024 * 1024 * 1024)
      in bindE (assign_key JNull ''diskPosition'' (JString (mounted it))) (\<lambda>d.
         bindE (assign_key d ''diskCapacity'' (JString (fmt_fixed 6 (ddiv (blocks it) TB)))) (\<lambda>d.
         bindE (assign_key d ''diskSpace'' (JString (fmt_fixed 6 (ddiv (available it) TB)))) (\<lambda>d.
         bindE (assign_key d ''diskState'' (JInteger 0)) (\<lambda>d.
         bindE (assign_key d ''testProgress'' (JInteger 1)) (\<lambda>d.
         bindE (assign_key d ''testResult'' (JInteger 1)) (\<lambda>d.
         assign_key d ''enable'' (JBool True))))))))"

text \<open>\<open>diskListJson["list"].push_back(data)\<close>: the element is found or made, changed and stored.\<close>

definition push_list :: "json \<Rightarrow> json \<Rightarrow> json outcome" where
  "push_list diskListJson d =
     bindE (index_key diskListJson ''list'') (\<lambda>(m, v).
       mapE (\<lambda>v'. JObject (member_store ''list'' v' m)) (push_back v d))"

fun list_loop :: "DFStructInfo list \<Rightarrow> json \<Rightarrow> json outcome" where
  "list_loop [] diskListJson = Inr diskListJson"
| "list_loop (it # disks) diskListJson =
     bindE (disk_data it) (\<lambda>d. bindE (push_list diskListJson d) (list_loop disks))"

definition DisksInfo :: "('w, 'x) host_scheme \<Rightarrow> ('w, json) io" where
  "DisksInfo host =
     bindIO (disks_io host) (\<lambda>disks.
     bindIO (liftIO (list_loop disks JNull)) (\<lambda>diskListJson.
     bindIO (disk_total_io host) (\<lambda>total.
     liftIO (assign_key JNull ''data'' (braces [diskListJson, pair ''total'' (JFloat total)])))))"

definition DisksIO :: "('w, 'x) host_scheme \<Rightarrow> ('w, json) io" where
  "DisksIO host =
     bindIO (disk_rates_io host) (\<lambda>(read, write).
     liftIO (assign_key JNull ''data''
       (braces [pair ''writeIo'' (JFloat write), pair ''readIo'' (JFloat read)])))"

section \<open>The values they build\<close>

definition cpu_entry :: "string \<Rightarrow> string \<Rightarrow> string \<Rightarrow> json" where
  "cpu_entry model clock usage =
     JObject [(''baseClock'', JString clock), (''modelName'', JString model), (''usage'', JString usage)]"

definition memory_entry :: "u64 \<Rightarrow> u64 \<Rightarrow> string \<Rightarrow> json" where
  "memory_entry tot unused usage =
     JObject [(''total'', JUnsigned tot), (''unused'', JUnsigned unused), (''usage'', JString usage)]"

definition disk_entry :: "DFStructInfo \<Rightarrow> json" where
  "disk_entry it =
     JObject [(''name'', JString (mounted it)),
              (''total'', JFloat (ddiv (blocks it) (DFin 1048576))),
              (''unused'', JFloat (ddiv (available it) (DFin 1048576))),
              (''used'', JFloat (ddiv (used it) (DFin 1048576)))]"

definition list_entry :: "DFStructInfo \<Rightarrow> json" where
  "list_entry it =
     JObject [(''diskCapacity'', JString (fmt_fixed 6 (ddiv (blocks it) (DFin 1073741824)))),
              (''diskPosition'', JString (mounted it)),
              (''diskSpace'', JString (fmt_fixed 6 (ddiv (available it) (DFin 1073741824)))),
              (''diskState'', JInteger 0), (''enable'', JBool True),
              (''testProgress'', JInteger 1), (''testResult'', JInteger 1)]"

lemma key_less: "(c # s < d # t) = (of_char c < (of_char d :: nat) \<or> c = d \<and> s < t)"
  by (auto simp: less_list_code less_char_def)

lemma pair_array: "pair k v = JArray [JString k, v]"
  by (simp add: pair_def braces_def basic_json_init_def)

lemmas json_build = pair_array braces_def basic_json_init_def Let_def assign_key_null

lemma cpu_entry_braces:
  "braces [pair ''modelName'' (JString model), pair ''baseClock'' (JString clock), pair ''usage'' (JString usage)] =
   cpu_entry model clock usage"
  by (simp add: json_build cpu_entry_def key_less)

lemma memory_entry_braces:
  "braces [pair ''total'' (JUnsigned tot), pair ''unused'' (JUnsigned unused), pair ''usage'' (JString usage)] =
   memory_entry tot unused usage"
  by (simp add: json_build memory_entry_def key_less)

lemma disk_entry_braces: "disk_braces it = disk_entry it"
  by (simp add: disk_braces_def json_build disk_entry_def key_less)

lemma disk_data_entry: "disk_data it = Inr (list_entry it)"
  by (simp add: disk_data_def list_entry_def assign_key_def index_key_def is_null_def Let_def key_less)

section \<open>The object of the disks\<close>

definition disk_key :: "nat \<Rightarrow> string" where
  "disk_key i = ''disk'' @ dec_str i"

lemma disk_key_inj [simp]: "disk_key i = disk_key j \<longleftrightarrow> i = j"
  by (auto simp: disk_key_def dec_str_inj)

lemma disk_key_other [simp]: "disk_key i \<noteq> ''cpu''" "disk_key i \<noteq> ''memory''"
  by (simp_all add: disk_key_def)

text \<open>The members of the object after the loop, as a function of the key.\<close>

lemma disk_loop_object:
  "members_sorted m \<Longrightarrow>
   \<exists>m'. disk_loop n disks (JObject m) = Inr (JObject m') \<and> members_sorted m' \<and>
        (\<forall>i<length disks. member_find (disk_key (n + i)) m' = Some (disk_entry (disks ! i))) \<and>
        (\<forall>k. (\<forall>i<length disks. k \<noteq> disk_key (n + i)) \<longrightarrow> member_find k m' = member_find k m)"
proof (induction disks arbitrary: n m)
  case (Cons it disks)
  let ?m = "member_store (disk_key n) (disk_entry it) m"
  have "members_sorted ?m" using Cons.prems by (rule sorted_store)
  from Cons.IH [OF this, of "n + 1"] obtain m' where
    m': "disk_loop (n + 1) disks (JObject ?m) = Inr (JObject m')" "members_sorted m'"
      "\<forall>i<length disks. member_find (disk_key (n + 1 + i)) m' = Some (disk_entry (disks ! i))"
      "\<forall>k. (\<forall>i<length disks. k \<noteq> disk_key (n + 1 + i)) \<longrightarrow> member_find k m' = member_find k ?m" by blast
  have "disk_loop n (it # disks) (JObject m) = Inr (JObject m')"
    using Cons.prems m'(1) by (simp add: assign_key_object disk_entry_braces disk_key_def)
  moreover have "member_find (disk_key (n + i)) m' = Some (disk_entry ((it # disks) ! i))"
    if "i < length (it # disks)" for i
  proof (cases i)
    case 0
    with m'(4) Cons.prems show ?thesis by (simp add: find_after_store)
  next
    case (Suc j)
    with m'(3) that show ?thesis by (simp add: add.assoc)
  qed
  moreover have "member_find k m' = member_find k m" if k: "\<forall>i<length (it # disks). k \<noteq> disk_key (n + i)" for k
  proof -
    have "k \<noteq> disk_key (n + 1 + i)" if "i < length disks" for i
      using spec [OF k, of "Suc i"] that by simp
    moreover have "k \<noteq> disk_key n" using spec [OF k, of 0] by simp
    ultimately show ?thesis using m'(4) Cons.prems by (simp add: find_after_store)
  qed
  ultimately show ?case using m'(2) by blast
qed auto

lemma disk_loop_null:
  "disk_loop 0 disks JNull =
     (if disks = [] then Inr JNull else disk_loop 0 disks (JObject []))"
  by (cases disks) (simp_all add: assign_key_null assign_key_object)

section \<open>The members of the reply\<close>

lemma merge_flat:
  "members_sorted m \<Longrightarrow> \<forall>(k, v)\<in>set m. v \<noteq> JNull \<and> (\<forall>ps. v \<noteq> JObject ps) \<Longrightarrow>
   merge_patch JNull (JObject m) = JObject m"
  by (simp add: merge_patch.simps members_of_def merge_into_empty)

lemma merge_entries:
  "merge_patch JNull (cpu_entry model clock usage) = cpu_entry model clock usage"
  "merge_patch JNull (memory_entry tot unused usage) = memory_entry tot unused usage"
  "merge_patch JNull (disk_entry it) = disk_entry it"
  unfolding cpu_entry_def memory_entry_def disk_entry_def
  by (rule merge_flat; simp add: key_less)+

lemma entry_not_null [simp]:
  "cpu_entry model clock usage \<noteq> JNull" "memory_entry tot unused usage \<noteq> JNull" "disk_entry it \<noteq> JNull"
  by (simp_all add: cpu_entry_def memory_entry_def disk_entry_def)

lemma merge_cpu_memory:
  "merge_patch (merge_patch JNull (JObject [(''cpu'', cpu_entry model clock usage)]))
     (JObject [(''memory'', memory_entry tot unused ratio)]) =
   JObject [(''cpu'', cpu_entry model clock usage), (''memory'', memory_entry tot unused ratio)]"
  by (simp add: merge_patch.simps [of _ "JObject _"] merge_members.simps members_of_def or_null_def
      Let_def key_less merge_entries merge_patch.simps [of _ "JObject _", symmetric] del: merge_patch.simps)

definition cpu_memory :: "string \<Rightarrow> string \<Rightarrow> string \<Rightarrow> u64 \<Rightarrow> u64 \<Rightarrow> string \<Rightarrow> (string \<times> json) list" where
  "cpu_memory model clock usage tot unused ratio =
     [(''cpu'', cpu_entry model clock usage), (''memory'', memory_entry tot unused ratio)]"

lemma merge_disks:
  assumes "disks \<noteq> []"
  shows "\<exists>d m. disk_loop 0 disks JNull = Inr d \<and>
     merge_patch (JObject (cpu_memory model clock usage tot unused ratio)) d = JObject m \<and> members_sorted m \<and>
     member_find ''cpu'' m = Some (cpu_entry model clock usage) \<and>
     member_find ''memory'' m = Some (memory_entry tot unused ratio) \<and>
     (\<forall>i<length disks. member_find (disk_key i) m = Some (disk_entry (disks ! i))) \<and>
     fst ` set m = {''cpu'', ''memory''} \<union> disk_key ` {..<length disks}"
proof -
  let ?cm = "cpu_memory model clock usage tot unused ratio"
  from disk_loop_object [of "[]" 0 disks] obtain dm where
    dm: "disk_loop 0 disks (JObject []) = Inr (JObject dm)" "members_sorted dm"
      "\<And>i. i < length disks \<Longrightarrow> member_find (disk_key i) dm = Some (disk_entry (disks ! i))"
      "\<And>k. (\<And>i. i < length disks \<Longrightarrow> k \<noteq> disk_key i) \<Longrightarrow> member_find k dm = None" by auto
  have cm: "members_sorted ?cm" "\<And>k. member_find k ?cm = map_of ?cm k"
    by (simp_all add: cpu_memory_def key_less member_find_map_of)
  let ?m = "merge_members ?cm dm"
  have sorted: "members_sorted ?m" using cm(1) by (rule merge_members_sorted)
  have find: "member_find k ?m = (case member_find k dm of None \<Rightarrow> member_find k ?cm
      | Some v \<Rightarrow> if v = JNull then None else Some (merge_patch (or_null (member_find k ?cm)) v))" for k
    using find_merge [OF cm(1) sorted_distinct [OF dm(2)], of k] by (simp add: member_find_map_of [OF dm(2)])
  have other: "member_find k ?m = member_find k ?cm" if "\<And>i. i < length disks \<Longrightarrow> k \<noteq> disk_key i" for k
    using find [of k] dm(4) [OF that] by simp
  have disk: "member_find (disk_key i) ?m = Some (disk_entry (disks ! i))" if "i < length disks" for i
    using find [of "disk_key i"] dm(3) [OF that] cm(2) [of "disk_key i"]
    by (simp add: cpu_memory_def or_null_def merge_entries)
  have key: "k \<in> fst ` set ?m \<longleftrightarrow> member_find k ?m \<noteq> None" for k
    using member_find_map_of [OF sorted, of k] map_of_eq_None_iff [of ?m k] by simp
  have present: "member_find k ?m \<noteq> None \<longleftrightarrow> k \<in> {''cpu'', ''memory''} \<union> disk_key ` {..<length disks}" for k
  proof (cases "\<exists>i<length disks. k = disk_key i")
    case True
    then show ?thesis using disk by auto
  next
    case False
    then have "member_find k ?m = map_of ?cm k" using other [of k] cm(2) [of k] by metis
    moreover have "k \<notin> disk_key ` {..<length disks}" using False by blast
    ultimately show ?thesis by (simp add: cpu_memory_def)
  qed
  have "fst ` set ?m = {''cpu'', ''memory''} \<union> disk_key ` {..<length disks}"
    by (rule set_eqI) (simp only: key present)
  moreover have "member_find ''cpu'' ?m = Some (cpu_entry model clock usage)"
    "member_find ''memory'' ?m = Some (memory_entry tot unused ratio)"
    using other [of "''cpu''"] other [of "''memory''"] cm(2) disk_key_other [symmetric] by (simp_all add: cpu_memory_def)
  moreover have "disk_loop 0 disks JNull = Inr (JObject dm)"
    using assms dm(1) by (simp add: disk_loop_null)
  moreover have "merge_patch (JObject ?cm) (JObject dm) = JObject ?m"
    by (simp add: merge_patch.simps members_of_def)
  ultimately show ?thesis using sorted disk by blast
qed

lemma GetCPU_result:
  assumes "model_name_io host mon w = (Inr (model, mon1), w1)"
    and "base_clock_io host mon1 w1 = (Inr (clock, mon2), w2)" "cpu_usage_io host w2 = (Inr usage, w3)"
  shows "GetCPU host mon w = (Inr (JObject [(''cpu'', cpu_entry model clock usage)], mon2), w3)"
  using assms by (simp add: GetCPU_def bindIO_simps cpu_entry_braces assign_key_null)

lemma GetMemory_result:
  assumes "memory_total_io host w = (Inr tot, w1)" "memory_unused_io host w1 = (Inr unused, w2)"
    and "memory_usage_io host w2 = (Inr ratio, w3)"
  shows "GetMemory host w = (Inr (JObject [(''memory'', memory_entry tot unused ratio)]), w3)"
  using assms by (simp add: GetMemory_def bindIO_simps memory_entry_braces assign_key_null)

lemma base_info_reply:
  assumes "model_name_io host mon w = (Inr (model, mon1), w1)"
    and "base_clock_io host mon1 w1 = (Inr (clock, mon2), w2)" "cpu_usage_io host w2 = (Inr usage, w3)"
    and "memory_total_io host w3 = (Inr tot, w4)" "memory_unused_io host w4 = (Inr unused, w5)"
    and "memory_usage_io host w5 = (Inr ratio, w6)" "disks_io host w6 = (Inr disks, w7)"
  shows "if disks = [] then GetInfoByJson host mon w = (Inr (JNull, mon2), w7)
         else \<exists>m. GetInfoByJson host mon w = (Inr (JObject m, mon2), w7) \<and> members_sorted m \<and>
           fst ` set m = {''cpu'', ''memory''} \<union> disk_key ` {..<length disks} \<and>
           member_find ''cpu'' m = Some (cpu_entry model clock usage) \<and>
           member_find ''memory'' m = Some (memory_entry tot unused ratio) \<and>
           (\<forall>i<length disks. member_find (disk_key i) m = Some (disk_entry (disks ! i)))"
proof -
  have reply: "disk_loop 0 disks JNull = Inr d \<Longrightarrow>
      GetInfoByJson host mon w =
        (Inr (if json_empty (merge_patch (JObject (cpu_memory model clock usage tot unused ratio)) d) then JNull
              else merge_patch (JObject (cpu_memory model clock usage tot unused ratio)) d, mon2), w7)" for d
    using assms(7)
    by (simp add: GetInfoByJson_def GetDisk_def bindIO_simps GetCPU_result [OF assms(1-3)]
        GetMemory_result [OF assms(4-6)] merge_cpu_memory cpu_memory_def)
  show ?thesis
  proof (cases "disks = []")
    case True
    then show ?thesis using reply [of JNull] by (simp add: merge_patch.simps [of _ JNull] json_empty_def)
  next
    case False
    from merge_disks [OF False, of model clock usage tot unused ratio] obtain d m where
      d: "disk_loop 0 disks JNull = Inr d \<and>
        merge_patch (JObject (cpu_memory model clock usage tot unused ratio)) d = JObject m \<and> members_sorted m \<and>
        member_find ''cpu'' m = Some (cpu_entry model clock usage) \<and>
        member_find ''memory'' m = Some (memory_entry tot unused ratio) \<and>
        (\<forall>i<length disks. member_find (disk_key i) m = Some (disk_entry (disks ! i))) \<and>
        fst ` set m = {''cpu'', ''memory''} \<union> disk_key ` {..<length disks}"
      by (elim exE) (rule that)
    then have "m \<noteq> []" by (metis member_find.simps(1) option.distinct(1))
    moreover note merged = conjunct1 [OF conjunct2 [OF d]]
    ultimately have "GetInfoByJson host mon w = (Inr (JObject m, mon2), w7)"
      unfolding reply [OF conjunct1 [OF d]] merged by (simp add: json_empty_def)
    with d show ?thesis unfolding if_not_P [OF False] by (intro exI [of _ m] conjI) (elim conjE, assumption)+
  qed
qed

text \<open>C8: the reply to \<open>RequestBaseInfo\<close> is one object with exactly the members \<open>cpu\<close>, \<open>memory\<close> and
  \<open>disk0\<close>, \<open>disk1\<close>, ... in the order of \<open>df\<close>, holding what the monitors returned. But when \<open>df\<close> lists
  no \<open>/dev\<close> disk, \<open>GetDisk\<close> returns null and merging null erases the rest: the reply is \<open>null\<close>.\<close>

theorem base_info:
  assumes "model_name_io host mon w = (Inr (model, mon1), w1)"
    and "base_clock_io host mon1 w1 = (Inr (clock, mon2), w2)" "cpu_usage_io host w2 = (Inr usage, w3)"
    and "memory_total_io host w3 = (Inr tot, w4)" "memory_unused_io host w4 = (Inr unused, w5)"
    and "memory_usage_io host w5 = (Inr ratio, w6)" "disks_io host w6 = (Inr disks, w7)"
  shows "if disks = [] then GetInfoByJson host mon w = (Inr (JNull, mon2), w7)
         else \<exists>m. GetInfoByJson host mon w = (Inr (JObject m, mon2), w7) \<and> members_sorted m \<and>
           fst ` set m = {''cpu'', ''memory''} \<union> disk_key ` {..<length disks} \<and>
           member_find ''cpu'' m = Some (cpu_entry model clock usage) \<and>
           member_find ''memory'' m = Some (memory_entry tot unused ratio) \<and>
           (\<forall>i<length disks. member_find (disk_key i) m = Some (disk_entry (disks ! i)))"
  using assms by (rule base_info_reply)

lemma still_io:
  "memory_total_io (still c m d) w = (GetMemoryTotal (Some m), w)"
  "memory_unused_io (still c m d) w = (GetMemoryUnused (Some m), w)"
  "memory_usage_io (still c m d) w = (GetMemoryUsage (Some m), w)"
  "disks_io (still c m d) w = (GetDisksByDf (Some d), w)"
  "disk_total_io (still c m d) w = (DiskTotalByDf (Some d), w)"
  "disk_used_io (still c m d) w = (DiskUsedByDf (Some d), w)"
  "cpu_usage_io (still c m d) w = (Inr (GetCpuUsage (DFin (- 1)) (DFin (- 1))), w)"
  by (simp_all add: monitor_io_defs still_def libzmq.defs calm_def readIO_def bindIO_def CPUPrivate_init_def)

lemma cached_io:
  "model \<noteq> [] \<Longrightarrow> model_name_io host \<lparr>modelName = model, baseClock = clock\<rparr> w =
     (Inr (model, \<lparr>modelName = model, baseClock = clock\<rparr>), w)"
  "clock \<noteq> [] \<Longrightarrow> base_clock_io host \<lparr>modelName = model, baseClock = clock\<rparr> w =
     (Inr (clock, \<lparr>modelName = model, baseClock = clock\<rparr>), w)"
  by (simp_all add: monitor_io_defs GetCPUModelName_def GetCpuBaseClock_def)

definition sample_mem :: string where
  "sample_mem = render [(''MemTotal'', 7, 100, []), (''MemFree'', 8, 40, [])]"

definition sample_df :: string where
  "sample_df = ''Filesystem 1K-blocks'' @ newline # df_table [sample_entry ''/dev/sda1'' 1000 ''/'']"

abbreviation sample_disk :: DFStructInfo where
  "sample_disk \<equiv> entry_info (sample_entry ''/dev/sda1'' 1000 ''/'')"

lemma sample_df_disks: "GetDisksByDf (Some sample_df) = Inr [sample_disk]"
proof -
  have wf: "\<forall>e\<in>set [sample_entry ''/dev/sda1'' 1000 ''/'']. wf_df_entry e"
    by (simp add: wf_sample_entry token_def is_space_def)
  show ?thesis
    using DiskInfoByDf_table [OF _ _ wf, of "''Filesystem 1K-blocks''"]
    by (simp add: sample_df_def GetDisksByDf_def plain_line_def newline_def is_dev_def entry_info_def sample_entry_def
        strncmp_eq_def cstr_def)
qed

lemma sample_mem_reads:
  "\<exists>tot unused ratio. GetMemoryTotal (Some sample_mem) = Inr tot \<and> GetMemoryUnused (Some sample_mem) = Inr unused \<and>
     GetMemoryUsage (Some sample_mem) = Inr ratio"
  using sample_meminfo
  by (simp add: sample_mem_def GetMemoryTotal_def priv_GetMemoryTotal_def GetMemoryUnused_def priv_GetMemoryUnused_def
      GetMemoryUsage_def priv_GetMemoryUsage_def)

theorem base_info_witness:
  "\<exists>m. GetInfoByJson (still [] sample_mem sample_df) \<lparr>modelName = ''Xeon'', baseClock = ''2400''\<rparr> () =
         (Inr (JObject m, \<lparr>modelName = ''Xeon'', baseClock = ''2400''\<rparr>), ()) \<and>
       fst ` set m = {''cpu'', ''memory'', ''disk0''} \<and> member_find ''disk0'' m = Some (disk_entry sample_disk)"
proof -
  obtain tot unused ratio where reads: "GetMemoryTotal (Some sample_mem) = Inr tot"
    "GetMemoryUnused (Some sample_mem) = Inr unused" "GetMemoryUsage (Some sample_mem) = Inr ratio"
    using sample_mem_reads by blast
  let ?h = "still [] sample_mem sample_df :: unit host"
  have "memory_total_io ?h () = (Inr tot, ())" "memory_unused_io ?h () = (Inr unused, ())"
    "memory_usage_io ?h () = (Inr ratio, ())" "disks_io ?h () = (Inr [sample_disk], ())"
    by (simp_all add: still_io reads sample_df_disks)
  note info = base_info [OF cached_io(1) cached_io(2) still_io(7) this, of "''Xeon''" "''2400''",
      unfolded if_not_P [OF list.distinct(2)]]
  have "disk_key 0 = ''disk0''" by (simp add: disk_key_def digit_char_def char_of_def bit_iff_odd)
  moreover have "{..<length [sample_disk]} = {0}" by auto
  moreover have "''Xeon'' \<noteq> []" "''2400'' \<noteq> []" by simp_all
  ultimately show ?thesis using info by fastforce
qed

section \<open>The other replies\<close>

lemma push_list_null: "push_list JNull d = Inr (JObject [(''list'', JArray [d])])"
  by (simp add: push_list_def index_key_def push_back_def is_null_def Let_def)

lemma push_list_array: "push_list (JObject [(''list'', JArray ds)]) d = Inr (JObject [(''list'', JArray (ds @ [d]))])"
  by (simp add: push_list_def index_key_def push_back_def is_null_def Let_def)

lemma list_loop_array:
  "list_loop disks (JObject [(''list'', JArray ds)]) = Inr (JObject [(''list'', JArray (ds @ map list_entry disks))])"
  by (induction disks arbitrary: ds) (simp_all add: disk_data_entry push_list_array)

lemma list_loop_null:
  "list_loop disks JNull =
     Inr (if disks = [] then JNull else JObject [(''list'', JArray (map list_entry disks))])"
  by (cases disks) (simp_all add: disk_data_entry push_list_null list_loop_array)

lemma braces_not_pair:
  "braces [if b then JNull else JObject m, pair k v] = JArray [if b then JNull else JObject m, JArray [JString k, v]]"
  by (cases b) (simp_all add: json_build)

lemma disks_info_value:
  assumes "disks_io host w = (Inr disks, w1)" "disk_total_io host w1 = (Inr tot, w2)"
  shows "DisksInfo host w =
           (Inr (JObject [(''data'',
              JArray [if disks = [] then JNull else JObject [(''list'', JArray (map list_entry disks))],
                      JArray [JString ''total'', JFloat tot]])]), w2)"
  using assms by (simp add: DisksInfo_def bindIO_simps list_loop_null assign_key_null braces_not_pair)

lemma overview_value:
  assumes "disk_total_io host w = (Inr tot, w1)" "disk_used_io host w1 = (Inr used', w2)"
  shows "DiskInfoOverview host w =
           (Inr (JObject [(''data'', JObject [(''lastCount'', JFloat tot), (''useCount'', JFloat used')])]), w2)"
  using assms by (simp add: DiskInfoOverview_def bindIO_simps json_build key_less)

lemma disks_rates_value:
  assumes "disk_rates_io host w = (Inr (r, wr), w1)"
  shows "DisksIO host w =
           (Inr (JObject [(''data'', JObject [(''readIo'', JFloat r), (''writeIo'', JFloat wr)])]), w1)"
  using assms by (simp add: DisksIO_def bindIO_simps json_build key_less)

text \<open>C9: the reply to \<open>DisksInfo\<close> has one member \<open>data\<close>, and that is an array: the object with the
  list of the disks (null when there are none) and then the array of the word \<open>total\<close> and the
  total of a second run of \<open>df\<close>, not one object with the members \<open>list\<close> and \<open>total\<close>. The replies
  to \<open>DisksOverview\<close> and \<open>DiskIO\<close> are objects.\<close>

theorem disk_replies:
  assumes "disks_io host w = (Inr disks, w1)" "disk_total_io host w1 = (Inr tot, w2)"
    and "disk_total_io host w = (Inr tot', w3)" "disk_used_io host w3 = (Inr used', w4)"
    and "disk_rates_io host w = (Inr (r, wr), w5)"
  shows "DisksInfo host w =
           (Inr (JObject [(''data'',
              JArray [if disks = [] then JNull else JObject [(''list'', JArray (map list_entry disks))],
                      JArray [JString ''total'', JFloat tot]])]), w2) \<and>
         DiskInfoOverview host w =
           (Inr (JObject [(''data'', JObject [(''lastCount'', JFloat tot'), (''useCount'', JFloat used')])]), w4) \<and>
         DisksIO host w =
           (Inr (JObject [(''data'', JObject [(''readIo'', JFloat r), (''writeIo'', JFloat wr)])]), w5)"
  using disks_info_value [OF assms(1,2)] overview_value [OF assms(3,4)] disks_rates_value [OF assms(5)] by blast

lemma sample_df_sums:
  "\<exists>tot used. DiskTotalByDf (Some sample_df) = Inr tot \<and> DiskUsedByDf (Some sample_df) = Inr used"
  using sample_df_disks by (simp add: DiskTotalByDf_def DiskUsedByDf_def GetDisksByDf_def)

definition rated :: "string \<Rightarrow> 'w host" where
  "rated df = (still [] [] df)
     \<lparr>disk_object := \<lambda>w. (seen_once (DFin 3, DFin 4), w)\<rparr>"

theorem disk_replies_witness:
  "\<exists>tot. DisksInfo (rated sample_df) () =
     (Inr (JObject [(''data'',
        JArray [JObject [(''list'', JArray [list_entry sample_disk])],
                JArray [JString ''total'', JFloat tot]])]), ())"
proof -
  obtain tot used where sums: "DiskTotalByDf (Some sample_df) = Inr tot" "DiskUsedByDf (Some sample_df) = Inr used"
    using sample_df_sums by blast
  let ?h = "rated sample_df :: unit host"
  have "disks_io ?h () = (Inr [sample_disk], ())" "disk_total_io ?h () = (Inr tot, ())"
    "disk_total_io ?h () = (Inr tot, ())" "disk_used_io ?h () = (Inr used, ())"
    "disk_rates_io ?h () = (Inr (DFin 3, DFin 4), ())"
    using sums sample_df_disks
    by (simp_all add: monitor_io_defs rated_def still_def libzmq.defs calm_def readIO_def bindIO_def GetDiskIO_def seen_once_def)
  from disk_replies [OF this] show ?thesis by simp
qed

lemma wf_replies:
  "wf_json (cpu_entry model clock usage)" "wf_json (memory_entry tot unused ratio)"
  "wf_json (disk_entry it)" "wf_json (list_entry it)"
  by (simp_all add: cpu_entry_def memory_entry_def disk_entry_def list_entry_def key_less)

end
