(* ===== verification/History.thy ===== *)
theory History
  imports Host
begin

text \<open>
  The history of a run, as an observation of the world: what is handed to libzmq for sending and what
  is received, in the order of the calls. \<open>logs\<close> says what each C function adds to such an
  observation, as documented: a send adds its bytes, a successful receive adds the message it
  returns, with its size, and a blocking receive does not fail with \<open>EAGAIN\<close>; everything else adds
  nothing. It is used in two ways, as one list of events (\<open>traced\<close>) and as the two lists of what was
  sent and what was received (\<open>histories\<close>). The lemmas carry it to the C++ wrappers.
\<close>

datatype event = Sent bytes | Received bytes

definition silent :: "('w \<Rightarrow> 'l) \<Rightarrow> ('w \<Rightarrow> 'w) \<Rightarrow> bool" where
  "silent obs f \<longleftrightarrow> (\<forall>w. obs (f w) = obs w)"

definition silent_messages :: "('w, 'x) host_scheme \<Rightarrow> ('w \<Rightarrow> 'l) \<Rightarrow> bool" where
  "silent_messages host obs \<longleftrightarrow>
     silent obs (\<lambda>w. snd (zmq_msg_init host w)) \<and>
     (\<forall>n. silent obs (\<lambda>w. snd (snd (zmq_msg_init_size host n w)))) \<and>
     (\<forall>m. silent obs (\<lambda>w. snd (zmq_msg_close host m w)))"

definition silent_sockets :: "('w, 'x) host_scheme \<Rightarrow> ('w \<Rightarrow> 'l) \<Rightarrow> bool" where
  "silent_sockets host obs \<longleftrightarrow>
     silent obs (\<lambda>w. snd (zmq_ctx_new host w)) \<and>
     (\<forall>c p v. silent obs (\<lambda>w. snd (zmq_ctx_set host c p v w))) \<and>
     (\<forall>c. silent obs (\<lambda>w. snd (zmq_ctx_term host c w))) \<and>
     (\<forall>c t. silent obs (\<lambda>w. snd (zmq_socket host c t w))) \<and>
     (\<forall>h. silent obs (\<lambda>w. snd (zmq_close host h w))) \<and>
     (\<forall>h a. silent obs (\<lambda>w. snd (zmq_bind host h a w))) \<and>
     (\<forall>h a. silent obs (\<lambda>w. snd (zmq_connect host h a w))) \<and>
     (\<forall>h p v. silent obs (\<lambda>w. snd (zmq_setsockopt host h p v w))) \<and>
     (\<forall>is n t. silent obs (\<lambda>w. snd (snd (zmq_poll host is n t w))))"

definition silent_system :: "('w, 'x) host_scheme \<Rightarrow> ('w \<Rightarrow> 'l) \<Rightarrow> bool" where
  "silent_system host obs \<longleftrightarrow>
     silent obs (\<lambda>w. snd (read_cpuinfo host w)) \<and>
     silent obs (\<lambda>w. snd (read_meminfo host w)) \<and>
     silent obs (\<lambda>w. snd (run_df host w)) \<and>
     silent obs (\<lambda>w. snd (cpu_object host w)) \<and>
     silent obs (\<lambda>w. snd (disk_object host w)) \<and>
     (\<forall>s. silent obs (log_line host s)) \<and>
     (\<forall>s. silent obs (print_out host s)) \<and>
     (\<forall>n. silent obs (sleep_ms host n))"

definition logs :: "('w, 'x) host_scheme \<Rightarrow> ('w \<Rightarrow> 'l) \<Rightarrow> ('l \<Rightarrow> event \<Rightarrow> 'l) \<Rightarrow> bool" where
  "logs host obs add \<longleftrightarrow>
     (\<forall>h b f w. obs (snd (zmq_send host h b f w)) = add (obs w) (Sent b)) \<and>
     (\<forall>m h f w. obs (snd (snd (zmq_msg_send host m h f w))) = add (obs w) (Sent (content m))) \<and>
     (\<forall>m h w n m' w'. zmq_msg_recv host m h recv_none w = (n, m', w') \<longrightarrow>
        (if 0 \<le> n then n = int (length (content m')) \<and> obs w' = add (obs w) (Received (content m'))
         else obs w' = obs w \<and> zmq_errno host w' \<noteq> EAGAIN)) \<and>
     silent_messages host obs \<and> silent_sockets host obs \<and> silent_system host obs"

lemma logs_silent: "logs host obs add \<Longrightarrow> silent_messages host obs \<and> silent_sockets host obs \<and> silent_system host obs"
  by (simp add: logs_def)

text \<open>One list of events.\<close>

definition add_event :: "event list \<Rightarrow> event \<Rightarrow> event list" where
  "add_event es e = es @ [e]"

abbreviation traced :: "('w, 'x) host_scheme \<Rightarrow> ('w \<Rightarrow> event list) \<Rightarrow> bool" where
  "traced host trace \<equiv> logs host trace add_event"

lemma add_events: "foldl add_event es es' = es @ es'"
  by (induction es' arbitrary: es) (simp_all add: add_event_def)

text \<open>The byte strings sent, and the byte strings received.\<close>

fun add_both :: "bytes list \<times> bytes list \<Rightarrow> event \<Rightarrow> bytes list \<times> bytes list" where
  "add_both (s, r) (Sent b) = (s @ [b], r)"
| "add_both (s, r) (Received b) = (s, r @ [b])"

definition both :: "('w \<Rightarrow> bytes list) \<Rightarrow> ('w \<Rightarrow> bytes list) \<Rightarrow> 'w \<Rightarrow> bytes list \<times> bytes list" where
  "both sent received w = (sent w, received w)"

abbreviation histories :: "('w, 'x) host_scheme \<Rightarrow> ('w \<Rightarrow> bytes list) \<Rightarrow> ('w \<Rightarrow> bytes list) \<Rightarrow> bool" where
  "histories host sent received \<equiv> logs host (both sent received) add_both"

lemma keeps_both:
  "keeps (both sent received) m \<Longrightarrow> m w = (r, w') \<Longrightarrow> sent w' = sent w \<and> received w' = received w"
  by (auto dest: keepsD simp: both_def)

lemma keeps_case_prod [keeps_intros]: "(\<And>a b. keeps f (g a b)) \<Longrightarrow> keeps f (case x of (a, b) \<Rightarrow> g a b)"
  by (cases x) simp

lemma keeps_let [keeps_intros]: "keeps f (g x) \<Longrightarrow> keeps f (let y = x in g y)"
  by simp

lemma silent_call:
  "silent l (\<lambda>w. snd (m w)) \<Longrightarrow> keeps l (call lib (plain m))"
  "silent l (\<lambda>w. snd (m w)) \<Longrightarrow> keeps l (assert_call (plain m))"
  "silent l (\<lambda>w. snd (snd (g w))) \<Longrightarrow> keeps l (call lib g)"
  by (auto intro!: keeps_call keeps_assert_call simp: silent_def)

lemma silent_read: "silent l (\<lambda>w. snd (m w)) \<Longrightarrow> keeps l (readIO m)"
  by (rule keeps_read) (simp add: silent_def)

lemma silent_do: "silent l f \<Longrightarrow> keeps l (doIO f)"
  by (rule keeps_do) (simp add: silent_def)

lemma keeps_message_ops:
  assumes "logs host obs add"
  shows "keeps obs (message_default host)"
    and "keeps obs (message_destroy host m)"
    and "keeps obs (message_string host s)"
  using logs_silent [OF assms]
  by (auto simp: message_default_def message_destroy_def message_string_def message_mem_def message_size_def
      silent_messages_def intro!: keeps_intros silent_call)

lemma keeps_monitor_reads:
  assumes "logs host obs add"
  shows "keeps obs (model_name_io host mon)"
    and "keeps obs (base_clock_io host mon)"
    and "keeps obs (cpu_usage_io host)"
    and "keeps obs (memory_total_io host)"
    and "keeps obs (memory_unused_io host)"
    and "keeps obs (memory_usage_io host)"
    and "keeps obs (disks_io host)"
    and "keeps obs (disk_total_io host)"
    and "keeps obs (disk_used_io host)"
    and "keeps obs (disk_rates_io host)"
  using logs_silent [OF assms]
  by (auto simp: monitor_io_defs silent_system_def intro!: keeps_intros silent_read)

lemma keeps_log:
  assumes "logs host obs add"
  shows "keeps obs (doIO (log_line host s))"
    and "keeps obs (doIO (print_out host s))"
    and "keeps obs (doIO (sleep_ms host n))"
  using logs_silent [OF assms] by (auto simp: silent_system_def intro!: silent_do)

lemma send_buffer_log:
  assumes "logs host obs add" "send_buffer host h b f w = (r, w')"
  shows "obs w' = add (obs w) (Sent b)"
proof -
  obtain n w1 where c: "zmq_send host h b f w = (n, w1)" by (meson surj_pair)
  have h: "obs (snd (zmq_send host h b f w)) = add (obs w) (Sent b)" using assms(1) by (simp add: logs_def)
  have "w' = w1" using assms(2) c by (auto simp: send_buffer_def nbytes_result_def throw_errno_eq split: if_splits)
  with h c show ?thesis by simp
qed

lemma send_message_log:
  assumes "logs host obs add" "send_message host h m f w = (r, w')"
  shows "obs w' = add (obs w) (Sent (content m))"
proof -
  obtain n m' w1 where c: "zmq_msg_send host m h f w = (n, m', w1)" by (metis surj_pair)
  have h: "obs (snd (snd (zmq_msg_send host m h f w))) = add (obs w) (Sent (content m))"
    using assms(1) by (simp add: logs_def)
  have "w' = w1"
    using assms(2) c by (auto simp: send_message_def nbytes_result_def bindIO_def throw_errno_eq split: if_splits)
  with h c show ?thesis by simp
qed

lemma recv_message_log:
  assumes "logs host obs add" "recv_message host h m recv_none w = (r, w')"
  shows "obs w' = (case r of Inr (_, m') \<Rightarrow> add (obs w) (Received (content m')) | Inl e \<Rightarrow> obs w)"
proof -
  obtain n m' w1 where c: "zmq_msg_recv host m h recv_none w = (n, m', w1)" by (metis surj_pair)
  have "if 0 \<le> n then n = int (length (content m')) \<and> obs w1 = add (obs w) (Received (content m'))
        else obs w1 = obs w \<and> zmq_errno host w1 \<noteq> EAGAIN"
    using assms(1) c by (simp only: logs_def) blast
  with c assms(2) show ?thesis
    by (auto simp: recv_message_def thenIO_def assertIO_def msg_size_def throw_errno_eq split: if_splits)
qed

lemma send_buffer_history:
  "histories host sent received \<Longrightarrow> send_buffer host h b f w = (r, w') \<Longrightarrow>
   sent w' = sent w @ [b] \<and> received w' = received w"
  by (drule (1) send_buffer_log) (simp add: both_def)

lemma recv_message_history:
  "histories host sent received \<Longrightarrow> recv_message host h m recv_none w = (r, w') \<Longrightarrow>
   sent w' = sent w \<and> (case r of Inr (_, m') \<Rightarrow> received w' = received w @ [content m'] | Inl e \<Rightarrow> received w' = received w)"
  by (drule (1) recv_message_log) (auto simp: both_def split: sum.splits)

section \<open>Sockets and contexts\<close>

lemma keeps_term_loop:
  assumes "term_loop lib ptr w = Some r" "\<And>w. f (snd (zmq_ctx_term lib ptr w)) = f w"
  shows "f (snd r) = f w"
proof -
  have "(\<forall>w. f (snd (zmq_ctx_term lib ptr w)) = f w) \<longrightarrow> f (snd r) = f w"
  proof (rule term_loop.raw_induct [where
        P = "\<lambda>lib ptr w r. (\<forall>w. f (snd (zmq_ctx_term lib ptr w)) = f w) \<longrightarrow> f (snd r) = f w",
        OF _ assms(1)], intro impI)
    fix rec_loop and lib :: "('a, 'b) libzmq_scheme" and ptr w r
    assume IH: "\<And>ptr w b y. rec_loop ptr w b = Some y \<Longrightarrow>
        (\<forall>v. f (snd (zmq_ctx_term ptr w v)) = f v) \<longrightarrow> f (snd y) = f b"
      and body: "(let (rc, w') = zmq_ctx_term lib ptr w
        in if rc = - 1 \<and> zmq_errno lib w' = EINTR then rec_loop lib ptr w' else Some (rc, w')) = Some r"
      and keep: "\<forall>w. f (snd (zmq_ctx_term lib ptr w)) = f w"
    obtain rc w1 where c: "zmq_ctx_term lib ptr w = (rc, w1)" by (meson surj_pair)
    with keep have "f w1 = f w" by (metis snd_conv)
    with body c IH [of lib ptr w1 r] keep show "f (snd r) = f w" by (auto split: if_splits)
  qed
  with assms(2) show ?thesis by blast
qed

lemma keeps_socket_ops:
  assumes "logs host obs add"
  shows "keeps obs (context_new host threads k)"
    and "keeps obs (socket_new host ctx t)"
    and "keeps obs (set_integral host h p v)"
    and "keeps obs (connect host h addr)"
    and "keeps obs (poll host items n t)"
    and "keeps obs (socket_close host s)"
    and "keeps obs (socket_destroy host s)"
    and "keeps obs (context_close host ptr)"
proof -
  have silent: "silent_sockets host obs" using logs_silent [OF assms] by blast
  have new: "obs (snd (zmq_ctx_new host w)) = obs w" "obs (snd (zmq_socket host c ty w)) = obs w"
    "obs (snd (snd (zmq_poll host its k' t' w))) = obs w" for w c ty its k' t'
    using silent by (simp_all add: silent_sockets_def silent_def)
  have "keeps obs (context_default host)"
    unfolding keeps_def context_default_def
    using new(1) by (auto simp: throw_errno_eq split: prod.split) (metis snd_conv)+
  then show "keeps obs (context_new host threads k)"
    using silent by (auto simp: context_new_def silent_sockets_def intro!: keeps_intros silent_call)
  show "keeps obs (socket_new host ctx t)"
    unfolding keeps_def socket_new_def
    using new(2) [of ctx t] by (auto simp: throw_errno_eq split: prod.split) (metis snd_conv)+
  show "keeps obs (set_integral host h p v)" "keeps obs (connect host h addr)"
    using silent by (auto simp: set_integral_def set_option_def connect_def silent_sockets_def intro!: silent_call)
  show "keeps obs (poll host items n t)"
    unfolding keeps_def poll_def detail_poll_def
    using new(3) by (auto simp: throw_errno_eq split: prod.split) (metis snd_conv)+
  show close: "keeps obs (socket_close host s)" for s
    using silent by (auto simp: socket_close_def silent_sockets_def intro!: keeps_intros silent_call)
  show "keeps obs (socket_destroy host s)"
    by (auto simp: socket_destroy_def intro!: keeps_intros close)
  have "obs (snd r) = obs w" if "term_loop host ptr w = Some r" for w r
    using that by (rule keeps_term_loop) (use silent in \<open>simp add: silent_sockets_def silent_def\<close>)
  then show "keeps obs (context_close host ptr)"
    unfolding keeps_def context_close_def by (fastforce split: option.split prod.split)
qed

section \<open>A host with queues\<close>

text \<open>A host that queues requests, and records what is sent and what was received.\<close>

record queue_world =
  inbox :: "bytes list"
  outbox :: "bytes list"
  taken :: "bytes list"

definition queue_host :: "queue_world host" where
  "queue_host = (still [] [] [])
     \<lparr>zmq_errno := \<lambda>w. ETERM,
      zmq_send := \<lambda>h b f w. (int (length b), w\<lparr>outbox := outbox w @ [b]\<rparr>),
      zmq_msg_send := \<lambda>m h f w. (int (length (content m)), no_msg, w\<lparr>outbox := outbox w @ [content m]\<rparr>),
      zmq_msg_recv := \<lambda>m h f w.
        (case inbox w of
           [] \<Rightarrow> (- 1, m, w)
         | q # qs \<Rightarrow> (int (length q), \<lparr>content = q, more_flag = False\<rparr>, w\<lparr>inbox := qs, taken := taken w @ [q]\<rparr>))\<rparr>"

lemma queue_histories: "histories queue_host outbox taken"
  by (auto simp: logs_def both_def silent_messages_def silent_sockets_def silent_system_def silent_def queue_host_def
      still_def libzmq.defs calm_def ETERM_def ZMQ_HAUSNUMERO_def EAGAIN_def split: list.splits)

lemma queue_sized: "sized_messages queue_host"
  by (simp add: sized_messages_def queue_host_def still_def libzmq.defs calm_def)

text \<open>The same with one list of events.\<close>

record event_world =
  incoming :: "bytes list"
  trace :: "event list"

definition event_host :: "event_world host" where
  "event_host = (still [] [] [])
     \<lparr>zmq_errno := \<lambda>w. ETERM,
      zmq_send := \<lambda>h b f w. (int (length b), w\<lparr>trace := trace w @ [Sent b]\<rparr>),
      zmq_msg_send := \<lambda>m h f w. (int (length (content m)), no_msg, w\<lparr>trace := trace w @ [Sent (content m)]\<rparr>),
      zmq_msg_recv := \<lambda>m h f w.
        (case incoming w of
           [] \<Rightarrow> (- 1, m, w)
         | q # qs \<Rightarrow> (int (length q), \<lparr>content = q, more_flag = False\<rparr>, w\<lparr>incoming := qs, trace := trace w @ [Received q]\<rparr>))\<rparr>"

lemma event_traced: "traced event_host trace"
  by (auto simp: logs_def add_event_def silent_messages_def silent_sockets_def silent_system_def silent_def event_host_def
      still_def libzmq.defs calm_def ETERM_def ZMQ_HAUSNUMERO_def EAGAIN_def split: list.splits)

lemma event_sized: "sized_messages event_host"
  by (simp add: sized_messages_def event_host_def still_def libzmq.defs calm_def)

end
