(* ===== verification/Server.thy ===== *)
theory Server
  imports Monitor_Json Json_Dump History
begin

text \<open>
  \<open>main.cpp\<close>: start, and the loop that receives a request, dispatches on its text and sends one
  reply. The loop has no exit, so \<open>serve n\<close> is its first \<open>n\<close> passes; an exception ends the
  program. What the loop does is observed through two histories, of the byte strings handed to
  \<open>zmq_send\<close> and of the requests received; \<open>histories\<close> states what the C functions do to them.
\<close>

section \<open>Start\<close>

definition version_text :: "int \<times> int \<times> int \<Rightarrow> string" where
  "version_text v =
     (case v of (i, j, k) \<Rightarrow> dec_str (nat i) @ ''.'' @ dec_str (nat j) @ ''.'' @ dec_str (nat k))"

definition start :: "('w, 'x) host_scheme \<Rightarrow> ('w, nat \<times> socket_t \<times> CPUMonitor) io" where
  "start host =
     thenIO (doIO (log_line host (''RAID monitor server launched. ZMQ version is '' @ version_text (version host))))
     (bindIO (context_new host 1 ZMQ_MAX_SOCKETS_DFLT) (\<lambda>ctx.
      bindIO (socket_new host ctx ZMQ_REP) (\<lambda>sock.
      thenIO (bind host (handle sock) ''tcp://*:20777'')
      (thenIO (assertIO (handle sock \<noteq> 0))
      (thenIO (doIO (log_line host ''bind to port 20777''))
      (bindIO (GetMemory host) (\<lambda>memory.
       bindIO (liftIO (json_dump memory)) (\<lambda>text.
       thenIO (doIO (log_line host (''memory: '' @ text)))
       (bindIO (GetDisk host) (\<lambda>disk.
        bindIO (liftIO (json_dump disk)) (\<lambda>text.
        thenIO (doIO (log_line host (''disk '' @ text)))
        (bindIO (GetCPU host \<lparr>modelName = [], baseClock = []\<rparr>) (\<lambda>(cpu, mon).
         bindIO (liftIO (json_dump cpu)) (\<lambda>text.
         thenIO (doIO (log_line host (''cpu '' @ text)))
         (returnIO (ctx, sock, mon))))))))))))))))"

section \<open>One request\<close>

text \<open>Dump, send, log: the same three statements for each kind of request.\<close>

definition send_json :: "('w, 'x) host_scheme \<Rightarrow> nat \<Rightarrow> string \<Rightarrow> json \<Rightarrow> ('w, unit) io" where
  "send_json host sock tag j =
     bindIO (liftIO (json_dump j)) (\<lambda>text.
     bindIO (send_buffer host sock (view (\<lambda>s. buffer_string s None) text) send_none) (\<lambda>_.
     doIO (log_line host (tag @ ''send data:'' @ text))))"

definition dispatch :: "('w, 'x) host_scheme \<Rightarrow> nat \<Rightarrow> CPUMonitor \<Rightarrow> string \<Rightarrow> ('w, CPUMonitor) io" where
  "dispatch host sock mon request =
     (if request = ''RequestBaseInfo''
      then bindIO (GetInfoByJson host mon) (\<lambda>(j, mon'). thenIO (send_json host sock [] j) (returnIO mon'))
      else if request = ''DisksOverview''
      then bindIO (DiskInfoOverview host) (\<lambda>j. thenIO (send_json host sock ''[DisksOverview]: '' j) (returnIO mon))
      else if request = ''DisksInfo''
      then bindIO (DisksInfo host) (\<lambda>j. thenIO (send_json host sock ''[DisksInfo]: '' j) (returnIO mon))
      else if request = ''DiskIO''
      then bindIO (DisksIO host) (\<lambda>j. thenIO (send_json host sock ''[DiskIO]: '' j) (returnIO mon))
      else thenIO (doIO (log_line host ''Receive invalid request''))
        (bindIO (send_buffer host sock (view (\<lambda>s. buffer_c_array s None) (literal_array ''invalid request'')) send_none)
          (\<lambda>_. returnIO mon)))"

definition serve_one :: "('w, 'x) host_scheme \<Rightarrow> nat \<Rightarrow> CPUMonitor \<Rightarrow> ('w, CPUMonitor) io" where
  "serve_one host sock mon =
     bindIO (message_default host) (\<lambda>request.
     bindIO (recv_message host sock request recv_none) (\<lambda>(_, request).
     thenIO (doIO (log_line host (''Received is '' @ [CHR 0x27] @ to_string request @ [CHR 0x27])))
     (bindIO (dispatch host sock mon (to_string request)) (\<lambda>mon'.
      thenIO (message_destroy host request) (returnIO mon')))))"

fun serve :: "('w, 'x) host_scheme \<Rightarrow> nat \<Rightarrow> nat \<Rightarrow> CPUMonitor \<Rightarrow> ('w, CPUMonitor) io" where
  "serve host sock 0 mon = returnIO mon"
| "serve host sock (Suc n) mon = bindIO (serve_one host sock mon) (serve host sock n)"

definition main :: "('w, 'x) host_scheme \<Rightarrow> nat \<Rightarrow> ('w, CPUMonitor) io" where
  "main host n = bindIO (start host) (\<lambda>(ctx, sock, mon). serve host (handle sock) n mon)"

section \<open>Which reply belongs to a request\<close>

definition requests :: "string list" where
  "requests = [''RequestBaseInfo'', ''DisksOverview'', ''DisksInfo'', ''DiskIO'']"

text \<open>The reply is the dump of a value the monitor's function returned, in some state of the world.\<close>

definition reply_for :: "('w, 'x) host_scheme \<Rightarrow> string \<Rightarrow> bytes \<Rightarrow> bool" where
  "reply_for host request r \<longleftrightarrow>
     (if request = ''RequestBaseInfo''
      then \<exists>mon j mon' w w'. GetInfoByJson host mon w = (Inr (j, mon'), w') \<and> json_dump j = Inr r
      else if request = ''DisksOverview''
      then \<exists>j w w'. DiskInfoOverview host w = (Inr j, w') \<and> json_dump j = Inr r
      else if request = ''DisksInfo''
      then \<exists>j w w'. DisksInfo host w = (Inr j, w') \<and> json_dump j = Inr r
      else if request = ''DiskIO''
      then \<exists>j w w'. DisksIO host w = (Inr j, w') \<and> json_dump j = Inr r
      else r = ''invalid request'' @ [CHR 0x00])"

lemma keeps_json:
  assumes "histories host sent received"
  shows "keeps (both sent received) (GetInfoByJson host mon)"
    and "keeps (both sent received) (DiskInfoOverview host)"
    and "keeps (both sent received) (DisksInfo host)"
    and "keeps (both sent received) (DisksIO host)"
  by (auto simp: GetInfoByJson_def GetCPU_def GetMemory_def GetDisk_def DiskInfoOverview_def DisksInfo_def
      DisksIO_def Let_def intro!: keeps_intros keeps_monitor_reads [OF assms])

lemma send_json_history:
  assumes "histories host sent received" "send_json host sock tag j w = (res, w')"
  shows "(sent w' = sent w \<or> (\<exists>r. json_dump j = Inr r \<and> sent w' = sent w @ [r])) \<and> received w' = received w \<and>
         (res \<noteq> Inr () \<or> (\<exists>r. json_dump j = Inr r \<and> sent w' = sent w @ [r]))"
proof (cases "json_dump j")
  case (Inl e)
  then show ?thesis using assms(2) by (auto simp: send_json_def bindIO_def)
next
  case (Inr t)
  obtain r1 w1 where s: "send_buffer host sock t send_none w = (r1, w1)" by (meson surj_pair)
  note h = send_buffer_history [OF assms(1) s]
  show ?thesis
  proof (cases r1)
    case (Inl e)
    with s h Inr assms(2) show ?thesis by (auto simp: send_json_def bindIO_def view_string)
  next
    case (Inr u)
    then have "w' = log_line host (tag @ ''send data:'' @ t) w1 \<and> res = Inr ()"
      using s assms(2) \<open>json_dump j = Inr t\<close> by (auto simp: send_json_def bindIO_def view_string)
    moreover have "sent (log_line host u w1) = sent w1 \<and> received (log_line host u w1) = received w1" for u
      using keeps_both [OF keeps_log(1) [OF assms(1)], of u w1] by simp
    ultimately show ?thesis using h \<open>json_dump j = Inr t\<close> by auto
  qed
qed

text \<open>A branch of the dispatch: a value is computed, sent and logged.\<close>

lemma branch_history:
  assumes hist: "histories host sent received"
    and keeps: "keeps (both sent received) m"
    and run: "bindIO m (\<lambda>x. thenIO (send_json host sock tag (f x)) (returnIO (g x))) w = (res, w')"
  shows "received w' = received w \<and>
         (sent w' = sent w \<and> (\<forall>y. res \<noteq> Inr y) \<or>
          (\<exists>x w1 r. m w = (Inr x, w1) \<and> json_dump (f x) = Inr r \<and> sent w' = sent w @ [r]))"
proof (cases "m w")
  case (Pair r1 w1)
  note k = keeps_both [OF keeps Pair]
  show ?thesis
  proof (cases r1)
    case (Inl e)
    with Pair k run show ?thesis by (auto simp: bindIO_def)
  next
    case (Inr x)
    obtain r2 w2 where s: "send_json host sock tag (f x) w1 = (r2, w2)" by (meson surj_pair)
    have "w2 = w' \<and> (\<forall>y. res = Inr y \<longrightarrow> r2 = Inr ())"
      using Pair Inr s run by (auto simp: bindIO_def thenIO_def split: sum.splits)
    with send_json_history [OF hist s] k Pair Inr show ?thesis by fastforce
  qed
qed

lemma dispatch_history:
  assumes hist: "histories host sent received" and run: "dispatch host sock mon request w = (res, w')"
  shows "received w' = received w \<and>
         (sent w' = sent w \<and> (\<forall>y. res \<noteq> Inr y) \<or> (\<exists>r. sent w' = sent w @ [r] \<and> reply_for host request r))"
proof -
  note branch = branch_history [OF hist]
  consider (base) "request = ''RequestBaseInfo''" | (overview) "request = ''DisksOverview''"
    | (info) "request = ''DisksInfo''" | (rates) "request = ''DiskIO''" | (other) "request \<notin> set requests"
    by (auto simp: requests_def)
  then show ?thesis
  proof cases
    case base
    have "bindIO (GetInfoByJson host mon) (\<lambda>x. thenIO (send_json host sock [] (fst x)) (returnIO (snd x))) w = (res, w')"
      using run base by (simp add: dispatch_def case_prod_unfold)
    from branch [OF keeps_json(1) [OF hist] this] base show ?thesis by (fastforce simp: reply_for_def)
  next
    case overview
    with run have "bindIO (DiskInfoOverview host) (\<lambda>x. thenIO (send_json host sock ''[DisksOverview]: '' x) (returnIO mon)) w = (res, w')"
      by (simp add: dispatch_def)
    from branch [OF keeps_json(2) [OF hist] this] overview show ?thesis by (fastforce simp: reply_for_def)
  next
    case info
    with run have "bindIO (DisksInfo host) (\<lambda>x. thenIO (send_json host sock ''[DisksInfo]: '' x) (returnIO mon)) w = (res, w')"
      by (simp add: dispatch_def)
    from branch [OF keeps_json(3) [OF hist] this] info show ?thesis by (fastforce simp: reply_for_def)
  next
    case rates
    with run have "bindIO (DisksIO host) (\<lambda>x. thenIO (send_json host sock ''[DiskIO]: '' x) (returnIO mon)) w = (res, w')"
      by (simp add: dispatch_def)
    from branch [OF keeps_json(4) [OF hist] this] rates show ?thesis by (fastforce simp: reply_for_def)
  next
    case other
    let ?reply = "''invalid request'' @ [CHR 0x00]" and ?w = "log_line host ''Receive invalid request'' w"
    obtain r1 w1 where s: "send_buffer host sock ?reply send_none ?w = (r1, w1)" by (meson surj_pair)
    have "w1 = w'"
      using run other s by (auto simp: dispatch_def requests_def thenIO_def bindIO_def view_c_array literal_array_def
          split: sum.splits)
    moreover have "sent ?w = sent w \<and> received ?w = received w"
      using keeps_both [OF keeps_log(1) [OF hist], of _ w] by simp
    moreover have "reply_for host request ?reply" using other by (simp add: reply_for_def requests_def)
    ultimately show ?thesis using send_buffer_history [OF hist s] by auto
  qed
qed

section \<open>One reply for each request\<close>

lemma serve_one_history:
  assumes hist: "histories host sent received" and run: "serve_one host sock mon w = (res, w')"
  shows "sent w' = sent w \<and> received w' = received w \<and> (\<forall>y. res \<noteq> Inr y) \<or>
         (\<exists>q. received w' = received w @ [q] \<and>
           (sent w' = sent w \<and> (\<forall>y. res \<noteq> Inr y) \<or> (\<exists>r. sent w' = sent w @ [r] \<and> reply_for host q r)))"
proof (cases "message_default host w")
  case (Pair r1 w1)
  note k1 = keeps_both [OF keeps_message_ops(1) [OF hist] Pair]
  show ?thesis
  proof (cases r1)
    case (Inl e)
    with Pair run k1 show ?thesis by (auto simp: serve_one_def bindIO_def)
  next
    case (Inr m)
    obtain r2 w2 where recv: "recv_message host sock m recv_none w1 = (r2, w2)" by (meson surj_pair)
    note k2 = recv_message_history [OF hist recv]
    show ?thesis
    proof (cases r2)
      case (Inl e)
      with Pair Inr recv run k1 k2 show ?thesis by (auto simp: serve_one_def bindIO_def)
    next
      case (Inr nm)
      obtain n q where nm: "nm = (n, q)" by (cases nm)
      let ?w3 = "log_line host (''Received is '' @ [CHR 0x27] @ to_string q @ [CHR 0x27]) w2"
      obtain r4 w4 where d: "dispatch host sock mon (to_string q) ?w3 = (r4, w4)" by (meson surj_pair)
      have k3: "sent ?w3 = sent w2 \<and> received ?w3 = received w2"
        using keeps_both [OF keeps_log(1) [OF hist], of _ w2] by simp
      note k4 = dispatch_history [OF hist d]
      have fin: "sent w' = sent w4 \<and> received w' = received w4 \<and> ((\<forall>y. r4 \<noteq> Inr y) \<longrightarrow> (\<forall>y. res \<noteq> Inr y))"
      proof (cases r4)
        case (Inl e)
        with run Pair \<open>r1 = Inr m\<close> recv Inr nm d show ?thesis
          by (auto simp: serve_one_def bindIO_def thenIO_def)
      next
        case (Inr mon')
        obtain r5 w5 where "message_destroy host q w4 = (r5, w5)" by (meson surj_pair)
        moreover from this have "w5 = w'"
          using run Pair \<open>r1 = Inr m\<close> recv \<open>r2 = Inr nm\<close> nm d Inr
          by (auto simp: serve_one_def bindIO_def thenIO_def split: sum.splits)
        ultimately show ?thesis using keeps_both [OF keeps_message_ops(2) [OF hist]] Inr by auto
      qed
      have "received w2 = received w @ [content q]" "sent w2 = sent w" using k1 k2 Inr nm by simp_all
      with k3 k4 fin show ?thesis by (auto simp: to_string_content)
    qed
  qed
qed

lemma serve_history:
  assumes hist: "histories host sent received"
  shows "serve host sock n mon w = (res, w') \<Longrightarrow>
    \<exists>qs rs. received w' = received w @ qs \<and> sent w' = sent w @ rs \<and>
      list_all2 (reply_for host) (take (length rs) qs) rs \<and> length rs \<le> length qs \<and> length qs \<le> length rs + 1 \<and>
      length qs \<le> n \<and> ((\<exists>mon'. res = Inr mon') \<longrightarrow> length rs = n)"
proof (induction n arbitrary: mon w)
  case (Suc n)
  obtain r1 w1 where one: "serve_one host sock mon w = (r1, w1)" by (meson surj_pair)
  note h = serve_one_history [OF hist one]
  show ?case
  proof (cases r1)
    case (Inl e)
    with one Suc.prems have "w' = w1" "\<forall>mon'. res \<noteq> Inr mon'" by (auto simp: bindIO_def)
    with h Inl show ?thesis
    proof (elim disjE exE conjE)
      fix q r assume "received w1 = received w @ [q]" "sent w1 = sent w @ [r]" "reply_for host q r"
      with \<open>w' = w1\<close> \<open>\<forall>mon'. res \<noteq> Inr mon'\<close> show ?thesis
        by (intro exI [of _ "[q]"] exI [of _ "[r]"]) simp
    next
      fix q assume "received w1 = received w @ [q]" "sent w1 = sent w"
      with \<open>w' = w1\<close> \<open>\<forall>mon'. res \<noteq> Inr mon'\<close> show ?thesis
        by (intro exI [of _ "[q]"] exI [of _ "[]"]) simp
    qed auto
  next
    case (Inr mon1)
    with one Suc.prems have "serve host sock n mon1 w1 = (res, w')" by (simp add: bindIO_def)
    from Suc.IH [OF this] obtain qs rs where rest: "received w' = received w1 @ qs" "sent w' = sent w1 @ rs"
      "list_all2 (reply_for host) (take (length rs) qs) rs" "length rs \<le> length qs" "length qs \<le> length rs + 1"
      "length qs \<le> n" "(\<exists>mon'. res = Inr mon') \<longrightarrow> length rs = n" by blast
    from h Inr obtain q r where "received w1 = received w @ [q]" "sent w1 = sent w @ [r]" "reply_for host q r"
      by blast
    with rest show ?thesis by (intro exI [of _ "q # qs"] exI [of _ "r # rs"]) simp
  qed
qed auto

text \<open>C1: the server answers requests one by one, in order. In any number of passes of its loop the
  replies handed to libzmq are as many as the requests received, except that the request at which
  the program dies may stay unanswered; and each reply belongs to its request: the dump of the
  value the monitor's function returned, or, for a text that is no known request, the sixteen
  bytes of \<open>invalid request\<close> with a terminating zero.\<close>

theorem one_reply_per_request:
  assumes "histories host sent received" "serve host sock n mon w = (res, w')"
  shows "\<exists>qs rs. received w' = received w @ qs \<and> sent w' = sent w @ rs \<and>
      list_all2 (reply_for host) (take (length rs) qs) rs \<and> length rs \<le> length qs \<and> length qs \<le> length rs + 1 \<and>
      ((\<exists>mon'. res = Inr mon') \<longrightarrow> length rs = n \<and> length qs = n)"
  using serve_history [OF assms] by (metis le_antisym)

lemma queue_serves:
  "serve queue_host 1 1 mon \<lparr>inbox = [''hello''], outbox = [], taken = []\<rparr> =
   (Inr mon, \<lparr>inbox = [], outbox = [''invalid request'' @ [CHR 0x00]], taken = [''hello'']\<rparr>)"
  by (simp add: serve_one_def message_default_def recv_message_def dispatch_def message_destroy_def send_buffer_def
      nbytes_result_def bindIO_def thenIO_def assert_call_def plain_def assertIO_def queue_host_def still_def
      libzmq.defs calm_def to_string_def msg_size_def view_c_array literal_array_def no_msg_def)

theorem one_reply_per_request_witness:
  "list_all2 (reply_for queue_host) [''hello''] [''invalid request'' @ [CHR 0x00]]"
  using one_reply_per_request [OF queue_histories queue_serves] by auto

end
