(* ===== verification/Answers.thy ===== *)
theory Answers
  imports Server Json_Roundtrip
begin

text \<open>
  The server on a host whose files can be read: the values the monitor builds are dumped, whatever
  the numbers are, exactly when the names in them are UTF-8 text, and then requests are answered with
  JSON text until one asks for rates that the disk thread has not stored yet; and what a name that is not
  text does to the server.
\<close>

section \<open>The values of the replies\<close>

definition binary64 :: "double \<Rightarrow> bool" where
  "binary64 d \<longleftrightarrow> dfinite d \<longrightarrow> finite_double d"

lemma binary64_to_double [simp]: "binary64 (to_double x)"
  by (simp add: binary64_def to_double_def finite_double_def Let_def representable_round)

lemma binary64_special [simp]: "binary64 (DInf s)" "binary64 (DNaN s)" "binary64 DNegZero" "binary64 default_nan"
  by (simp_all add: binary64_def finite_double_def default_nan_def)

lemma binary64_zero [simp]: "binary64 (DFin 0)" "binary64 (signed_zero s)"
  by (simp_all add: signed_zero_def binary64_def finite_double_def)

lemma binary64_add [simp]: "binary64 (dadd a b)"
  by (cases "(a, b)" rule: dadd.cases) simp_all

lemma binary64_div [simp]: "binary64 (ddiv a b)"
  by (cases "(a, b)" rule: ddiv.cases) simp_all

lemma json_doubles_float [simp]: "json_doubles (JFloat d) \<longleftrightarrow> binary64 d"
  by (simp add: binary64_def)

lemma binary64_sum: "binary64 (foldl (\<lambda>total it. dadd total (f it)) (DFin 0) its)"
  by (cases its rule: rev_cases) simp_all

lemma ascii_text: "\<forall>c\<in>set s. of_char c < (128 :: nat) \<Longrightarrow> utf8_text s"
proof -
  assume a: "\<forall>c\<in>set s. of_char c < (128 :: nat)"
  then have "\<forall>x\<in>set (map of_char s). scalar_value x" "s = text_of (map of_char s)"
    by (induction s) (auto simp: scalar_value_def text_of_def utf8_chars_def utf8_encode_def)
  then show ?thesis unfolding utf8_text_iff by blast
qed

lemma ascii_digit: "is_digit c \<Longrightarrow> of_char c < (128 :: nat)"
  by (auto simp: is_digit_def)

lemma ascii_fixed: "\<forall>c\<in>set (fmt_fixed p d). of_char c < (128 :: nat)"
  by (auto simp: fmt_fixed_def fixed_digits_def ascii_digit dest!: dec_str_digits dec_pad_digits dest: ascii_digit)

lemma utf8_keys [simp]:
  "utf8_text ''cpu''" "utf8_text ''memory''" "utf8_text ''baseClock''" "utf8_text ''modelName''" "utf8_text ''usage''"
  "utf8_text ''total''" "utf8_text ''unused''" "utf8_text ''used''" "utf8_text ''name''" "utf8_text ''diskCapacity''"
  "utf8_text ''diskPosition''" "utf8_text ''diskSpace''" "utf8_text ''diskState''" "utf8_text ''enable''"
  "utf8_text ''testProgress''" "utf8_text ''testResult''" "utf8_text ''data''" "utf8_text ''list''"
  "utf8_text ''lastCount''" "utf8_text ''useCount''" "utf8_text ''readIo''" "utf8_text ''writeIo''"
  by (rule ascii_text, simp)+

lemma utf8_disk_key [simp]: "utf8_text (disk_key i)"
  by (rule ascii_text) (auto simp: disk_key_def dest!: dec_str_digits dest: ascii_digit)

lemma utf8_fixed [simp]: "utf8_text (fmt_fixed p d)" "utf8_text (CHR '' '' # fmt_fixed p d)"
  by (rule ascii_text, simp add: ascii_fixed)+

lemma entry_doubles [simp]:
  "json_doubles (cpu_entry m c u)" "json_doubles (memory_entry t n r)" "json_doubles (disk_entry it)"
  "json_doubles (list_entry it)"
  by (simp_all add: cpu_entry_def memory_entry_def disk_entry_def list_entry_def del: json_doubles.simps(3))

lemma entry_utf8 [simp]:
  "json_utf8 (cpu_entry m c u) \<longleftrightarrow> utf8_text m \<and> utf8_text c \<and> utf8_text u"
  "json_utf8 (memory_entry t n r) \<longleftrightarrow> utf8_text r"
  "json_utf8 (disk_entry it) \<longleftrightarrow> utf8_text (mounted it)"
  "json_utf8 (list_entry it) \<longleftrightarrow> utf8_text (mounted it)"
  by (auto simp: cpu_entry_def memory_entry_def disk_entry_def list_entry_def)

text \<open>The members of the reply to \<open>RequestBaseInfo\<close>, as \<open>base_info_reply\<close> gives them.\<close>

lemma base_members:
  assumes "members_sorted m" "fst ` set m = {''cpu'', ''memory''} \<union> disk_key ` {..<length disks}"
    and "member_find ''cpu'' m = Some c" "member_find ''memory'' m = Some e"
    and "\<forall>i<length disks. member_find (disk_key i) m = Some (disk_entry (disks ! i))"
  shows "json_doubles (JObject m) \<longleftrightarrow> json_doubles c \<and> json_doubles e"
    and "json_utf8 (JObject m) \<longleftrightarrow> json_utf8 c \<and> json_utf8 e \<and> (\<forall>it\<in>set disks. utf8_text (mounted it))"
proof -
  have find: "(k, v) \<in> set m \<longleftrightarrow> member_find k m = Some v" for k v
    using member_find_map_of [OF assms(1)] sorted_distinct [OF assms(1)] by simp
  have keys: "k \<in> {''cpu'', ''memory''} \<union> disk_key ` {..<length disks}" if "(k, v) \<in> set m" for k v
    using that assms(2) by force
  have set: "set m = {(''cpu'', c), (''memory'', e)} \<union> (\<lambda>i. (disk_key i, disk_entry (disks ! i))) ` {..<length disks}"
  proof (rule set_eqI, clarify)
    fix k v
    consider "k = ''cpu''" | "k = ''memory''" | i where "k = disk_key i" "i < length disks"
      | "k \<notin> {''cpu'', ''memory''} \<union> disk_key ` {..<length disks}" by blast
    then show "(k, v) \<in> set m \<longleftrightarrow> (k, v) \<in> {(''cpu'', c), (''memory'', e)} \<union> (\<lambda>i. (disk_key i, disk_entry (disks ! i))) ` {..<length disks}"
    proof cases
      case 4
      then show ?thesis using keys by auto
    qed (use find assms(3-5) disk_key_other [symmetric] in auto)
  qed
  show "json_doubles (JObject m) \<longleftrightarrow> json_doubles c \<and> json_doubles e" by (auto simp: set)
  show "json_utf8 (JObject m) \<longleftrightarrow> json_utf8 c \<and> json_utf8 e \<and> (\<forall>it\<in>set disks. utf8_text (mounted it))"
    by (force simp: set in_set_conv_nth ball_Un)
qed

text \<open>What the reads return when the monitor's functions return.\<close>

lemma base_reply_values:
  assumes "GetInfoByJson host mon w = (Inr (j, mon'), w')"
  obtains model clock usage ratio disks mon1 w1 w2 w3 w4 w5 w6 where
    "model_name_io host mon w = (Inr (model, mon1), w1)" "base_clock_io host mon1 w1 = (Inr (clock, mon'), w2)"
    "cpu_usage_io host w2 = (Inr usage, w3)" "memory_usage_io host w5 = (Inr ratio, w6)"
    "disks_io host w6 = (Inr disks, w')" "json_doubles j"
    "json_utf8 j \<longleftrightarrow> disks = [] \<or> utf8_text model \<and> utf8_text clock \<and> utf8_text usage \<and> utf8_text ratio \<and> (\<forall>it\<in>set disks. utf8_text (mounted it))"
proof -
  from assms obtain model mon1 clock mon2 usage tot unused ratio disks w1 w2 w3 w4 w5 w6 w7 where
    r: "model_name_io host mon w = (Inr (model, mon1), w1)" "base_clock_io host mon1 w1 = (Inr (clock, mon2), w2)"
      "cpu_usage_io host w2 = (Inr usage, w3)" "memory_total_io host w3 = (Inr tot, w4)"
      "memory_unused_io host w4 = (Inr unused, w5)" "memory_usage_io host w5 = (Inr ratio, w6)"
      "disks_io host w6 = (Inr disks, w7)"
    by (auto simp: GetInfoByJson_def GetCPU_def GetMemory_def GetDisk_def bindIO_Inr Let_def)
  note info = base_info_reply [OF r]
  show thesis
  proof (cases "disks = []")
    case True
    with info assms have "j = JNull" "mon2 = mon'" "w7 = w'" by simp_all
    with r True show thesis using that by simp
  next
    case False
    with info assms obtain m where m: "j = JObject m" "mon2 = mon'" "w7 = w'" "members_sorted m"
      "fst ` set m = {''cpu'', ''memory''} \<union> disk_key ` {..<length disks}"
      "member_find ''cpu'' m = Some (cpu_entry model clock usage)"
      "member_find ''memory'' m = Some (memory_entry tot unused ratio)"
      "\<forall>i<length disks. member_find (disk_key i) m = Some (disk_entry (disks ! i))" by auto
    from r m False show thesis using base_members [OF m(4-8)] that by simp
  qed
qed

lemma total_binary64: "disk_total_io host w = (Inr d, w') \<Longrightarrow> binary64 d"
  by (auto simp: monitor_io_defs bindIO_Inr DiskTotalByDf_def mapE_eq_Inr binary64_sum)

lemma used_binary64: "disk_used_io host w = (Inr d, w') \<Longrightarrow> binary64 d"
  by (auto simp: monitor_io_defs bindIO_Inr DiskUsedByDf_def mapE_eq_Inr binary64_sum)

lemma disk_reply_cases:
  "DisksInfo host w = (Inr j, w') \<Longrightarrow> \<exists>disks w1. disks_io host w = (Inr disks, w1) \<and> json_doubles j \<and>
     (json_utf8 j \<longleftrightarrow> (\<forall>it\<in>set disks. utf8_text (mounted it)))"
  "DiskInfoOverview host w = (Inr j, w') \<Longrightarrow> json_doubles j \<and> json_utf8 j"
  "DisksIO host w = (Inr j, w') \<Longrightarrow> \<exists>r wr w1. disk_rates_io host w = (Inr (r, wr), w1) \<and>
     (json_doubles j \<longleftrightarrow> binary64 r \<and> binary64 wr) \<and> json_utf8 j"
proof -
  assume "DisksInfo host w = (Inr j, w')"
  moreover from this obtain disks w1 total w2 where r: "disks_io host w = (Inr disks, w1)" "disk_total_io host w1 = (Inr total, w2)"
    by (auto simp: DisksInfo_def bindIO_Inr)
  moreover have "binary64 total" using total_binary64 [OF r(2)] .
  ultimately show "\<exists>disks w1. disks_io host w = (Inr disks, w1) \<and> json_doubles j \<and>
     (json_utf8 j \<longleftrightarrow> (\<forall>it\<in>set disks. utf8_text (mounted it)))"
    by (auto simp: disks_info_value [OF r] simp del: json_doubles.simps(3) split: if_splits)
next
  assume "DiskInfoOverview host w = (Inr j, w')"
  moreover from this obtain total w1 used' w2 where r: "disk_total_io host w = (Inr total, w1)" "disk_used_io host w1 = (Inr used', w2)"
    by (auto simp: DiskInfoOverview_def bindIO_Inr)
  moreover have "binary64 total" "binary64 used'" using total_binary64 [OF r(1)] used_binary64 [OF r(2)] by simp_all
  ultimately show "json_doubles j \<and> json_utf8 j"
    by (auto simp: overview_value [OF r] simp del: json_doubles.simps(3))
next
  assume "DisksIO host w = (Inr j, w')"
  moreover from this obtain r wr w1 where r: "disk_rates_io host w = (Inr (r, wr), w1)"
    by (auto simp: DisksIO_def bindIO_Inr)
  ultimately show "\<exists>r wr w1. disk_rates_io host w = (Inr (r, wr), w1) \<and>
     (json_doubles j \<longleftrightarrow> binary64 r \<and> binary64 wr) \<and> json_utf8 j"
    by (auto simp: disks_rates_value [OF r] simp del: json_doubles.simps(3))
qed

section \<open>Computations that return\<close>

text \<open>\<open>succeeds m Q\<close>: in every state of the world \<open>m\<close> returns, with a value that satisfies \<open>Q\<close>.\<close>

definition succeeds :: "('w, 'a) io \<Rightarrow> ('a \<Rightarrow> bool) \<Rightarrow> bool" where
  "succeeds m Q \<longleftrightarrow> (\<forall>w. \<exists>x w'. m w = (Inr x, w') \<and> Q x)"

lemma succeeds_bind: "succeeds m P \<Longrightarrow> (\<And>x. P x \<Longrightarrow> succeeds (f x) Q) \<Longrightarrow> succeeds (bindIO m f) Q"
  unfolding succeeds_def by (metis bindIO_simps(2))

lemma succeeds_then: "succeeds m P \<Longrightarrow> succeeds n Q \<Longrightarrow> succeeds (thenIO m n) Q"
  unfolding thenIO_def by (rule succeeds_bind)

lemma succeeds_return: "Q x \<Longrightarrow> succeeds (returnIO x) Q"
  by (simp add: succeeds_def)

lemma succeeds_do: "Q () \<Longrightarrow> succeeds (doIO f) Q"
  by (simp add: succeeds_def)

lemma succeeds_lift: "r = Inr x \<Longrightarrow> Q x \<Longrightarrow> succeeds (liftIO r) Q"
  by (simp add: succeeds_def)

lemma succeeds_read: "(\<And>w. Q (fst (g w))) \<Longrightarrow> succeeds (readIO g) Q"
  unfolding succeeds_def readIO_def by (metis fst_conv prod.case surj_pair)

lemma succeeds_mono: "succeeds m P \<Longrightarrow> (\<And>x. P x \<Longrightarrow> Q x) \<Longrightarrow> succeeds m Q"
  unfolding succeeds_def by blast

lemma succeeds_call: "(\<And>w. fst (f w) = 0) \<Longrightarrow> succeeds (call lib (plain f)) (\<lambda>_. True)"
  "(\<And>w. fst (f w) = 0) \<Longrightarrow> succeeds (assert_call (plain f)) (\<lambda>_. True)"
  unfolding succeeds_def call_def assert_call_def plain_def by (simp_all add: case_prod_unfold)

section \<open>A host that works\<close>

text \<open>The calls of libzmq that the server makes succeed.\<close>

definition willing :: "('w, 'x) host_scheme \<Rightarrow> bool" where
  "willing host \<longleftrightarrow>
     (\<forall>w. fst (zmq_ctx_new host w) \<noteq> 0) \<and> (\<forall>c p v w. fst (zmq_ctx_set host c p v w) = 0) \<and>
     (\<forall>c t w. fst (zmq_socket host c t w) \<noteq> 0) \<and> (\<forall>h a w. fst (zmq_bind host h a w) = 0) \<and>
     (\<forall>w. fst (zmq_msg_init host w) = 0) \<and> (\<forall>m w. fst (zmq_msg_close host m w) = 0) \<and>
     (\<forall>m h w. 0 \<le> fst (zmq_msg_recv host m h recv_none w)) \<and> (\<forall>h b f w. 0 \<le> fst (zmq_send host h b f w))"

text \<open>The files can be parsed, the names in them are UTF-8 text, and the rates of the disk thread, when
  there are any, are binary64 numbers. It is not assumed that the thread has stored its first rates.\<close>

definition readable_host :: "('w, 'x) host_scheme \<Rightarrow> bool" where
  "readable_host host \<longleftrightarrow>
     (\<forall>w. \<exists>n c. GetCPUModelNameAndBaseClock (fst (read_cpuinfo host w)) = Inr (n, c) \<and> utf8_text n \<and> utf8_text c) \<and>
     (\<forall>w. \<exists>m. GetMemoryInfo (fst (read_meminfo host w)) = Inr m) \<and>
     (\<forall>w. \<exists>ds. DiskInfoByDf (fst (run_df host w)) = Inr ds \<and> (\<forall>d\<in>set ds. utf8_text (mounted d))) \<and>
     (\<forall>w r. diskReadIO (fst (disk_object host w)) = Some r \<longrightarrow> binary64 r) \<and>
     (\<forall>w r. diskWriteIO (fst (disk_object host w)) = Some r \<longrightarrow> binary64 r)"

text \<open>The thread has stored its first rates before any load.\<close>

definition rates_stored :: "('w, 'x) host_scheme \<Rightarrow> bool" where
  "rates_stored host \<longleftrightarrow>
     (\<forall>w. diskReadIO (fst (disk_object host w)) \<noteq> None \<and> diskWriteIO (fst (disk_object host w)) \<noteq> None)"

text \<open>What the processor monitor has cached is text too.\<close>

definition cached_text :: "CPUMonitor \<Rightarrow> bool" where
  "cached_text mon \<longleftrightarrow> utf8_text (modelName mon) \<and> utf8_text (baseClock mon)"

lemma reads_succeed:
  assumes "readable_host host"
  shows "cached_text mon \<Longrightarrow> succeeds (model_name_io host mon) (\<lambda>(s, mon'). utf8_text s \<and> cached_text mon')"
    and "cached_text mon \<Longrightarrow> succeeds (base_clock_io host mon) (\<lambda>(s, mon'). utf8_text s \<and> cached_text mon')"
    and "succeeds (cpu_usage_io host) utf8_text"
    and "succeeds (memory_total_io host) (\<lambda>_. True)"
    and "succeeds (memory_unused_io host) (\<lambda>_. True)"
    and "succeeds (memory_usage_io host) utf8_text"
    and "succeeds (disks_io host) (\<lambda>ds. \<forall>d\<in>set ds. utf8_text (mounted d))"
    and "succeeds (disk_total_io host) (\<lambda>_. True)"
    and "succeeds (disk_used_io host) (\<lambda>_. True)"
proof -
  note h = assms [unfolded readable_host_def]
  have cpu: "succeeds (readIO (read_cpuinfo host)) (\<lambda>f. \<exists>n c. GetCPUModelNameAndBaseClock f = Inr (n, c) \<and> utf8_text n \<and> utf8_text c)"
    by (rule succeeds_read) (use h in blast)
  have mem: "succeeds (readIO (read_meminfo host)) (\<lambda>f. \<exists>m. GetMemoryInfo f = Inr m)"
    by (rule succeeds_read) (use h in blast)
  have df: "succeeds (readIO (run_df host)) (\<lambda>f. \<exists>ds. DiskInfoByDf f = Inr ds \<and> (\<forall>d\<in>set ds. utf8_text (mounted d)))"
    by (rule succeeds_read) (use h in blast)
  show "succeeds (model_name_io host mon) (\<lambda>(s, mon'). utf8_text s \<and> cached_text mon')" if "cached_text mon"
    unfolding model_name_io_def using that
    by (auto simp: GetCPUModelName_def cached_text_def intro!: succeeds_bind [OF cpu] succeeds_lift split: if_splits)
  show "succeeds (base_clock_io host mon) (\<lambda>(s, mon'). utf8_text s \<and> cached_text mon')" if "cached_text mon"
    unfolding base_clock_io_def using that
    by (auto simp: GetCpuBaseClock_def cached_text_def intro!: succeeds_bind [OF cpu] succeeds_lift split: if_splits)
  show "succeeds (cpu_usage_io host) utf8_text"
    unfolding cpu_usage_io_def
    by (auto simp: GetCpuUsage_def intro!: succeeds_bind [OF succeeds_read [of "\<lambda>_. True"]] succeeds_return)
  show "succeeds (memory_total_io host) (\<lambda>_. True)" "succeeds (memory_unused_io host) (\<lambda>_. True)"
    "succeeds (memory_usage_io host) utf8_text"
    unfolding monitor_io_defs
    by (auto simp: GetMemoryTotal_def priv_GetMemoryTotal_def GetMemoryUnused_def priv_GetMemoryUnused_def
        GetMemoryUsage_def priv_GetMemoryUsage_def intro!: succeeds_bind [OF mem] succeeds_lift)
  show "succeeds (disks_io host) (\<lambda>ds. \<forall>d\<in>set ds. utf8_text (mounted d))"
    "succeeds (disk_total_io host) (\<lambda>_. True)" "succeeds (disk_used_io host) (\<lambda>_. True)"
    unfolding monitor_io_defs
    by (auto simp: GetDisksByDf_def DiskTotalByDf_def DiskUsedByDf_def intro!: succeeds_bind [OF df] succeeds_lift)
qed

text \<open>The rates are read, or a member that no thread has stored yet.\<close>

lemma rates_read:
  assumes "readable_host host" "disk_rates_io host w = (x, w')"
  shows "case x of Inr (r, wr) \<Rightarrow> binary64 r \<and> binary64 wr | Inl e \<Rightarrow> e = Uninit_Read \<and> \<not> rates_stored host"
proof -
  obtain s w1 t w2 where l: "disk_object host w = (s, w1)" "disk_object host w1 = (t, w2)" by (meson surj_pair)
  then have "GetDiskIO s t = x" using assms(2) by (simp add: disk_rates_io_def bindIO_simps readIO_eq liftIO_def)
  moreover have "fst (disk_object host w) = s" "fst (disk_object host w1) = t" using l by simp_all
  ultimately show ?thesis
    using assms(1) unfolding readable_host_def rates_stored_def GetDiskIO_def
    by (auto split: option.splits) metis+
qed

lemma succeedsD: "succeeds m Q \<Longrightarrow> m w = (Inr x, w') \<Longrightarrow> Q x"
  unfolding succeeds_def by (metis Inr_inject Pair_inject)

lemma succeedsE:
  assumes "succeeds m Q"
  obtains x w' where "m w = (Inr x, w')" "Q x"
  using assms unfolding succeeds_def by blast

abbreviation dumpable :: "json \<Rightarrow> bool" where
  "dumpable j \<equiv> json_doubles j \<and> json_utf8 j"

lemma find_dumpable:
  "members_sorted m \<Longrightarrow> (\<And>k v. member_find k m = Some v \<Longrightarrow> utf8_text k \<and> dumpable v) \<Longrightarrow> dumpable (JObject m)"
  using member_find_map_of [of m] sorted_distinct [of m] by (auto intro: map_of_is_SomeI)

lemma disk_loop_dumpable:
  assumes "\<forall>d\<in>set ds. utf8_text (mounted d)"
  shows "\<exists>j. disk_loop 0 ds JNull = Inr j \<and> dumpable j"
proof (cases "ds = []")
  case False
  from disk_loop_object [of "[]" 0 ds] obtain m where
    m: "disk_loop 0 ds (JObject []) = Inr (JObject m)" "members_sorted m"
      "\<And>i. i < length ds \<Longrightarrow> member_find (disk_key i) m = Some (disk_entry (ds ! i))"
      "\<And>k. (\<And>i. i < length ds \<Longrightarrow> k \<noteq> disk_key i) \<Longrightarrow> member_find k m = None" by auto
  have "utf8_text k \<and> dumpable v" if "member_find k m = Some v" for k v
  proof -
    from that m(4) [of k] obtain i where "i < length ds" "k = disk_key i" by fastforce
    with that m(3) assms show ?thesis by auto
  qed
  then have "dumpable (JObject m)" by (rule find_dumpable [OF m(2)])
  with m(1) False show ?thesis by (simp add: disk_loop_null)
qed simp

lemma start_values:
  assumes "readable_host host"
  shows "succeeds (GetMemory host) dumpable" "succeeds (GetDisk host) dumpable"
    and "cached_text mon \<Longrightarrow> succeeds (GetCPU host mon) (\<lambda>(j, mon'). dumpable j \<and> cached_text mon')"
proof -
  note r = reads_succeed [OF assms]
  show "succeeds (GetMemory host) dumpable"
    unfolding GetMemory_def
    by (rule succeeds_bind [OF r(4)], rule succeeds_bind [OF r(5)], rule succeeds_bind [OF r(6)])
      (simp add: memory_entry_braces assign_key_null succeeds_lift)
  show "succeeds (GetDisk host) dumpable"
    unfolding GetDisk_def
    by (rule succeeds_bind [OF r(7)]) (use disk_loop_dumpable in \<open>blast intro: succeeds_lift\<close>)
  show "succeeds (GetCPU host mon) (\<lambda>(j, mon'). dumpable j \<and> cached_text mon')" if "cached_text mon"
    unfolding GetCPU_def
    by (rule succeeds_bind [OF r(1) [OF that]], clarify, rule succeeds_bind [OF r(2)], assumption, clarify,
        rule succeeds_bind [OF r(3)]) (simp add: cpu_entry_braces assign_key_null succeeds_lift)
qed

lemma base_succeeds:
  assumes "readable_host host" "cached_text mon"
  shows "succeeds (GetInfoByJson host mon) (\<lambda>(j, mon'). dumpable j \<and> cached_text mon')"
  unfolding succeeds_def
proof
  fix w
  note r = reads_succeed [OF assms(1)]
  from r(1) [OF assms(2)] obtain model mon1 w1 where 1: "model_name_io host mon w = (Inr (model, mon1), w1)" "cached_text mon1"
    by (rule succeedsE [where w = w]) auto
  from r(2) [OF 1(2)] obtain clock mon2 w2 where 2: "base_clock_io host mon1 w1 = (Inr (clock, mon2), w2)" "cached_text mon2"
    by (rule succeedsE [where w = w1]) auto
  from r(3) obtain usage w3 where 3: "cpu_usage_io host w2 = (Inr usage, w3)" by (rule succeedsE)
  from r(4) obtain tot w4 where 4: "memory_total_io host w3 = (Inr tot, w4)" by (rule succeedsE)
  from r(5) obtain unused w5 where 5: "memory_unused_io host w4 = (Inr unused, w5)" by (rule succeedsE)
  from r(6) obtain ratio w6 where 6: "memory_usage_io host w5 = (Inr ratio, w6)" by (rule succeedsE)
  from r(7) obtain disks w7 where 7: "disks_io host w6 = (Inr disks, w7)" by (rule succeedsE)
  from base_info_reply [OF 1(1) 2(1) 3 4 5 6 7] obtain j where j: "GetInfoByJson host mon w = (Inr (j, mon2), w7)"
    by (auto split: if_splits)
  have "dumpable j"
  proof (rule base_reply_values [OF j])
    fix model clock usage ratio disks mon1 w1 w2 w3 w4 w5 w6
    assume a: "model_name_io host mon w = (Inr (model, mon1), w1)" "base_clock_io host mon1 w1 = (Inr (clock, mon2), w2)"
      "cpu_usage_io host w2 = (Inr usage, w3)" "memory_usage_io host w5 = (Inr ratio, w6)"
      "disks_io host w6 = (Inr disks, w7)" "json_doubles j"
      "json_utf8 j \<longleftrightarrow> disks = [] \<or> utf8_text model \<and> utf8_text clock \<and> utf8_text usage \<and> utf8_text ratio \<and> (\<forall>it\<in>set disks. utf8_text (mounted it))"
    have "utf8_text model" "cached_text mon1" using succeedsD [OF r(1) [OF assms(2)] a(1)] by simp_all
    moreover from this have "utf8_text clock" using succeedsD [OF r(2) a(2)] by simp
    ultimately show "dumpable j"
      using a(6,7) succeedsD [OF r(3) a(3)] succeedsD [OF r(6) a(4)] succeedsD [OF r(7) a(5)] by simp
  qed
  with j 2(2) show "\<exists>x w'. GetInfoByJson host mon w = (Inr x, w') \<and> (case x of (j, mon') \<Rightarrow> dumpable j \<and> cached_text mon')"
    by auto
qed

lemma disk_replies_succeed:
  assumes "readable_host host"
  shows "succeeds (DisksInfo host) dumpable" "succeeds (DiskInfoOverview host) dumpable"
proof -
  note r = reads_succeed [OF assms]
  show "succeeds (DisksInfo host) dumpable"
    unfolding succeeds_def
  proof
    fix w
    from r(7) obtain disks w1 where 1: "disks_io host w = (Inr disks, w1)" "\<forall>d\<in>set disks. utf8_text (mounted d)" by (rule succeedsE)
    from r(8) obtain tot w2 where 2: "disk_total_io host w1 = (Inr tot, w2)" by (rule succeedsE)
    from disks_info_value [OF 1(1) 2] disk_reply_cases(1) [of host w] 1
    show "\<exists>j w'. DisksInfo host w = (Inr j, w') \<and> dumpable j" by fastforce
  qed
  show "succeeds (DiskInfoOverview host) dumpable"
    unfolding succeeds_def
  proof
    fix w
    from r(8) obtain tot w1 where 1: "disk_total_io host w = (Inr tot, w1)" by (rule succeedsE)
    from r(9) obtain u w2 where 2: "disk_used_io host w1 = (Inr u, w2)" by (rule succeedsE)
    from overview_value [OF 1 2] disk_reply_cases(2) [of host w]
    show "\<exists>j w'. DiskInfoOverview host w = (Inr j, w') \<and> dumpable j" by blast
  qed
qed

lemma DisksIO_ends:
  assumes "readable_host host"
  obtains j w' where "DisksIO host w = (Inr j, w')" "dumpable j"
    | w' where "DisksIO host w = (Inl Uninit_Read, w')" "disk_rates_io host w = (Inl Uninit_Read, w')" "\<not> rates_stored host"
proof -
  obtain x w1 where r: "disk_rates_io host w = (x, w1)" by (meson surj_pair)
  note read = rates_read [OF assms r]
  show thesis
  proof (cases x)
    case (Inl e)
    with r read have "DisksIO host w = (Inl Uninit_Read, w1)" by (simp add: DisksIO_def bindIO_def)
    with r read Inl show thesis using that(2) by simp
  next
    case (Inr ab)
    obtain a b where ab: "ab = (a, b)" by (cases ab)
    with r Inr have "disk_rates_io host w = (Inr (a, b), w1)" by simp
    from disks_rates_value [OF this] disk_reply_cases(3) [of host w] this read Inr ab
    obtain j where "DisksIO host w = (Inr j, w1)" "dumpable j" by fastforce
    then show thesis by (rule that(1))
  qed
qed

section \<open>The server answers\<close>

lemma dumpable_text: "dumpable j \<Longrightarrow> \<exists>s. json_dump j = Inr s"
  using json_dump_cases [of j] by simp

lemma calls_succeed:
  assumes "willing host"
  shows "succeeds (context_new host threads k) (\<lambda>_. True)" "succeeds (socket_new host ctx t) (\<lambda>s. handle s \<noteq> 0)"
    and "succeeds (bind host h a) (\<lambda>_. True)" "succeeds (message_default host) (\<lambda>_. True)"
    and "succeeds (message_destroy host m) (\<lambda>_. True)" "succeeds (send_buffer host h b f) (\<lambda>_. True)"
proof -
  note h = assms [unfolded willing_def]
  have nz: "fst (zmq_ctx_new host w) \<noteq> 0" "fst (zmq_socket host c t w) \<noteq> 0" for c t w
    using h by (auto simp del: neq0_conv bot_nat_0.not_eq_extremum)
  have "succeeds (context_default host) (\<lambda>_. True)"
    unfolding succeeds_def context_default_def case_prod_unfold if_not_P [OF nz(1)] by simp
  then show "succeeds (context_new host threads k) (\<lambda>_. True)"
    unfolding context_new_def using h by (auto intro!: succeeds_bind succeeds_then succeeds_call succeeds_return)
  show "succeeds (socket_new host ctx t) (\<lambda>s. handle s \<noteq> 0)"
    unfolding succeeds_def socket_new_def case_prod_unfold if_not_P [OF nz(2)] using nz(2) by simp
  show "succeeds (bind host h a) (\<lambda>_. True)" unfolding bind_def using h by (intro succeeds_call) blast
  show "succeeds (message_default host) (\<lambda>_. True)"
    unfolding message_default_def using h by (auto intro!: succeeds_bind succeeds_call succeeds_return)
  show "succeeds (message_destroy host m) (\<lambda>_. True)" unfolding message_destroy_def using h by (intro succeeds_call) blast
  show "succeeds (send_buffer host h b f) (\<lambda>_. True)"
    unfolding succeeds_def send_buffer_def nbytes_result_def using h by (simp add: case_prod_unfold)
qed

lemma recv_succeeds:
  assumes "willing host" "histories host sent received"
  shows "succeeds (recv_message host h m recv_none) (\<lambda>_. True)"
  unfolding succeeds_def
proof
  fix w
  obtain n m' w' where c: "zmq_msg_recv host m h recv_none w = (n, m', w')" by (metis surj_pair)
  have "0 \<le> n" using assms(1) c unfolding willing_def by (metis fst_conv)
  moreover from this have "n = int (length (content m'))"
    using assms(2) c unfolding logs_def by (metis (no_types, lifting))
  ultimately show "\<exists>x w'. recv_message host h m recv_none w = (Inr x, w') \<and> True"
    using c by (simp add: recv_message_def msg_size_def thenIO_def)
qed

lemma send_json_succeeds: "willing host \<Longrightarrow> dumpable j \<Longrightarrow> succeeds (send_json host h tag j) (\<lambda>_. True)"
  unfolding send_json_def
  by (drule dumpable_text, elim exE) (auto intro!: succeeds_bind [OF succeeds_lift] succeeds_bind [OF calls_succeed(6)] succeeds_do)

lemma succeeds_if: "succeeds m Q \<Longrightarrow> succeeds n Q \<Longrightarrow> succeeds (if b then m else n) Q"
  by simp

lemma branch_succeeds:
  "willing host \<Longrightarrow> cached_text mon \<Longrightarrow> succeeds m dumpable \<Longrightarrow>
   succeeds (bindIO m (\<lambda>j. thenIO (send_json host h tag j) (returnIO mon))) cached_text"
  by (erule succeeds_bind, rule succeeds_then [OF send_json_succeeds]) (simp_all add: succeeds_return)

lemma dispatch_succeeds:
  assumes "willing host" "readable_host host" "cached_text mon" "request \<noteq> ''DiskIO''"
  shows "succeeds (dispatch host h mon request) cached_text"
  unfolding dispatch_def if_not_P [OF assms(4)]
proof (intro succeeds_if branch_succeeds [OF assms(1,3)] disk_replies_succeed [OF assms(2)])
  show "succeeds (bindIO (GetInfoByJson host mon) (\<lambda>(j, mon'). thenIO (send_json host h [] j) (returnIO mon'))) cached_text"
    by (rule succeeds_bind [OF base_succeeds [OF assms(2,3)]], clarify,
        rule succeeds_then [OF send_json_succeeds [OF assms(1)]]) (simp_all add: succeeds_return)
  show "succeeds (thenIO (doIO (log_line host ''Receive invalid request''))
      (bindIO (send_buffer host h (view (\<lambda>s. buffer_c_array s None) (literal_array ''invalid request'')) send_none)
        (\<lambda>_. returnIO mon))) cached_text"
    by (rule succeeds_then [OF succeeds_do [of "\<lambda>_. True"]], simp, rule succeeds_bind [OF calls_succeed(6) [OF assms(1)]])
      (simp add: succeeds_return assms(3))
qed

lemma dispatch_ends:
  assumes "willing host" "readable_host host" "cached_text mon"
  obtains mon' w' where "dispatch host h mon request w = (Inr mon', w')" "cached_text mon'"
    | w' where "request = ''DiskIO''" "dispatch host h mon request w = (Inl Uninit_Read, w')"
      "DisksIO host w = (Inl Uninit_Read, w')" "disk_rates_io host w = (Inl Uninit_Read, w')" "\<not> rates_stored host"
proof (cases "request = ''DiskIO''")
  case True
  show thesis
  proof (rule DisksIO_ends [OF assms(2), of w])
    fix j w1 assume j: "DisksIO host w = (Inr j, w1)" "dumpable j"
    from send_json_succeeds [OF assms(1) j(2)] obtain w2 where "send_json host h ''[DiskIO]: '' j w1 = (Inr (), w2)"
      by (rule succeedsE [where w = w1]) auto
    with True j(1) have "dispatch host h mon request w = (Inr mon, w2)" by (simp add: dispatch_def bindIO_def thenIO_def)
    then show thesis using assms(3) by (rule that(1))
  next
    fix w1 assume u: "DisksIO host w = (Inl Uninit_Read, w1)" "disk_rates_io host w = (Inl Uninit_Read, w1)" "\<not> rates_stored host"
    from True u(1) have "dispatch host h mon request w = (Inl Uninit_Read, w1)" by (simp add: dispatch_def bindIO_def)
    then show thesis using that(2) True u by blast
  qed
next
  case False
  from dispatch_succeeds [OF assms False] show thesis using that(1) by (rule succeedsE)
qed

text \<open>A pass of the loop returns, or ends at a \<open>DiskIO\<close> whose loads come before the thread's stores.\<close>

lemma serve_one_ends:
  assumes "willing host" "readable_host host" "histories host sent received" "cached_text mon"
  obtains mon' w' where "serve_one host h mon w = (Inr mon', w')" "cached_text mon'"
    | w' v where "serve_one host h mon w = (Inl Uninit_Read, w')" "disk_rates_io host v = (Inl Uninit_Read, w')"
      "\<not> rates_stored host" "received w' = received w @ [''DiskIO'']" "sent w' = sent w"
proof -
  from calls_succeed(4) [OF assms(1)] obtain m w1 where m: "message_default host w = (Inr m, w1)" by (rule succeedsE)
  from recv_succeeds [OF assms(1,3)] obtain nq w2 where "recv_message host h m recv_none w1 = (Inr nq, w2)" by (rule succeedsE)
  then obtain n q where q: "recv_message host h m recv_none w1 = (Inr (n, q), w2)" by (cases nq) simp
  let ?w3 = "log_line host (''Received is '' @ [CHR 0x27] @ to_string q @ [CHR 0x27]) w2"
  show thesis
  proof (rule dispatch_ends [OF assms(1,2,4), of h "to_string q" ?w3])
    fix mon' w4 assume d: "dispatch host h mon (to_string q) ?w3 = (Inr mon', w4)" "cached_text mon'"
    from calls_succeed(5) [OF assms(1)] obtain u w5 where "message_destroy host q w4 = (Inr u, w5)" by (rule succeedsE)
    with m q d(1) have "serve_one host h mon w = (Inr mon', w5)" by (simp add: serve_one_def bindIO_def thenIO_def)
    then show thesis using d(2) by (rule that(1))
  next
    fix w4 assume d: "to_string q = ''DiskIO''" "dispatch host h mon (to_string q) ?w3 = (Inl Uninit_Read, w4)"
      "DisksIO host ?w3 = (Inl Uninit_Read, w4)" "disk_rates_io host ?w3 = (Inl Uninit_Read, w4)" "\<not> rates_stored host"
    have "serve_one host h mon w = (Inl Uninit_Read, w4)" using m q d(2) by (simp add: serve_one_def bindIO_def thenIO_def)
    moreover have "received w2 = received w @ [''DiskIO'']" "sent w2 = sent w"
      using keeps_both [OF keeps_message_ops(1) [OF assms(3)] m] recv_message_history [OF assms(3) q] d(1)
      by (simp_all add: to_string_content)
    moreover have "received ?w3 = received w2" "sent ?w3 = sent w2"
      using keeps_both [OF keeps_log(1) [OF assms(3)], of _ w2] by simp_all
    moreover have "received w4 = received ?w3" "sent w4 = sent ?w3"
      using keeps_both [OF keeps_json(4) [OF assms(3)] d(3)] by simp_all
    ultimately show thesis using that(2) d(4,5) by simp
  qed
qed

text \<open>\<open>ended host n res w' qs rs\<close>: \<open>n\<close> passes have answered the requests \<open>qs\<close> by \<open>rs\<close>, or the last of \<open>qs\<close>
  has asked for rates that are not there yet.\<close>

definition ended :: "('w, 'x) host_scheme \<Rightarrow> nat \<Rightarrow> CPUMonitor outcome \<Rightarrow> 'w \<Rightarrow> bytes list \<Rightarrow> bytes list \<Rightarrow> bool" where
  "ended host n res w' qs rs \<longleftrightarrow>
     (case res of
        Inr mon \<Rightarrow> length qs = n \<and> length rs = n
      | Inl e \<Rightarrow> e = Uninit_Read \<and> (\<exists>v. disk_rates_io host v = (Inl Uninit_Read, w')) \<and> \<not> rates_stored host \<and>
          length qs \<le> n \<and> length qs = Suc (length rs) \<and> last qs = ''DiskIO'')"

lemma serve_ends:
  assumes "willing host" "readable_host host" "histories host sent received"
  shows "cached_text mon \<Longrightarrow> \<exists>res w' qs rs. serve host h n mon w = (res, w') \<and>
    received w' = received w @ qs \<and> sent w' = sent w @ rs \<and> ended host n res w' qs rs"
proof (induction n arbitrary: mon w)
  case (Suc n)
  show ?case
  proof (rule serve_one_ends [OF assms Suc.prems, of h w])
    fix mon1 w1 assume one: "serve_one host h mon w = (Inr mon1, w1)" "cached_text mon1"
    from Suc.IH [OF one(2), of w1] obtain res w' qs rs where
      rest: "serve host h n mon1 w1 = (res, w')" "received w' = received w1 @ qs" "sent w' = sent w1 @ rs"
        "ended host n res w' qs rs" by blast
    from serve_one_history [OF assms(3) one(1)] obtain q r where "received w1 = received w @ [q]" "sent w1 = sent w @ [r]"
      by blast
    with rest one(1) show ?thesis
      by (intro exI [of _ res] exI [of _ w'] exI [of _ "q # qs"] exI [of _ "r # rs"])
        (auto simp: bindIO_def ended_def split: sum.splits)
  next
    fix w1 v assume "serve_one host h mon w = (Inl Uninit_Read, w1)" "disk_rates_io host v = (Inl Uninit_Read, w1)"
      "\<not> rates_stored host" "received w1 = received w @ [''DiskIO'']" "sent w1 = sent w"
    then show ?thesis
      by (intro exI [of _ "Inl Uninit_Read"] exI [of _ w1] exI [of _ "[''DiskIO'']"] exI [of _ "[]"])
        (auto simp: bindIO_def ended_def)
  qed
qed (simp add: ended_def)

lemma start_succeeds:
  assumes "willing host" "readable_host host"
  shows "succeeds (start host) (\<lambda>(ctx, sock, mon). cached_text mon)"
proof -
  note c = calls_succeed [OF assms(1)] and v = start_values [OF assms(2)]
  have log: "succeeds (doIO (log_line host s)) (\<lambda>_. True)" for s by (simp add: succeeds_do)
  have dump: "dumpable j \<Longrightarrow> succeeds (liftIO (json_dump j)) (\<lambda>_. True)" for j
    using dumpable_text by (auto intro: succeeds_lift)
  have empty: "cached_text \<lparr>modelName = [], baseClock = []\<rparr>" by (simp add: cached_text_def ascii_text)
  show ?thesis
    unfolding start_def
    apply (rule succeeds_then [OF log])
    apply (rule succeeds_bind [OF c(1)])
    apply (rule succeeds_bind [OF c(2)])
    apply (rule succeeds_then [OF c(3)])
    apply (rule succeeds_then [where P = "\<lambda>_. True"], simp add: succeeds_return)
    apply (rule succeeds_then [OF log])
    apply (rule succeeds_bind [OF v(1)], rule succeeds_bind [OF dump], assumption, rule succeeds_then [OF log])
    apply (rule succeeds_bind [OF v(2)], rule succeeds_bind [OF dump], assumption, rule succeeds_then [OF log])
    apply (rule succeeds_bind [OF v(3) [OF empty]], clarify)
    apply (rule succeeds_bind [OF dump], simp, rule succeeds_then [OF log])
    apply (simp add: succeeds_return)
    done
qed

lemma reply_text:
  assumes "readable_host host" "reply_for host q r" "q \<in> set requests"
  shows "\<exists>t. read_json r = Some t"
proof -
  have dumped: "json_dump j = Inr r \<Longrightarrow> json_doubles j \<Longrightarrow> \<exists>t. read_json r = Some t" for j
    using json_dump_readable by blast
  from assms(3) consider "q = ''RequestBaseInfo''" | "q = ''DisksOverview''" | "q = ''DisksInfo''" | "q = ''DiskIO''"
    by (auto simp: requests_def)
  then show ?thesis
  proof cases
    case 1
    with assms(2) obtain mon j mon' w w' where j: "GetInfoByJson host mon w = (Inr (j, mon'), w')" "json_dump j = Inr r"
      unfolding reply_for_def by force
    have "json_doubles j" by (rule base_reply_values [OF j(1)])
    with j(2) show ?thesis by (rule dumped)
  next
    case 2
    with assms(2) obtain j w w' where j: "DiskInfoOverview host w = (Inr j, w')" "json_dump j = Inr r"
      by (auto simp: reply_for_def)
    with disk_reply_cases(2) [OF j(1)] show ?thesis using dumped by blast
  next
    case 3
    with assms(2) obtain j w w' where j: "DisksInfo host w = (Inr j, w')" "json_dump j = Inr r"
      by (auto simp: reply_for_def)
    with disk_reply_cases(1) [OF j(1)] show ?thesis using dumped by blast
  next
    case 4
    with assms(2) obtain j w w' where j: "DisksIO host w = (Inr j, w')" "json_dump j = Inr r"
      by (auto simp: reply_for_def)
    from disk_reply_cases(3) [OF j(1)] obtain a b w1 where
      "disk_rates_io host w = (Inr (a, b), w1)" "json_doubles j \<longleftrightarrow> binary64 a \<and> binary64 b" by blast
    with rates_read [OF assms(1) this(1)] j(2) show ?thesis using dumped by simp
  qed
qed

lemma keeps_start: "histories host sent received \<Longrightarrow> keeps (both sent received) (start host)"
proof -
  assume h: "histories host sent received"
  have bind: "keeps (both sent received) (bind host s a)" for s a
    using logs_silent [OF h] by (auto simp: bind_def silent_sockets_def intro!: silent_call)
  show ?thesis
    by (auto simp: start_def GetMemory_def GetDisk_def GetCPU_def Let_def
        intro!: keeps_intros bind keeps_log [OF h] keeps_socket_ops [OF h] keeps_monitor_reads [OF h])
qed

text \<open>C3: On a host whose files can be read and whose names are UTF-8 text, and while the calls of libzmq
  succeed, the server starts, and nothing ends its loop but a request \<open>DiskIO\<close> that comes before the
  disk thread has stored its first rates, at which an uninitialised member is read. Every request
  before it, or every request at all when the rates are there, gets exactly one reply, its own, and
  the reply to a known request is JSON text.\<close>

theorem server_answers:
  assumes "histories host sent received" "willing host" "readable_host host"
  shows "\<exists>res w' qs rs. main host n w = (res, w') \<and> received w' = received w @ qs \<and> sent w' = sent w @ rs \<and>
    list_all2 (\<lambda>q r. reply_for host q r \<and> (q \<in> set requests \<longrightarrow> (\<exists>t. read_json r = Some t)))
      (take (length rs) qs) rs \<and>
    (case res of
       Inr mon \<Rightarrow> length qs = n \<and> length rs = n
     | Inl e \<Rightarrow> e = Uninit_Read \<and> (\<exists>v. disk_rates_io host v = (Inl Uninit_Read, w')) \<and> \<not> rates_stored host \<and>
         length qs \<le> n \<and> length qs = Suc (length rs) \<and> last qs = ''DiskIO'')"
proof -
  from start_succeeds [OF assms(2,3)] obtain ctx sock mon w1 where
    s: "start host w = (Inr (ctx, sock, mon), w1)" "cached_text mon"
    by (rule succeedsE [where w = w]) auto
  from serve_ends [OF assms(2,3,1) s(2)] obtain res w' qs rs where
    m: "serve host (handle sock) n mon w1 = (res, w')" "received w' = received w1 @ qs" "sent w' = sent w1 @ rs"
      "ended host n res w' qs rs" by blast
  from serve_history [OF assms(1) m(1)] m(2,3) have "list_all2 (reply_for host) (take (length rs) qs) rs" by auto
  then have "list_all2 (\<lambda>q r. reply_for host q r \<and> (q \<in> set requests \<longrightarrow> (\<exists>t. read_json r = Some t)))
      (take (length rs) qs) rs"
    by (auto elim!: list.rel_mono_strong intro: reply_text [OF assms(3)])
  moreover have "main host n w = (res, w')" using s(1) m(1) by (simp add: main_def bindIO_simps)
  ultimately show ?thesis
    using m(2-4) keeps_both [OF keeps_start [OF assms(1)] s(1)] unfolding ended_def
    by (intro exI [of _ res] exI [of _ w'] exI [of _ qs] exI [of _ rs]) simp
qed

definition busy_host :: "queue_world host" where
  "busy_host = queue_host
     \<lparr>zmq_msg_recv := \<lambda>m h f w.
        (case inbox w of
           [] \<Rightarrow> (6, \<lparr>content = ''DiskIO'', more_flag = False\<rparr>, w\<lparr>taken := taken w @ [''DiskIO'']\<rparr>)
         | q # qs \<Rightarrow> (int (length q), \<lparr>content = q, more_flag = False\<rparr>, w\<lparr>inbox := qs, taken := taken w @ [q]\<rparr>)),
      disk_object := \<lambda>w. (seen_once (DFin 0, DFin 0), w)\<rparr>"

lemma busy_histories: "histories busy_host outbox taken"
  by (auto simp: logs_def both_def silent_messages_def silent_sockets_def silent_system_def silent_def busy_host_def
      queue_host_def still_def libzmq.defs calm_def split: list.splits)

lemma busy_willing: "willing busy_host"
  by (auto simp: willing_def busy_host_def queue_host_def still_def libzmq.defs calm_def split: list.splits)

lemma busy_readable: "readable_host busy_host"
proof -
  have "GetMemoryInfo (Some (render [])) = Inr zero_packet" by (subst GetMemoryInfo_render) simp_all
  then have "GetMemoryInfo (Some []) = Inr zero_packet" by (simp add: render_def)
  moreover have line: "take_line n [] = ([], [])" for n by (cases n) simp_all
  moreover have "cpuinfo_loop (open_stream []) ([], [], 0) = ([], [], 0)"
    by (simp add: cpuinfo_loop.simps [of "open_stream []"] cpuinfo_loop.simps open_stream_def fgets_def line)
  moreover have "DiskInfoByDf (Some []) = Inr []"
    by (simp add: DiskInfoByDf_def open_stream_def fgets_def df_loop_end line)
  ultimately show ?thesis
    by (simp add: readable_host_def busy_host_def queue_host_def still_def libzmq.defs calm_def seen_once_def
        GetCPUModelNameAndBaseClock_def ascii_text)
qed

lemma busy_rates: "rates_stored busy_host"
  by (simp add: rates_stored_def busy_host_def queue_host_def still_def libzmq.defs calm_def seen_once_def)

theorem server_answers_witness:
  "\<exists>mon w'. main busy_host 3 \<lparr>inbox = [''DisksInfo''], outbox = [], taken = []\<rparr> = (Inr mon, w') \<and>
     length (taken w') = 3 \<and> length (outbox w') = 3"
proof -
  let ?w = "\<lparr>inbox = [''DisksInfo''], outbox = [], taken = []\<rparr>"
  obtain res w' where "main busy_host 3 ?w = (res, w')" "\<exists>mon. res = Inr mon"
    "length (taken w') = 3 \<and> length (outbox w') = 3"
    using server_answers [OF busy_histories busy_willing busy_readable, of 3 ?w] busy_rates
    by (fastforce split: sum.splits)
  then show ?thesis by blast
qed

section \<open>A name that is not text\<close>

lemma foreign_dispatch:
  assumes "disks_io host w = (Inr disks, w1)" "disk_total_io host w1 = (Inr tot, w2)"
    and "it \<in> set disks" "\<not> utf8_text (mounted it)"
  shows "dispatch host h mon ''DisksInfo'' w = (Inl (Json_Error 316), w2)"
proof -
  from disks_info_value [OF assms(1,2)] obtain j where j: "DisksInfo host w = (Inr j, w2)" by blast
  from disk_reply_cases(1) [OF j] assms have "json_doubles j" "\<not> json_utf8 j" by auto
  then have "json_dump j = Inl (Json_Error 316)" using json_dump_cases [of j] by simp
  with j show ?thesis by (simp add: dispatch_def send_json_def bindIO_def thenIO_def)
qed

lemma serve_add: "serve host h (k + m) mon w = bindIO (serve host h k mon) (serve host h m) w"
proof (induction k arbitrary: mon w)
  case (Suc k)
  then show ?case by (auto simp: bindIO_def split: sum.splits prod.splits)
qed (simp add: bindIO_def)

text \<open>C14: A mount point whose bytes are not UTF-8, and that shows up after the start, ends the server:
  when it is the turn of a request \<open>DisksInfo\<close>, after any number of passes, the dump of the reply throws,
  and there is no handler in the pass, the loop or \<open>main\<close>. The request has been received and nothing is
  sent for it, and of the passes still to come none takes place.\<close>

theorem foreign_mount_point:
  assumes "histories host sent received"
    and "start host w = (Inr (ctx, sock, mon), w0)" "serve host (handle sock) k mon w0 = (Inr mon', w1)"
    and "message_default host w1 = (Inr m, w2)"
    and "recv_message host (handle sock) m recv_none w2 = (Inr (n, q), w3)" "to_string q = ''DisksInfo''"
    and "disks_io host (log_line host (''Received is '' @ [CHR 0x27] @ ''DisksInfo'' @ [CHR 0x27]) w3) = (Inr disks, w4)"
    and "disk_total_io host w4 = (Inr tot, w5)"
    and "it \<in> set disks" "\<not> utf8_text (mounted it)"
  shows "main host (k + Suc j) w = (Inl (Json_Error 316), w5) \<and>
    received w5 = received w1 @ [''DisksInfo''] \<and> sent w5 = sent w1"
proof -
  from foreign_dispatch [OF assms(7-10)] have one: "serve_one host (handle sock) mon' w1 = (Inl (Json_Error 316), w5)"
    unfolding serve_one_def using assms(4-6) by (simp add: bindIO_def thenIO_def)
  then have "serve host (handle sock) (Suc j) mon' w1 = (Inl (Json_Error 316), w5)" by (simp add: bindIO_def)
  with assms(2,3) have "main host (k + Suc j) w = (Inl (Json_Error 316), w5)"
    unfolding main_def by (simp only: bindIO_def serve_add prod.case sum.case)
  moreover have "received w5 = received w1 @ [''DisksInfo''] \<and> sent w5 = sent w1"
    using keeps_both [OF keeps_message_ops(1) [OF assms(1)] assms(4)]
      recv_message_history [OF assms(1,5)] keeps_both [OF keeps_log(1) [OF assms(1)] doIO_eq]
      keeps_both [OF keeps_monitor_reads(7) [OF assms(1)] assms(7)]
      keeps_both [OF keeps_monitor_reads(8) [OF assms(1)] assms(8)] assms(6)
    by (simp add: to_string_content)
  ultimately show ?thesis by blast
qed

definition latin1_df :: string where
  "latin1_df = ''Filesystem'' @ newline # df_table [sample_entry ''/dev/sdb1'' 1000 [CHR ''/'', CHR 0xE9]]"

text \<open>A host where such a disk is mounted once a request has come.\<close>

definition mounting_host :: "queue_world host" where
  "mounting_host = busy_host
     \<lparr>run_df := \<lambda>w. (Some (if taken w = [] then [] else latin1_df), w)\<rparr>"

lemma mounting_histories: "histories mounting_host outbox taken"
  by (auto simp: logs_def both_def silent_messages_def silent_sockets_def silent_system_def silent_def
      mounting_host_def busy_host_def queue_host_def still_def libzmq.defs calm_def split: list.splits)

lemma latin1_disks: "GetDisksByDf (Some latin1_df) = Inr [entry_info (sample_entry ''/dev/sdb1'' 1000 [CHR ''/'', CHR 0xE9])]"
proof -
  let ?e = "sample_entry ''/dev/sdb1'' 1000 [CHR ''/'', CHR 0xE9]"
  have "\<forall>e\<in>set [?e]. wf_df_entry e" by (simp add: wf_sample_entry token_def is_space_def)
  from DiskInfoByDf_table [OF _ _ this, of "''Filesystem''"] show ?thesis
    by (simp add: latin1_df_def GetDisksByDf_def plain_line_def newline_def is_dev_def entry_info_def sample_entry_def
        strncmp_eq_def cstr_def)
qed

lemma mounting_reads:
  "GetMemory mounting_host = GetMemory busy_host" "GetCPU mounting_host = GetCPU busy_host"
  "keeps (\<lambda>w. w) (GetMemory busy_host)" "keeps (\<lambda>w. w) (GetCPU busy_host mon)"
  "taken w = [] \<Longrightarrow> GetDisk mounting_host w = (Inr JNull, w)"
proof -
  show "GetMemory mounting_host = GetMemory busy_host" "GetCPU mounting_host = GetCPU busy_host"
    by (simp_all add: GetMemory_def GetCPU_def monitor_io_defs mounting_host_def fun_eq_iff cong: if_cong)
  show "keeps (\<lambda>w. w) (GetMemory busy_host)" "keeps (\<lambda>w. w) (GetCPU busy_host mon)"
    unfolding GetMemory_def GetCPU_def monitor_io_defs
    by (auto intro!: keeps_intros keeps_read simp: busy_host_def queue_host_def still_def libzmq.defs calm_def)
  have "take_line n [] = ([], [])" for n by (cases n) simp_all
  then have "DiskInfoByDf (Some []) = Inr []" by (simp add: DiskInfoByDf_def open_stream_def fgets_def df_loop_end)
  then show "taken w = [] \<Longrightarrow> GetDisk mounting_host w = (Inr JNull, w)"
    by (simp add: GetDisk_def disks_io_def mounting_host_def readIO_def bindIO_def GetDisksByDf_def)
qed

lemma mounting_start:
  assumes "taken w = []"
  shows "\<exists>mon. start mounting_host w = (Inr (1, \<lparr>handle = 1, ctxptr = 1\<rparr>, mon), w)"
proof -
  have new: "context_new mounting_host 1 ZMQ_MAX_SOCKETS_DFLT w = (Inr 1, w)"
    "socket_new mounting_host 1 ZMQ_REP w = (Inr \<lparr>handle = 1, ctxptr = 1\<rparr>, w)"
    "bind mounting_host 1 a w = (Inr (), w)" "log_line mounting_host t w = w" for a t
    by (simp_all add: context_new_def context_default_def socket_new_def bind_def bindIO_def thenIO_def call_def assert_call_def plain_def
        mounting_host_def busy_host_def queue_host_def still_def libzmq.defs calm_def)
  note v = start_values [OF busy_readable]
  from v(1) obtain jm w1 where "GetMemory busy_host w = (Inr jm, w1)" "dumpable jm" by (rule succeedsE)
  with keepsD [OF mounting_reads(3) this(1)] have m: "GetMemory mounting_host w = (Inr jm, w)" "dumpable jm"
    by (simp_all add: mounting_reads(1))
  have "cached_text \<lparr>modelName = [], baseClock = []\<rparr>" by (simp add: cached_text_def ascii_text)
  from v(3) [OF this] obtain jc mon w2 where "GetCPU busy_host \<lparr>modelName = [], baseClock = []\<rparr> w = (Inr (jc, mon), w2)" "dumpable jc"
    by (rule succeedsE [where w = w]) auto
  with keepsD [OF mounting_reads(4) this(1)]
  have c: "GetCPU mounting_host \<lparr>modelName = [], baseClock = []\<rparr> w = (Inr (jc, mon), w)" "dumpable jc"
    by (simp_all add: mounting_reads(2))
  obtain tm td tc where "json_dump jm = Inr tm" "json_dump JNull = Inr td" "json_dump jc = Inr tc"
    using dumpable_text [OF m(2)] dumpable_text [OF c(2)] dumpable_text [of JNull] by auto
  then show ?thesis
    using m(1) c(1) mounting_reads(5) [OF assms] new by (simp add: start_def bindIO_def thenIO_def assertIO_def)
qed

theorem foreign_mount_point_witness:
  "\<exists>w. main mounting_host 5 \<lparr>inbox = [''DisksInfo''], outbox = [], taken = []\<rparr> = (Inl (Json_Error 316), w) \<and>
     taken w = [''DisksInfo''] \<and> outbox w = []"
proof -
  let ?w = "\<lparr>inbox = [''DisksInfo''], outbox = [], taken = []\<rparr>"
    and ?e = "sample_entry ''/dev/sdb1'' 1000 [CHR ''/'', CHR 0xE9]"
  let ?w' = "?w\<lparr>inbox := [], taken := [''DisksInfo'']\<rparr>"
  obtain mon where start: "start mounting_host ?w = (Inr (1, \<lparr>handle = 1, ctxptr = 1\<rparr>, mon), ?w)"
    using mounting_start [of ?w] by auto
  have request: "message_default mounting_host ?w = (Inr no_msg, ?w)"
    "recv_message mounting_host 1 no_msg recv_none ?w = (Inr (Some 9, \<lparr>content = ''DisksInfo'', more_flag = False\<rparr>), ?w')"
    "log_line mounting_host t ?w' = ?w'" for t
    by (simp_all add: message_default_def recv_message_def bindIO_def thenIO_def assert_call_def plain_def assertIO_def
        msg_size_def mounting_host_def busy_host_def queue_host_def still_def libzmq.defs calm_def)
  obtain tot where tot: "DiskTotalByDf (Some latin1_df) = Inr tot"
    using latin1_disks by (simp add: DiskTotalByDf_def GetDisksByDf_def)
  have reads: "disks_io mounting_host ?w' = (Inr [entry_info ?e], ?w')" "disk_total_io mounting_host ?w' = (Inr tot, ?w')"
    by (simp_all add: monitor_io_defs readIO_def bindIO_def mounting_host_def latin1_disks tot)
  have "\<not> utf8_text [CHR ''/'', CHR 0xE9]" by (simp add: utf8_text_def) code_simp
  then have "\<not> utf8_text (mounted (entry_info ?e))" by (simp add: entry_info_def sample_entry_def)
  from foreign_mount_point [OF mounting_histories start, of 0 mon ?w no_msg ?w "Some 9" "\<lparr>content = ''DisksInfo'', more_flag = False\<rparr>"
      ?w' "[entry_info ?e]" ?w' tot ?w' "entry_info ?e" 4, OF _ _ _ _ _ _ _ this]
  show ?thesis using request reads by (auto simp: returnIO_def to_string_content)
qed

end
