(* ===== verification/Client.thy ===== *)
theory Client
  imports History
begin

text \<open>
  The clients: \<open>Client.cpp\<close> (the polling client, the blocking client, the command line) and
  \<open>raid_monitor_server.h\<close> (one request per call). The destructors at the end of each scope are
  written out, in the reverse order of construction. The theorems: what is sent and received,
  in which order, and what the command line becomes.
\<close>

section \<open>The polling client\<close>

definition print :: "('w, 'x) host_scheme \<Rightarrow> string \<Rightarrow> ('w, unit) io" where
  "print host s = doIO (print_out host (s @ [CHR 0x0A]))"

text \<open>A pass of the loop: the poll item afterwards, and the socket when the loop goes on.\<close>

definition poll_pass :: "('w, 'x) host_scheme \<Rightarrow> string \<Rightarrow> nat \<Rightarrow> socket_t \<Rightarrow> zmq_pollitem_t list
    \<Rightarrow> ('w, bool \<times> socket_t \<times> zmq_pollitem_t list) io" where
  "poll_pass host payload request_num sock items =
     bindIO (message_string host payload) (\<lambda>request.
     thenIO (print host (''Sending Hello '' @ dec_str request_num @ ''...''))
     (bindIO (send_message host (handle sock) request send_none) (\<lambda>(op, request).
      thenIO (case op of Some n \<Rightarrow> print host (''option value: '' @ dec_str n) | None \<Rightarrow> returnIO ())
      (bindIO (poll host items 1 1000) (\<lambda>(rc, items).
       bindIO (message_default host) (\<lambda>reply.
       bindIO (if revents (items ! 0) AND ZMQ_POLLIN \<noteq> 0
               then bindIO (recv_message host (handle sock) reply recv_none) (\<lambda>(result, reply).
                    thenIO (print host (''Received Reply '' @ dec_str request_num @ '' ['' @ to_string reply @ '']''))
                      (returnIO (True, sock, reply)))
               else thenIO (print host ''Receive timeout!'')
                    (bindIO (socket_close host sock) (\<lambda>sock.
                     thenIO (print host ''socket close'') (returnIO (False, sock, reply)))))
         (\<lambda>(go_on, sock, reply).
          thenIO (message_destroy host reply)
          (thenIO (message_destroy host request) (returnIO (go_on, sock, items))))))))))"

fun poll_loop :: "('w, 'x) host_scheme \<Rightarrow> string \<Rightarrow> nat \<Rightarrow> nat \<Rightarrow> socket_t \<Rightarrow> zmq_pollitem_t list
    \<Rightarrow> ('w, socket_t) io" where
  "poll_loop host payload request_num 0 sock items = returnIO sock"
| "poll_loop host payload request_num (Suc left) sock items =
     bindIO (poll_pass host payload request_num sock items) (\<lambda>(go_on, sock, items).
       if go_on then poll_loop host payload (request_num + 1) left sock items else returnIO sock)"

definition no_block_socket :: "('w, 'x) host_scheme \<Rightarrow> string \<Rightarrow> string \<Rightarrow> ('w, unit) io" where
  "no_block_socket host addr msg =
     bindIO (context_new host 1 ZMQ_MAX_SOCKETS_DFLT) (\<lambda>ctx.
     bindIO (socket_new host ctx ZMQ_REQ) (\<lambda>sock.
     thenIO (set_integral host (handle sock) linger 1000)
     (thenIO (connect host (handle sock) addr)
     (bindIO (poll_loop host msg 0 10 sock
                [\<lparr>socket = handle sock, fd = 0, events = ZMQ_POLLIN, revents = 0\<rparr>]) (\<lambda>sock.
      thenIO (socket_destroy host sock)
      (bindIO (context_close host ctx) (\<lambda>_. returnIO ())))))))"

section \<open>The blocking client\<close>

definition block_pass :: "('w, 'x) host_scheme \<Rightarrow> string \<Rightarrow> nat \<Rightarrow> socket_t \<Rightarrow> ('w, unit) io" where
  "block_pass host payload request_num sock =
     bindIO (message_string host payload) (\<lambda>request.
     thenIO (print host (''Sending Hello '' @ dec_str request_num @ ''...''))
     (bindIO (send_message host (handle sock) request send_none) (\<lambda>(_, request).
      bindIO (message_default host) (\<lambda>reply.
      bindIO (recv_message host (handle sock) reply recv_none) (\<lambda>(_, reply).
      thenIO (print host (''Received '' @ to_string reply @ '' ('' @ dec_str request_num @ '')''))
      (thenIO (doIO (sleep_ms host 1000))
      (thenIO (message_destroy host reply) (message_destroy host request))))))))"

fun block_loop :: "('w, 'x) host_scheme \<Rightarrow> string \<Rightarrow> nat \<Rightarrow> nat \<Rightarrow> socket_t \<Rightarrow> ('w, unit) io" where
  "block_loop host payload request_num 0 sock = returnIO ()"
| "block_loop host payload request_num (Suc left) sock =
     thenIO (block_pass host payload request_num sock) (block_loop host payload (request_num + 1) left sock)"

definition block_socket :: "('w, 'x) host_scheme \<Rightarrow> string \<Rightarrow> string \<Rightarrow> ('w, unit) io" where
  "block_socket host addr msg =
     bindIO (context_new host 1 ZMQ_MAX_SOCKETS_DFLT) (\<lambda>ctx.
     bindIO (socket_new host ctx ZMQ_REQ) (\<lambda>sock.
     thenIO (print host (''addr is '' @ addr))
     (thenIO (connect host (handle sock) addr)
     (thenIO (block_loop host msg 0 10 sock)
     (thenIO (socket_destroy host sock)
     (bindIO (context_close host ctx) (\<lambda>_. returnIO ())))))))"

section \<open>The command line\<close>

text \<open>\<open>argv\<close> as the system passes it: the words of the command line, then a null pointer.\<close>

definition argv_string :: "string list \<Rightarrow> nat \<Rightarrow> string outcome" where
  "argv_string argv i =
     (if i < length argv then Inr (argv ! i) else if i = length argv then Inl Null_String else Inl Out_Of_Range)"

definition client_args :: "string list \<Rightarrow> (string \<times> string) outcome" where
  "client_args argv =
     (if length argv < 2 then Inr (''tcp://127.0.0.1:20777'', ''DisksOverview'')
      else bindE (argv_string argv 1) (\<lambda>ip.
           bindE (argv_string argv 2) (\<lambda>port.
           bindE (argv_string argv 3) (\<lambda>msg. Inr (''tcp://'' @ ip @ '':'' @ port, msg)))))"

definition client_main :: "('w, 'x) host_scheme \<Rightarrow> string list \<Rightarrow> ('w, int) io" where
  "client_main host argv =
     thenIO (if length argv < 2 then print host ''no ip and port,will use default ip and port'' else returnIO ())
     (bindIO (liftIO (client_args argv)) (\<lambda>(addr, msg).
      thenIO (no_block_socket host addr msg) (returnIO 0)))"

section \<open>One request per call\<close>

definition raid_exchange :: "('w, 'x) host_scheme \<Rightarrow> string \<Rightarrow> string \<Rightarrow> ('w, string) io" where
  "raid_exchange host addr message =
     bindIO (context_new host 1 ZMQ_MAX_SOCKETS_DFLT) (\<lambda>ctx.
     bindIO (socket_new host ctx ZMQ_REQ) (\<lambda>sock.
     thenIO (connect host (handle sock) addr)
     (bindIO (message_string host message) (\<lambda>request.
      bindIO (send_message host (handle sock) request send_none) (\<lambda>(_, request).
      bindIO (message_default host) (\<lambda>reply.
      bindIO (recv_message host (handle sock) reply recv_none) (\<lambda>(_, reply).
      thenIO (message_destroy host reply)
      (thenIO (message_destroy host request)
      (thenIO (socket_destroy host sock)
      (bindIO (context_close host ctx) (\<lambda>_. returnIO (to_string reply))))))))))))"

definition request_data_from_raid_at :: "('w, 'x) host_scheme \<Rightarrow> string \<Rightarrow> string \<Rightarrow> string \<Rightarrow> ('w, string) io" where
  "request_data_from_raid_at host ip port message = raid_exchange host (''tcp://'' @ ip @ '':'' @ port) message"

definition request_data_from_raid :: "('w, 'x) host_scheme \<Rightarrow> string \<Rightarrow> ('w, string) io" where
  "request_data_from_raid host message = raid_exchange host ''tcp://127.0.0.1:20777'' message"

definition request_disk_overview_from_raid :: "('w, 'x) host_scheme \<Rightarrow> ('w, string) io" where
  "request_disk_overview_from_raid host = request_data_from_raid host ''DisksOverview''"

definition request_disks_info_from_raid :: "('w, 'x) host_scheme \<Rightarrow> ('w, string) io" where
  "request_disks_info_from_raid host = request_data_from_raid host ''DisksInfo''"

definition request_disk_io_from_raid :: "('w, 'x) host_scheme \<Rightarrow> ('w, string) io" where
  "request_disk_io_from_raid host = request_data_from_raid host ''DiskIO''"

section \<open>What is sent and received\<close>

text \<open>
  \<open>emits m P\<close>: when \<open>m\<close> returns \<open>x\<close>, it has added the events \<open>es\<close> to the history, in this order, with
  \<open>P x es\<close>.
\<close>

definition emits :: "('w \<Rightarrow> 'l) \<Rightarrow> ('l \<Rightarrow> event \<Rightarrow> 'l) \<Rightarrow> ('w, 'a) io \<Rightarrow> ('a \<Rightarrow> event list \<Rightarrow> bool) \<Rightarrow> bool" where
  "emits obs add m P \<longleftrightarrow>
     (\<forall>w x w'. m w = (Inr x, w') \<longrightarrow> (\<exists>es. obs w' = foldl add (obs w) es \<and> P x es))"

lemma emits_return: "P x [] \<Longrightarrow> emits obs add (returnIO x) P"
  by (auto simp: emits_def intro!: exI [of _ "[]"])

lemma emits_if:
  "(b \<Longrightarrow> emits obs add m P) \<Longrightarrow> (\<not> b \<Longrightarrow> emits obs add n P) \<Longrightarrow> emits obs add (if b then m else n) P"
  by simp

lemma emits_mono: "emits obs add m Q \<Longrightarrow> (\<And>x es. Q x es \<Longrightarrow> P x es) \<Longrightarrow> emits obs add m P"
  unfolding emits_def by blast

lemma emitsD:
  assumes "emits obs add m P" "m w = (Inr x, w')"
  obtains es where "obs w' = foldl add (obs w) es" "P x es"
  using assms unfolding emits_def by blast

lemma emits_bind:
  assumes "emits obs add m Q" "\<And>x es. Q x es \<Longrightarrow> emits obs add (f x) (\<lambda>y es'. P y (es @ es'))"
  shows "emits obs add (bindIO m f) P"
  unfolding emits_def
proof (intro allI impI)
  fix w y w'
  assume "bindIO m f w = (Inr y, w')"
  then obtain x w1 where m: "m w = (Inr x, w1)" and f: "f x w1 = (Inr y, w')" by (auto simp: bindIO_Inr)
  from assms(1) m obtain es where 1: "obs w1 = foldl add (obs w) es" "Q x es" by (rule emitsD)
  from assms(2) [OF 1(2)] f obtain es' where "obs w' = foldl add (obs w1) es'" "P y (es @ es')" by (rule emitsD)
  with 1 show "\<exists>es. obs w' = foldl add (obs w) es \<and> P y es" by (intro exI [of _ "es @ es'"]) simp
qed

lemma emits_keeps:
  assumes "keeps obs m"
  shows "emits obs add m (\<lambda>x es. es = [])"
  using keepsD [OF assms] by (simp add: emits_def)

text \<open>A quiet first step.\<close>

lemma emits_after:
  assumes "keeps obs m" "\<And>x. emits obs add (f x) P"
  shows "emits obs add (bindIO m f) P"
  by (rule emits_bind [OF emits_keeps [OF assms(1)]]) (use assms(2) in simp)

lemma emits_then:
  assumes "keeps obs m" "emits obs add n P"
  shows "emits obs add (thenIO m n) P"
  unfolding thenIO_def using assms by (rule emits_after)

lemma emits_send:
  assumes "logs host obs add"
  shows "emits obs add (send_message host h m f) (\<lambda>x es. es = [Sent (content m)])"
  unfolding emits_def using send_message_log [OF assms, of h m f] by fastforce

lemma emits_recv:
  assumes "logs host obs add"
  shows "emits obs add (recv_message host h m recv_none) (\<lambda>(n, m') es. es = [Received (content m')])"
  unfolding emits_def using recv_message_log [OF assms, of h m] by fastforce

lemma emits_message_string:
  assumes "logs host obs add" "sized_messages host"
  shows "emits obs add (message_string host t) (\<lambda>m es. es = [] \<and> content m = t)"
  unfolding emits_def
  using keepsD [OF keeps_message_ops(3) [OF assms(1)]] builds_Inr [OF builds_message_string [OF assms(2)]]
  by fastforce

lemma keeps_print: "logs host obs add \<Longrightarrow> keeps obs (print host s)"
  unfolding print_def by (rule keeps_log(2))

lemma keeps_case_option: "(\<And>n. keeps f (g n)) \<Longrightarrow> keeps f m \<Longrightarrow> keeps f (case x of Some n \<Rightarrow> g n | None \<Rightarrow> m)"
  by (cases x) simp_all

lemma emits_poll_pass:
  assumes hist: "logs host obs add" and sized: "sized_messages host"
  shows "emits obs add (poll_pass host payload n sock items)
           (\<lambda>(go_on, _) es. \<exists>rs. length rs = of_bool go_on \<and> es = Sent payload # map Received rs)"
  unfolding poll_pass_def case_prod_unfold
  apply (rule emits_bind [OF emits_message_string [OF hist sized]])
  apply (rule emits_then [OF keeps_print [OF hist]])
  apply (rule emits_bind [OF emits_send [OF hist]])
  apply (rule emits_then [OF keeps_case_option [OF keeps_print [OF hist] keeps_return]])
  apply (rule emits_after [OF keeps_socket_ops(5) [OF hist]])
  apply (rule emits_after [OF keeps_message_ops(1) [OF hist]])
  apply (rule emits_bind [where Q = "\<lambda>(go_on, _) es. \<exists>rs. length rs = of_bool go_on \<and> es = map Received rs"])
  subgoal
    apply (rule emits_if)
    subgoal
      apply (rule emits_bind [OF emits_recv [OF hist]])
      apply (rule emits_then [OF keeps_print [OF hist]])
      apply (rule emits_return)
      apply (auto simp: length_Suc_conv)
      done
    subgoal
      apply (rule emits_then [OF keeps_print [OF hist]])
      apply (rule emits_after [OF keeps_socket_ops(6) [OF hist]])
      apply (rule emits_then [OF keeps_print [OF hist]])
      apply (rule emits_return)
      apply auto
      done
    done
  apply (rule emits_then [OF keeps_message_ops(2) [OF hist]])
  apply (rule emits_then [OF keeps_message_ops(2) [OF hist]])
  apply (rule emits_return)
  apply auto
  done

text \<open>A request and its reply, for each of the replies.\<close>

definition exchanges :: "string \<Rightarrow> bytes list \<Rightarrow> event list" where
  "exchanges request rs = concat (map (\<lambda>r. [Sent request, Received r]) rs)"

lemma exchanges_simps [simp]:
  "exchanges request [] = []" "exchanges request (r # rs) = Sent request # Received r # exchanges request rs"
  by (simp_all add: exchanges_def)

lemma exchanges_next:
  "length rs = n \<Longrightarrow> \<exists>rs'. length rs' = Suc n \<and> Sent q # Received r # exchanges q rs = exchanges q rs'"
  by (intro exI [of _ "r # rs"]) simp

lemma emits_poll_loop:
  assumes hist: "logs host obs add" and sized: "sized_messages host"
  shows "emits obs add (poll_loop host payload n left sock items)
           (\<lambda>_ es. \<exists>rs. length rs \<le> left \<and> es = exchanges payload rs @ (if length rs = left then [] else [Sent payload]))"
proof (induction left arbitrary: n sock items)
  case 0
  show ?case unfolding poll_loop.simps by (rule emits_return) simp
next
  case (Suc left)
  show ?case
    unfolding poll_loop.simps case_prod_unfold
  proof (rule emits_bind [OF emits_poll_pass [OF hist sized]])
    fix x :: "bool \<times> socket_t \<times> zmq_pollitem_t list" and es
    assume "(case x of (go_on, _) \<Rightarrow> \<lambda>es. \<exists>rs. length rs = of_bool go_on \<and> es = Sent payload # map Received rs) es"
    then obtain rs where x: "length rs = of_bool (fst x)" "es = Sent payload # map Received rs"
      by (auto simp: case_prod_unfold)
    show "emits obs add
       (if fst x then poll_loop host payload (n + 1) left (fst (snd x)) (snd (snd x)) else returnIO (fst (snd x)))
       (\<lambda>_ es'. \<exists>rs. length rs \<le> Suc left \<and>
          es @ es' = exchanges payload rs @ (if length rs = Suc left then [] else [Sent payload]))"
    proof (cases "fst x")
      case True
      with x obtain r where es: "es = [Sent payload, Received r]" by (auto simp: length_Suc_conv)
      show ?thesis unfolding if_P [OF True]
      proof (rule emits_mono [OF Suc.IH])
        fix y es'
        assume "\<exists>rs. length rs \<le> left \<and> es' = exchanges payload rs @ (if length rs = left then [] else [Sent payload])"
        then obtain rs where "length rs \<le> left" "es' = exchanges payload rs @ (if length rs = left then [] else [Sent payload])"
          by blast
        with es show "\<exists>rs. length rs \<le> Suc left \<and>
            es @ es' = exchanges payload rs @ (if length rs = Suc left then [] else [Sent payload])"
          by (intro exI [of _ "r # rs"]) simp
      qed
    next
      case False
      then show ?thesis unfolding if_not_P [OF False] using x by (intro emits_return exI [of _ "[]"]) simp
    qed
  qed
qed

lemma emits_block_pass:
  assumes hist: "logs host obs add" and sized: "sized_messages host"
  shows "emits obs add (block_pass host payload n sock) (\<lambda>_ es. \<exists>r. es = exchanges payload [r])"
  unfolding block_pass_def case_prod_unfold
  apply (rule emits_bind [OF emits_message_string [OF hist sized]])
  apply (rule emits_then [OF keeps_print [OF hist]])
  apply (rule emits_bind [OF emits_send [OF hist]])
  apply (rule emits_after [OF keeps_message_ops(1) [OF hist]])
  apply (rule emits_bind [OF emits_recv [OF hist]])
  apply (rule emits_then [OF keeps_print [OF hist]])
  apply (rule emits_then [OF keeps_log(3) [OF hist]])
  apply (rule emits_then [OF keeps_message_ops(2) [OF hist]])
  apply (rule emits_mono [OF emits_keeps [OF keeps_message_ops(2) [OF hist]]])
  apply auto
  done

lemma emits_block_loop:
  assumes hist: "logs host obs add" and sized: "sized_messages host"
  shows "emits obs add (block_loop host payload n left sock)
           (\<lambda>_ es. \<exists>rs. length rs = left \<and> es = exchanges payload rs)"
proof (induction left arbitrary: n)
  case 0
  show ?case unfolding block_loop.simps by (rule emits_return) simp
next
  case (Suc left)
  show ?case
    unfolding block_loop.simps thenIO_def
    by (rule emits_bind [OF emits_block_pass [OF hist sized]]) (auto intro!: emits_mono [OF Suc.IH] intro: exchanges_next)
qed

lemma emits_no_block:
  assumes hist: "logs host obs add" and sized: "sized_messages host"
  shows "emits obs add (no_block_socket host addr msg)
           (\<lambda>_ es. \<exists>rs. length rs \<le> 10 \<and> es = exchanges msg rs @ (if length rs = 10 then [] else [Sent msg]))"
  unfolding no_block_socket_def
  apply (rule emits_after [OF keeps_socket_ops(1) [OF hist]])
  apply (rule emits_after [OF keeps_socket_ops(2) [OF hist]])
  apply (rule emits_then [OF keeps_socket_ops(3) [OF hist]])
  apply (rule emits_then [OF keeps_socket_ops(4) [OF hist]])
  apply (rule emits_bind [OF emits_poll_loop [OF hist sized]])
  apply (rule emits_then [OF keeps_socket_ops(7) [OF hist]])
  apply (rule emits_after [OF keeps_socket_ops(8) [OF hist]])
  apply (rule emits_return)
  apply auto
  done

lemma emits_block:
  assumes hist: "logs host obs add" and sized: "sized_messages host"
  shows "emits obs add (block_socket host addr msg) (\<lambda>_ es. \<exists>rs. length rs = 10 \<and> es = exchanges msg rs)"
  unfolding block_socket_def
  apply (rule emits_after [OF keeps_socket_ops(1) [OF hist]])
  apply (rule emits_after [OF keeps_socket_ops(2) [OF hist]])
  apply (rule emits_then [OF keeps_print [OF hist]])
  apply (rule emits_then [OF keeps_socket_ops(4) [OF hist]])
  apply (unfold thenIO_def, rule emits_bind [OF emits_block_loop [OF hist sized]])
  apply (rule emits_after [OF keeps_socket_ops(7) [OF hist]])
  apply (rule emits_after [OF keeps_socket_ops(8) [OF hist]])
  apply (rule emits_return)
  apply auto
  done

lemma emits_raid:
  assumes hist: "logs host obs add" and sized: "sized_messages host"
  shows "emits obs add (raid_exchange host addr message) (\<lambda>x es. es = [Sent message, Received x])"
  unfolding raid_exchange_def case_prod_unfold
  apply (rule emits_after [OF keeps_socket_ops(1) [OF hist]])
  apply (rule emits_after [OF keeps_socket_ops(2) [OF hist]])
  apply (rule emits_then [OF keeps_socket_ops(4) [OF hist]])
  apply (rule emits_bind [OF emits_message_string [OF hist sized]])
  apply (rule emits_bind [OF emits_send [OF hist]])
  apply (rule emits_after [OF keeps_message_ops(1) [OF hist]])
  apply (rule emits_bind [OF emits_recv [OF hist]])
  apply (rule emits_then [OF keeps_message_ops(2) [OF hist]])
  apply (rule emits_then [OF keeps_message_ops(2) [OF hist]])
  apply (rule emits_then [OF keeps_socket_ops(7) [OF hist]])
  apply (rule emits_after [OF keeps_socket_ops(8) [OF hist]])
  apply (rule emits_return)
  apply (auto simp: to_string_content)
  done

text \<open>C5: A client that returns has worked in lock step. The polling client has exchanged at most ten
  requests, each followed by its reply before the next is sent, and if fewer than ten were answered
  it has then sent one more request, whose reply did not come within its second, and nothing after
  it. The blocking client has exchanged exactly ten, and a call of \<open>raid_monitor_server.h\<close> exactly
  one, returning the bytes of the reply.\<close>

theorem client_exchanges:
  assumes "traced host trace" "sized_messages host"
  shows "(no_block_socket host addr msg w = (Inr (), w1) \<longrightarrow>
           (\<exists>rs. length rs \<le> 10 \<and>
              trace w1 = trace w @ exchanges msg rs @ (if length rs = 10 then [] else [Sent msg]))) \<and>
         (block_socket host addr msg w = (Inr (), w2) \<longrightarrow>
           (\<exists>rs. length rs = 10 \<and> trace w2 = trace w @ exchanges msg rs)) \<and>
         (request_data_from_raid_at host ip port msg w = (Inr r, w3) \<longrightarrow>
           trace w3 = trace w @ [Sent msg, Received r])"
proof (intro conjI impI)
  assume "no_block_socket host addr msg w = (Inr (), w1)"
  from emitsD [OF emits_no_block [OF assms] this] show
    "\<exists>rs. length rs \<le> 10 \<and> trace w1 = trace w @ exchanges msg rs @ (if length rs = 10 then [] else [Sent msg])"
    unfolding add_events by metis
next
  assume "block_socket host addr msg w = (Inr (), w2)"
  from emitsD [OF emits_block [OF assms] this] show "\<exists>rs. length rs = 10 \<and> trace w2 = trace w @ exchanges msg rs"
    unfolding add_events by metis
next
  assume "request_data_from_raid_at host ip port msg w = (Inr r, w3)"
  then have "raid_exchange host (''tcp://'' @ ip @ '':'' @ port) msg w = (Inr r, w3)"
    by (simp add: request_data_from_raid_at_def)
  from emitsD [OF emits_raid [OF assms] this] show "trace w3 = trace w @ [Sent msg, Received r]"
    unfolding add_events by metis
qed

lemma event_request:
  "request_data_from_raid_at event_host ''10.0.0.1'' ''20777'' ''DiskIO'' \<lparr>incoming = [''{}''], trace = []\<rparr> =
   (Inr ''{}'', \<lparr>incoming = [], trace = [Sent ''DiskIO'', Received ''{}'']\<rparr>)"
  by (simp add: request_data_from_raid_at_def raid_exchange_def context_new_def context_default_def socket_new_def
      connect_def message_string_def message_mem_def message_size_def fill_def memcpy_def send_message_def
      nbytes_result_def message_default_def recv_message_def message_destroy_def socket_destroy_def socket_close_def
      context_close_def term_loop.simps bindIO_def thenIO_def assert_call_def call_def plain_def assertIO_def
      event_host_def still_def libzmq.defs calm_def to_string_def msg_size_def no_msg_def)

theorem client_exchanges_witness:
  "\<exists>w. request_data_from_raid_at event_host ''10.0.0.1'' ''20777'' ''DiskIO'' \<lparr>incoming = [''{}''], trace = []\<rparr> =
     (Inr ''{}'', w) \<and> trace w = [Sent ''DiskIO'', Received ''{}'']"
  using client_exchanges [OF event_traced event_sized] event_request by fastforce

text \<open>Without arguments the client asks for the disks at the default address; with an address, a
  port and a request it uses those. With one or two arguments, which the test \<open>argc < 2\<close> lets
  through, it makes a string of the null pointer that ends \<open>argv\<close> and sends nothing.\<close>

theorem client_command_line:
  "client_args [prog] = Inr (''tcp://127.0.0.1:20777'', ''DisksOverview'') \<and>
   client_args (prog # ip # port # msg # more_args) = Inr (''tcp://'' @ ip @ '':'' @ port, msg) \<and>
   client_args [prog, ip] = Inl Null_String \<and> client_args [prog, ip, port] = Inl Null_String \<and>
   client_main host [prog, ip] w = (Inl Null_String, w) \<and> client_main host [prog, ip, port] w = (Inl Null_String, w)"
  by (simp add: client_args_def argv_string_def client_main_def thenIO_def bindIO_def)

end
