(* ===== verification/Session.thy ===== *)
theory Session
  imports "HOL-Library.Sublist" Answers Client
begin

text \<open>
  The programs together: the server with any number of clients on one channel: what libzmq
  promises of a REP socket and its REQ peers (\<open>connected\<close>), and what each client then gets.
\<close>

section \<open>The clients of a server\<close>

text \<open>
  \<open>who\<close> says for each request of the server's history which peer it came from. Of the messages of
  the server those of peer \<open>k\<close> are selected by it, a reply going to the peer of its request.
\<close>

fun for_peer :: "'p \<Rightarrow> 'p list \<Rightarrow> 'a list \<Rightarrow> 'a list" where
  "for_peer k (p # who) (x # xs) = (if p = k then x # for_peer k who xs else for_peer k who xs)"
| "for_peer k _ _ = []"

text \<open>
  Nothing is made up, lost in between, doubled or reordered on the way: what one side has received
  is a beginning of what the other side has sent it.
\<close>

definition connected :: "'p \<Rightarrow> 'p list \<Rightarrow> bytes list \<Rightarrow> bytes list \<Rightarrow> bytes list \<Rightarrow> bytes list \<Rightarrow> bool" where
  "connected k who server_received server_sent client_received client_sent \<longleftrightarrow>
     length who = length server_received \<and>
     prefix (for_peer k who server_received) client_sent \<and>
     prefix client_received (for_peer k who server_sent)"

lemma for_peer_replies:
  "list_all2 P (take (length rs) qs) rs \<Longrightarrow> length who = length qs \<Longrightarrow>
   list_all2 P (take (length (for_peer k who rs)) (for_peer k who qs)) (for_peer k who rs) \<and>
   length (for_peer k who rs) \<le> length (for_peer k who qs)"
proof (induction rs arbitrary: who qs)
  case Nil
  then show ?case by (cases who) simp_all
next
  case (Cons r rs)
  then obtain q qs' p who' where "qs = q # qs'" "who = p # who'"
    by (cases qs; cases who) auto
  with Cons show ?case by auto
qed

lemma list_all2_prefix:
  assumes "list_all2 P (take (length rs) qs) rs" "length rs \<le> length qs" "prefix rs' rs" "prefix qs qs'"
  shows "list_all2 P (take (length rs') qs') rs'"
proof -
  from assms(3,4) obtain r q where eq: "rs = rs' @ r" "qs' = qs @ q" by (auto simp: prefix_def)
  with assms(1,2) show ?thesis
    by (auto simp: list_all2_append2 take_add dest: list_all2_lengthD)
qed

lemma connected_replies:
  assumes "list_all2 P (take (length rs) qs) rs" "connected k who qs rs got sent"
  shows "list_all2 P (take (length got) sent) got"
proof -
  have c: "length who = length qs" "prefix (for_peer k who qs) sent" "prefix got (for_peer k who rs)"
    using assms(2) by (simp_all add: connected_def)
  from for_peer_replies [OF assms(1) c(1), of k] list_all2_prefix [OF _ _ c(3,2)] show ?thesis by blast
qed

section \<open>What a client gets\<close>

lemma main_history:
  assumes "histories host sent received" "main host n w = (res, w')"
  shows "\<exists>qs rs. received w' = received w @ qs \<and> sent w' = sent w @ rs \<and>
      list_all2 (reply_for host) (take (length rs) qs) rs"
proof -
  obtain r1 w1 where s: "start host w = (r1, w1)" by (meson surj_pair)
  note k = keeps_both [OF keeps_start [OF assms(1)] s]
  show ?thesis
  proof (cases r1)
    case (Inl e)
    then show ?thesis using s k assms(2) by (auto simp: main_def bindIO_def)
  next
    case (Inr x)
    then obtain mon sock where "serve host sock n mon w1 = (res, w')"
      using s assms(2) by (auto simp: main_def bindIO_def split: prod.splits)
    from serve_history [OF assms(1) this] k show ?thesis by auto
  qed
qed

text \<open>The three ways a client asks.\<close>

definition client_run :: "('w, 'x) host_scheme \<Rightarrow> string \<Rightarrow> string \<Rightarrow> string \<Rightarrow> string \<Rightarrow> 'w \<Rightarrow> 'w \<Rightarrow> bool" where
  "client_run host addr ip port msg v v' \<longleftrightarrow>
     no_block_socket host addr msg v = (Inr (), v') \<or> block_socket host addr msg v = (Inr (), v') \<or>
     (\<exists>r. request_data_from_raid_at host ip port msg v = (Inr r, v'))"

text \<open>The two histories of a client.\<close>

lemma add_exchanges: "foldl add_both (s, r) (exchanges q rs) = (s @ replicate (length rs) q, r @ rs)"
  by (induction rs arbitrary: s r) simp_all

lemma raid_history:
  assumes "histories host sent received" "sized_messages host"
    and "request_data_from_raid_at host ip port msg v = (Inr x, v')"
  shows "sent v' = sent v @ [msg] \<and> received v' = received v @ [x]"
proof -
  from assms(3) have "raid_exchange host (''tcp://'' @ ip @ '':'' @ port) msg v = (Inr x, v')"
    by (simp add: request_data_from_raid_at_def)
  from emitsD [OF emits_raid [OF assms(1,2)] this] have
    "both sent received v' = foldl add_both (both sent received v) [Sent msg, Received x]" by metis
  then show ?thesis by (simp add: both_def)
qed

lemma client_run_history:
  assumes "histories host sent received" "sized_messages host" "client_run host addr ip port msg v v'"
  shows "\<exists>m rs. sent v' = sent v @ replicate m msg \<and> received v' = received v @ rs \<and> length rs \<le> m"
  using assms(3) unfolding client_run_def
proof (elim disjE exE)
  assume "no_block_socket host addr msg v = (Inr (), v')"
  from emitsD [OF emits_no_block [OF assms(1,2)] this] obtain es rs where
    "both sent received v' = foldl add_both (both sent received v) es"
    "es = exchanges msg rs @ (if length rs = 10 then [] else [Sent msg])" by metis
  then have "sent v' = sent v @ replicate (length rs) msg @ (if length rs = 10 then [] else [msg])"
    "received v' = received v @ rs" by (simp_all add: both_def add_exchanges split: if_splits)
  then show ?thesis
    by (intro exI [of _ "if length rs = 10 then 10 else Suc (length rs)"] exI [of _ rs])
      (simp add: replicate_append_same)
next
  assume "block_socket host addr msg v = (Inr (), v')"
  from emitsD [OF emits_block [OF assms(1,2)] this] obtain rs where
    "both sent received v' = foldl add_both (both sent received v) (exchanges msg rs)" by metis
  then show ?thesis by (intro exI [of _ "length rs"] exI [of _ rs]) (simp add: both_def add_exchanges)
next
  fix x
  assume "request_data_from_raid_at host ip port msg v = (Inr x, v')"
  from raid_history [OF assms(1,2) this] show ?thesis by (intro exI [of _ 1] exI [of _ "[x]"]) simp
qed

text \<open>C2: with any number of clients on one server, each client gets only replies to its own request:
  whatever the server has run through, also when it died, every message a client received is the dump
  of a value the monitor's function for that client's request returned, or \<open>invalid request\<close>; and the
  string that \<open>request_data_from_raid\<close> returns is such a reply.\<close>

theorem session_replies:
  assumes "histories host sent received" "main host n w = (res, w')" "sent w = []" "received w = []"
    and "histories host' sent' received'" "sized_messages host'" "sent' v = []" "received' v = []"
    and "client_run host' addr ip port msg v v'"
    and "connected k who (received w') (sent w') (received' v') (sent' v')"
  shows "(\<forall>r\<in>set (received' v'). reply_for host msg r) \<and>
         (request_data_from_raid_at host' ip port msg v = (Inr x, v') \<longrightarrow> reply_for host msg x)"
proof -
  from main_history [OF assms(1,2)] assms(3,4) have
    "list_all2 (reply_for host) (take (length (sent w')) (received w')) (sent w')" by auto
  from connected_replies [OF this assms(10)] have
    replies: "list_all2 (reply_for host) (take (length (received' v')) (sent' v')) (received' v')" .
  from client_run_history [OF assms(5,6,9)] assms(7,8) obtain m where
    "sent' v' = replicate m msg" "length (received' v') \<le> m" by auto
  with replies have got: "\<forall>r\<in>set (received' v'). reply_for host msg r"
    by (auto simp: list_all2_conv_all_nth in_set_conv_nth min_def split: if_splits)
  moreover have "reply_for host msg x" if "request_data_from_raid_at host' ip port msg v = (Inr x, v')"
  proof -
    have "received' v' = received' v @ [x]" using raid_history [OF assms(5,6) that] ..
    with got show ?thesis by simp
  qed
  ultimately show ?thesis by blast
qed

lemma queue_exchange:
  "request_data_from_raid_at queue_host ip port q \<lparr>inbox = [r], outbox = [], taken = []\<rparr> =
   (Inr r, \<lparr>inbox = [], outbox = [q], taken = [r]\<rparr>)"
  by (simp add: request_data_from_raid_at_def raid_exchange_def context_new_def context_default_def socket_new_def
      connect_def message_string_def message_mem_def message_size_def fill_def memcpy_def send_message_def
      nbytes_result_def message_default_def recv_message_def message_destroy_def socket_destroy_def socket_close_def
      context_close_def term_loop.simps bindIO_def thenIO_def assert_call_def call_def plain_def assertIO_def
      queue_host_def still_def libzmq.defs calm_def to_string_def msg_size_def no_msg_def)

lemma busy_run:
  obtains mon w' q r where "main busy_host 1 \<lparr>inbox = [], outbox = [], taken = []\<rparr> = (Inr mon, w')"
    "taken w' = [q]" "outbox w' = [r]"
proof -
  let ?w = "\<lparr>inbox = [], outbox = [], taken = []\<rparr>"
  from start_succeeds [OF busy_willing busy_readable] obtain ctx sock mon w1 where
    s: "start busy_host ?w = (Inr (ctx, sock, mon), w1)" "cached_text mon"
    by (rule succeedsE [where w = ?w]) auto
  from serve_ends [OF busy_willing busy_readable busy_histories s(2), of "handle sock" 1 w1] obtain res w' qs rs where
    m: "serve busy_host (handle sock) 1 mon w1 = (res, w')" "taken w' = taken w1 @ qs" "outbox w' = outbox w1 @ rs"
      "ended busy_host 1 res w' qs rs" by blast
  from m(4) busy_rates obtain mon' where "res = Inr mon'" "length qs = 1" "length rs = 1"
    by (auto simp: ended_def split: sum.splits)
  moreover from this have "main busy_host 1 ?w = (Inr mon', w')" using s(1) m(1) by (simp add: main_def bindIO_simps)
  ultimately show thesis
    using m(2,3) keeps_both [OF keeps_start [OF busy_histories] s(1)] that by (auto simp: length_Suc_conv)
qed

theorem session_replies_witness:
  "\<exists>q r v. request_data_from_raid_at queue_host ''10.0.0.1'' ''20777'' q \<lparr>inbox = [r], outbox = [], taken = []\<rparr> = (Inr r, v)
     \<and> reply_for busy_host q r"
proof -
  obtain mon w' q r where main: "main busy_host 1 \<lparr>inbox = [], outbox = [], taken = []\<rparr> = (Inr mon, w')"
    and h: "taken w' = [q]" "outbox w' = [r]" by (rule busy_run)
  let ?v = "\<lparr>inbox = [r], outbox = [], taken = []\<rparr>" and ?v' = "\<lparr>inbox = [], outbox = [q], taken = [r]\<rparr>"
  have "client_run queue_host ''addr'' ''10.0.0.1'' ''20777'' q ?v ?v'"
    unfolding client_run_def queue_exchange by blast
  moreover have "connected () [()] (taken w') (outbox w') (taken ?v') (outbox ?v')" by (simp add: connected_def h)
  ultimately have "reply_for busy_host q r"
    using session_replies [OF busy_histories main _ _ queue_histories queue_sized, of ?v "''addr''" "''10.0.0.1''" "''20777''" q ?v' "()" "[()]"]
    by simp
  then show ?thesis using queue_exchange by blast
qed

end
