(* ===== verification/Monitor_Life.thy ===== *)
theory Monitor_Life
  imports Cpu_Monitor Memory_Monitor Disk_Monitor
begin

text \<open>
  The life of a \<open>Monitor\<close>: \<open>CreateMonitor\<close> and \<open>Monitor::Monitor\<close> make the three monitors in the
  order of the members, each through \<open>Factory::Create\<close>, which starts the two sampling threads; the
  defaulted destructor deletes them in the reverse order. The steps of the owner and of the two
  threads interleave freely.
\<close>

section \<open>The parts and their owner\<close>

text \<open>What the owner does next.\<close>

datatype owner_pc =
    Make_Cpu
  | Make_Memory
  | Make_Disk
  | In_Use
  | Stop_Disk
  | Join_Disk
  | Free_Disk
  | Free_Memory
  | Stop_Cpu
  | Free_Cpu
  | Gone

text \<open>The private objects behind the three pointers, \<open>None\<close> until they are made. Of the memory
  monitor's only its life counts here, as its members are not used.\<close>

record Monitor =
  owner :: owner_pc
  cpuMonitor :: "CPUPrivate option"
  memMonitor :: "bool option"
  diskMonitor :: "DiskPrivate option"

text \<open>\<open>Factory::Create\<close> makes an object on the heap, which the pointer it returns owns.\<close>

definition Create :: "'a \<Rightarrow> 'a option" where
  "Create os = Some os"

text \<open>The constructors of the three monitors: the private object, with for the processor the two empty
  strings of its cache.\<close>

definition CPUMonitor_new :: "CPUPrivate \<times> CPUMonitor" where
  "CPUMonitor_new = (CPUPrivate_init, \<lparr>modelName = [], baseClock = []\<rparr>)"

definition MemoryMonitor_new :: bool where
  "MemoryMonitor_new = True"

definition DiskMonitor_new :: DiskPrivate where
  "DiskMonitor_new = DiskPrivate_init"

lemmas monitor_new_defs = Create_def CPUMonitor_new_def MemoryMonitor_new_def DiskMonitor_new_def

text \<open>\<open>CreateMonitor\<close>, when it calls the constructor.\<close>

definition CreateMonitor :: Monitor where
  "CreateMonitor = \<lparr>owner = Make_Cpu, cpuMonitor = None, memMonitor = None, diskMonitor = None\<rparr>"

text \<open>The constructors: \<open>Factory::Create\<close> of each member of the initialiser list.\<close>

inductive construct_step :: "Monitor \<Rightarrow> Monitor \<Rightarrow> bool" where
  make_cpu: "owner m = Make_Cpu \<Longrightarrow>
    construct_step m (m\<lparr>cpuMonitor := Create (fst CPUMonitor_new), owner := Make_Memory\<rparr>)"
| make_memory: "owner m = Make_Memory \<Longrightarrow>
    construct_step m (m\<lparr>memMonitor := Create MemoryMonitor_new, owner := Make_Disk\<rparr>)"
| make_disk: "owner m = Make_Disk \<Longrightarrow>
    construct_step m (m\<lparr>diskMonitor := Create DiskMonitor_new, owner := In_Use\<rparr>)"

text \<open>The destructors, each member's object after the body of its own.\<close>

inductive destroy_step :: "Monitor \<Rightarrow> Monitor \<Rightarrow> bool" where
  begin_destroy: "owner m = In_Use \<Longrightarrow> destroy_step m (m\<lparr>owner := Stop_Disk\<rparr>)"
| stop_disk: "owner m = Stop_Disk \<Longrightarrow> diskMonitor m = Some d \<Longrightarrow>
    destroy_step m (m\<lparr>diskMonitor := Some (disk_stop d), owner := Join_Disk\<rparr>)"
| join_disk: "owner m = Join_Disk \<Longrightarrow> diskMonitor m = Some d \<Longrightarrow> DiskPrivate.pc d = disk_pc.Finished \<Longrightarrow>
    destroy_step m (m\<lparr>diskMonitor := Some (disk_join d), owner := Free_Disk\<rparr>)"
| free_disk: "owner m = Free_Disk \<Longrightarrow> diskMonitor m = Some d \<Longrightarrow>
    destroy_step m (m\<lparr>diskMonitor := Some (disk_free d), owner := Free_Memory\<rparr>)"
| free_memory: "owner m = Free_Memory \<Longrightarrow>
    destroy_step m (m\<lparr>memMonitor := Some False, owner := Stop_Cpu\<rparr>)"
| stop_cpu: "owner m = Stop_Cpu \<Longrightarrow> cpuMonitor m = Some c \<Longrightarrow>
    destroy_step m (m\<lparr>cpuMonitor := Some (cpu_stop c), owner := Free_Cpu\<rparr>)"
| free_cpu: "owner m = Free_Cpu \<Longrightarrow> cpuMonitor m = Some c \<Longrightarrow>
    destroy_step m (m\<lparr>cpuMonitor := Some (cpu_free c), owner := Gone\<rparr>)"

text \<open>A step of one of the threads.\<close>

inductive cpu_turn :: "Monitor \<Rightarrow> Monitor \<Rightarrow> bool" where
  cpu_goes: "cpuMonitor m = Some c \<Longrightarrow> cpu_thread c c' \<Longrightarrow> cpu_turn m (m\<lparr>cpuMonitor := Some c'\<rparr>)"

inductive disk_turn :: "Monitor \<Rightarrow> Monitor \<Rightarrow> bool" where
  disk_goes: "diskMonitor m = Some d \<Longrightarrow> disk_thread d d' \<Longrightarrow> disk_turn m (m\<lparr>diskMonitor := Some d'\<rparr>)"

definition monitor_step :: "Monitor \<Rightarrow> Monitor \<Rightarrow> bool" where
  "monitor_step m n \<longleftrightarrow> construct_step m n \<or> destroy_step m n \<or> cpu_turn m n \<or> disk_turn m n"

abbreviation monitor_reachable :: "Monitor \<Rightarrow> bool" where
  "monitor_reachable m \<equiv> monitor_step\<^sup>*\<^sup>* CreateMonitor m"

inductive_cases construct_stepE: "construct_step m n"
inductive_cases destroy_stepE: "destroy_step m n"
inductive_cases cpu_turnE: "cpu_turn m n"
inductive_cases disk_turnE: "disk_turn m n"

section \<open>What holds at each point of the owner's program\<close>

definition cpu_phase :: "owner_pc \<Rightarrow> CPUPrivate option \<Rightarrow> bool" where
  "cpu_phase p co \<longleftrightarrow>
     (case co of
        None \<Rightarrow> p = Make_Cpu
      | Some c \<Rightarrow> p \<noteq> Make_Cpu \<and> cpu_reachable c \<and> (CPUPrivate.allocated c \<longleftrightarrow> p \<noteq> Gone) \<and>
          (running c \<longleftrightarrow> p \<noteq> Free_Cpu \<and> p \<noteq> Gone))"

definition memory_phase :: "owner_pc \<Rightarrow> bool option \<Rightarrow> bool" where
  "memory_phase p mo \<longleftrightarrow>
     mo = (if p \<in> {Make_Cpu, Make_Memory} then None else Some (p \<notin> {Stop_Cpu, Free_Cpu, Gone}))"

definition disk_phase :: "owner_pc \<Rightarrow> DiskPrivate option \<Rightarrow> bool" where
  "disk_phase p dk \<longleftrightarrow>
     (case dk of
        None \<Rightarrow> p \<in> {Make_Cpu, Make_Memory, Make_Disk}
      | Some d \<Rightarrow> p \<notin> {Make_Cpu, Make_Memory, Make_Disk} \<and> disk_reachable d \<and>
          (DiskPrivate.allocated d \<longleftrightarrow> p \<in> {In_Use, Stop_Disk, Join_Disk, Free_Disk}) \<and>
          (ioThreadRunning d \<longleftrightarrow> p \<in> {In_Use, Stop_Disk}) \<and>
          (joined d \<longleftrightarrow> p \<notin> {In_Use, Stop_Disk, Join_Disk}))"

definition monitor_phase :: "Monitor \<Rightarrow> bool" where
  "monitor_phase m \<longleftrightarrow> cpu_phase (owner m) (cpuMonitor m) \<and> memory_phase (owner m) (memMonitor m) \<and>
     disk_phase (owner m) (diskMonitor m)"

lemmas phase_defs = monitor_phase_def cpu_phase_def memory_phase_def disk_phase_def

lemma cpu_more: "cpu_reachable c \<Longrightarrow> cpu_step c c' \<Longrightarrow> cpu_reachable c'"
  by (rule rtranclp.rtrancl_into_rtrancl)

lemma disk_more: "disk_reachable d \<Longrightarrow> disk_step d d' \<Longrightarrow> disk_reachable d'"
  by (rule rtranclp.rtrancl_into_rtrancl)

lemma construct_phase: "construct_step m n \<Longrightarrow> monitor_phase m \<Longrightarrow> monitor_phase n"
  by (elim construct_stepE)
    (auto simp: phase_defs monitor_new_defs CPUPrivate_init_def DiskPrivate_init_def split: option.splits if_splits)

lemma destroy_phase: "destroy_step m n \<Longrightarrow> monitor_phase m \<Longrightarrow> monitor_phase n"
proof (elim destroy_stepE)
  fix d
  assume "monitor_phase m" "owner m = Stop_Disk" "diskMonitor m = Some d"
    "n = m\<lparr>diskMonitor := Some (disk_stop d), owner := Join_Disk\<rparr>"
  then show "monitor_phase n"
    using disk_more [OF _ disk_stops [of d]]
    by (auto simp: phase_defs disk_stop_def split: option.splits)
next
  fix d
  assume "monitor_phase m" "owner m = Join_Disk" "diskMonitor m = Some d" "DiskPrivate.pc d = disk_pc.Finished"
    "n = m\<lparr>diskMonitor := Some (disk_join d), owner := Free_Disk\<rparr>"
  then show "monitor_phase n"
    using disk_more [OF _ disk_joins [of d]]
    by (auto simp: phase_defs disk_join_def split: option.splits)
next
  fix d
  assume "monitor_phase m" "owner m = Free_Disk" "diskMonitor m = Some d"
    "n = m\<lparr>diskMonitor := Some (disk_free d), owner := Free_Memory\<rparr>"
  then show "monitor_phase n"
    using disk_more [OF _ disk_frees [of d]]
    by (auto simp: phase_defs disk_free_def split: option.splits)
next
  fix c
  assume "monitor_phase m" "owner m = Stop_Cpu" "cpuMonitor m = Some c"
    "n = m\<lparr>cpuMonitor := Some (cpu_stop c), owner := Free_Cpu\<rparr>"
  then show "monitor_phase n"
    using cpu_more [OF _ cpu_stops [of c]]
    by (auto simp: phase_defs cpu_stop_def split: option.splits)
next
  fix c
  assume "monitor_phase m" "owner m = Free_Cpu" "cpuMonitor m = Some c"
    "n = m\<lparr>cpuMonitor := Some (cpu_free c), owner := Gone\<rparr>"
  then show "monitor_phase n"
    using cpu_more [OF _ cpu_frees [of c]]
    by (auto simp: phase_defs cpu_free_def split: option.splits)
qed (auto simp: phase_defs split: option.splits)

lemma cpu_turn_phase: "cpu_turn m n \<Longrightarrow> monitor_phase m \<Longrightarrow> monitor_phase n"
proof (elim cpu_turnE)
  fix c c'
  assume "monitor_phase m" "cpuMonitor m = Some c" "cpu_thread c c'" "n = m\<lparr>cpuMonitor := Some c'\<rparr>"
  then show "monitor_phase n"
    using cpu_more [OF _ cpu_runs [of c c']] cpu_thread_keeps [of c c']
    by (auto simp: phase_defs split: option.splits)
qed

lemma disk_turn_phase: "disk_turn m n \<Longrightarrow> monitor_phase m \<Longrightarrow> monitor_phase n"
proof (elim disk_turnE)
  fix d d'
  assume "monitor_phase m" "diskMonitor m = Some d" "disk_thread d d'" "n = m\<lparr>diskMonitor := Some d'\<rparr>"
  then show "monitor_phase n"
    using disk_more [OF _ disk_runs [of d d']] disk_thread_keeps [of d d']
    by (auto simp: phase_defs split: option.splits)
qed

lemma monitor_step_phase: "monitor_step m n \<Longrightarrow> monitor_phase m \<Longrightarrow> monitor_phase n"
  unfolding monitor_step_def using construct_phase destroy_phase cpu_turn_phase disk_turn_phase by blast

lemma monitor_phase_begin: "monitor_phase CreateMonitor"
  by (simp add: phase_defs CreateMonitor_def)

lemma monitor_phase_reachable: "monitor_reachable m \<Longrightarrow> monitor_phase m"
  by (erule rtranclp_keeps) (auto intro: monitor_phase_begin monitor_step_phase)

text \<open>What the owner and the threads do to a monitor is, for each of its objects, a run of the object.\<close>

lemma monitor_step_parts:
  assumes "monitor_step m n" "monitor_phase m"
  shows "cpuMonitor m = Some c \<Longrightarrow> \<exists>c'. cpuMonitor n = Some c' \<and> cpu_step\<^sup>*\<^sup>* c c'"
    and "diskMonitor m = Some d \<Longrightarrow> \<exists>d'. diskMonitor n = Some d' \<and> disk_step\<^sup>*\<^sup>* d d'"
proof -
  have p: "cpu_phase (owner m) (cpuMonitor m)" "disk_phase (owner m) (diskMonitor m)"
    using assms(2) by (simp_all add: monitor_phase_def)
  have runs: "cpu_thread c c' \<Longrightarrow> cpu_step\<^sup>*\<^sup>* c c'" "disk_thread d d' \<Longrightarrow> disk_step\<^sup>*\<^sup>* d d'" for c c' d d'
    by (auto dest: cpu_runs disk_runs)
  show "\<exists>c'. cpuMonitor n = Some c' \<and> cpu_step\<^sup>*\<^sup>* c c'" if "cpuMonitor m = Some c"
    using assms(1) p(1) that unfolding monitor_step_def
    by (elim disjE construct_stepE destroy_stepE cpu_turnE disk_turnE)
      (simp_all add: cpu_phase_def runs cpu_stops cpu_frees r_into_rtranclp)
  show "\<exists>d'. diskMonitor n = Some d' \<and> disk_step\<^sup>*\<^sup>* d d'" if "diskMonitor m = Some d"
    using assms(1) p(2) that unfolding monitor_step_def
    by (elim disjE construct_stepE destroy_stepE cpu_turnE disk_turnE)
      (simp_all add: disk_phase_def runs disk_stops disk_joins disk_frees r_into_rtranclp)
qed

lemma monitor_run_parts:
  assumes "monitor_step\<^sup>*\<^sup>* m n" "monitor_phase m"
  shows "monitor_phase n \<and> (cpuMonitor m = Some c \<longrightarrow> (\<exists>c'. cpuMonitor n = Some c' \<and> cpu_step\<^sup>*\<^sup>* c c')) \<and>
    (diskMonitor m = Some d \<longrightarrow> (\<exists>d'. diskMonitor n = Some d' \<and> disk_step\<^sup>*\<^sup>* d d'))"
  using assms
proof (induction rule: rtranclp_induct)
  case (step y z)
  then have y: "monitor_phase y" by simp
  from step monitor_step_phase [OF step.hyps(2) y] show ?case
    using monitor_step_parts [OF step.hyps(2) y] rtranclp_trans [of cpu_step] rtranclp_trans [of disk_step]
    by meson
qed simp

section \<open>Safety\<close>

definition cpu_harmed :: "Monitor \<Rightarrow> bool" where
  "cpu_harmed m \<longleftrightarrow> (\<exists>c. cpuMonitor m = Some c \<and> CPUPrivate.use_after_free c)"

definition disk_harmed :: "Monitor \<Rightarrow> bool" where
  "disk_harmed m \<longleftrightarrow> (\<exists>d. diskMonitor m = Some d \<and> DiskPrivate.use_after_free d)"

definition cpu_returned :: "Monitor \<Rightarrow> bool" where
  "cpu_returned m \<longleftrightarrow> (\<exists>c. cpuMonitor m = Some c \<and> CPUPrivate.pc c = cpu_pc.Finished)"

definition disk_returned :: "Monitor \<Rightarrow> bool" where
  "disk_returned m \<longleftrightarrow> (\<exists>d. diskMonitor m = Some d \<and> DiskPrivate.pc d = disk_pc.Finished)"

text \<open>The objects the three pointers own are all alive, or all deleted.\<close>

definition all_alive :: "Monitor \<Rightarrow> bool" where
  "all_alive m \<longleftrightarrow> (\<exists>c d. cpuMonitor m = Some c \<and> CPUPrivate.allocated c \<and> memMonitor m = Some True \<and>
     diskMonitor m = Some d \<and> DiskPrivate.allocated d)"

definition all_freed :: "Monitor \<Rightarrow> bool" where
  "all_freed m \<longleftrightarrow> (\<exists>c d. cpuMonitor m = Some c \<and> \<not> CPUPrivate.allocated c \<and> memMonitor m = Some False \<and>
     diskMonitor m = Some d \<and> \<not> DiskPrivate.allocated d)"

lemmas monitor_obs_defs = cpu_harmed_def disk_harmed_def cpu_returned_def disk_returned_def all_alive_def all_freed_def

lemma phase_cpu_harm: "monitor_phase m \<Longrightarrow> cpu_harmed m \<Longrightarrow> owner m = Gone"
  by (auto simp: phase_defs cpu_harmed_def dest: cpu_object.harmed_freed)

lemma phase_disk_harm: "monitor_phase m \<Longrightarrow> \<not> disk_harmed m"
  by (auto simp: phase_defs disk_harmed_def dest: disk_object.never_harmed)

lemma phase_alive: "monitor_phase m \<Longrightarrow> owner m = In_Use \<Longrightarrow> all_alive m"
  by (auto simp: phase_defs all_alive_def split: option.splits)

lemma phase_freed: "monitor_phase m \<Longrightarrow> owner m = Gone \<Longrightarrow> all_freed m \<and> disk_returned m"
  by (auto simp: phase_defs all_freed_def disk_returned_def split: option.splits dest: disk_object.freed_finished)

lemma cpu_turns:
  assumes "cpu_thread\<^sup>*\<^sup>* c c'" "cpuMonitor m = Some c"
  shows "cpu_turn\<^sup>*\<^sup>* m (m\<lparr>cpuMonitor := Some c'\<rparr>)"
  using assms(1)
proof (induction rule: rtranclp_induct)
  case base
  then show ?case using assms(2) by (cases m) simp
next
  case (step y z)
  have "cpu_turn (m\<lparr>cpuMonitor := Some y\<rparr>) (m\<lparr>cpuMonitor := Some z\<rparr>)"
    using cpu_goes [of "m\<lparr>cpuMonitor := Some y\<rparr>" y z] step.hyps by simp
  with step.IH show ?case by (rule rtranclp.rtrancl_into_rtrancl)
qed

lemma phase_cpu_left:
  assumes "monitor_phase m" "owner m = Gone" "\<not> cpu_returned m"
  shows "\<exists>n. cpu_turn\<^sup>*\<^sup>* m n \<and> cpu_harmed n"
proof -
  obtain c where c: "cpuMonitor m = Some c" "\<not> CPUPrivate.allocated c" "CPUPrivate.pc c \<noteq> cpu_pc.Finished"
    using assms by (auto simp: phase_defs cpu_returned_def split: option.splits)
  from cpu_thread_harms [OF c(2,3)] obtain c' where "cpu_thread\<^sup>*\<^sup>* c c'" "CPUPrivate.use_after_free c'" by blast
  with cpu_turns [OF _ c(1)] show ?thesis by (intro exI [of _ "m\<lparr>cpuMonitor := Some c'\<rparr>"]) (simp add: cpu_harmed_def)
qed

text \<open>C20: While a monitor is in use its three objects are alive; when it is gone all are deleted and
  the disk thread has returned. The disk thread never touches a deleted object, and the processor
  thread does not before the monitor is gone; but if it has not returned by then, its own steps lead
  there.\<close>

theorem monitor_lifetime:
  assumes "monitor_reachable m"
  shows "(owner m = In_Use \<longrightarrow> all_alive m) \<and> (owner m = Gone \<longrightarrow> all_freed m \<and> disk_returned m) \<and>
    \<not> disk_harmed m \<and> (cpu_harmed m \<longrightarrow> owner m = Gone) \<and>
    (owner m = Gone \<and> \<not> cpu_returned m \<longrightarrow> (\<exists>n. cpu_turn\<^sup>*\<^sup>* m n \<and> cpu_harmed n))"
  using monitor_phase_reachable [OF assms] phase_alive phase_freed phase_disk_harm phase_cpu_harm phase_cpu_left
  by blast

section \<open>The destructor returns\<close>

text \<open>From the store of the flag on: the steps the owner still has to make, and those of the disk
  thread until it has seen the flag.\<close>

definition closing :: "owner_pc \<Rightarrow> bool" where
  "closing p \<longleftrightarrow> p \<in> {Join_Disk, Free_Disk, Free_Memory, Stop_Cpu, Free_Cpu}"

definition owner_left :: "owner_pc \<Rightarrow> nat" where
  "owner_left p =
     (case p of Join_Disk \<Rightarrow> 5 | Free_Disk \<Rightarrow> 4 | Free_Memory \<Rightarrow> 3 | Stop_Cpu \<Rightarrow> 2 | Free_Cpu \<Rightarrow> 1 | _ \<Rightarrow> 0)"

definition thread_left :: "disk_pc \<Rightarrow> nat" where
  "thread_left p =
     (case p of Running_Command \<Rightarrow> 4 | Store_Read rw \<Rightarrow> 3 | Store_Write rw \<Rightarrow> 2
      | disk_pc.Check_Running \<Rightarrow> 1 | disk_pc.Finished \<Rightarrow> 0)"

definition steps_left :: "Monitor \<Rightarrow> nat" where
  "steps_left m = owner_left (owner m) + (case diskMonitor m of None \<Rightarrow> 0 | Some d \<Rightarrow> thread_left (DiskPrivate.pc d))"

lemmas left_defs = steps_left_def owner_left_def thread_left_def

definition closing_step :: "Monitor \<Rightarrow> Monitor \<Rightarrow> bool" where
  "closing_step m n \<longleftrightarrow> destroy_step m n \<or> disk_turn m n"

definition closed_down :: "Monitor \<Rightarrow> bool" where
  "closed_down m \<longleftrightarrow> monitor_phase m \<and> (closing (owner m) \<or> owner m = Gone)"

text \<open>The disk monitor's object while the destructor runs.\<close>

lemma closed_disk:
  assumes "closed_down m" "diskMonitor m = Some d"
  shows "\<not> ioThreadRunning d" "owner m = Join_Disk \<Longrightarrow> DiskPrivate.allocated d"
    "\<not> DiskPrivate.allocated d \<Longrightarrow> DiskPrivate.pc d = disk_pc.Finished"
proof -
  have "disk_phase (owner m) (Some d)" "owner m \<notin> {In_Use, Stop_Disk}"
    using assms unfolding closed_down_def monitor_phase_def closing_def by auto
  then show "\<not> ioThreadRunning d" "owner m = Join_Disk \<Longrightarrow> DiskPrivate.allocated d"
    "\<not> DiskPrivate.allocated d \<Longrightarrow> DiskPrivate.pc d = disk_pc.Finished"
    using disk_object.freed_finished [of d] by (simp_all add: disk_phase_def)
qed

lemma closed_parts:
  assumes "closed_down m"
  obtains c d where "cpuMonitor m = Some c" "diskMonitor m = Some d"
proof -
  have "cpu_phase (owner m) (cpuMonitor m)" "disk_phase (owner m) (diskMonitor m)"
    "owner m \<notin> {Make_Cpu, Make_Memory, Make_Disk}"
    using assms unfolding closed_down_def monitor_phase_def closing_def by auto
  then show thesis using that by (auto simp: cpu_phase_def disk_phase_def split: option.splits)
qed

lemma closing_owner: "closing_step m n \<Longrightarrow> closing (owner m) \<or> owner m = Gone \<Longrightarrow> closing (owner n) \<or> owner n = Gone"
  unfolding closing_step_def closing_def by (auto elim!: destroy_stepE disk_turnE)

lemma closing_phase: "closing_step m n \<Longrightarrow> closed_down m \<Longrightarrow> closed_down n"
  using destroy_phase [of m n] disk_turn_phase [of m n] closing_owner [of m n]
  by (auto simp: closing_step_def closed_down_def)

lemma cpu_turns_phase: "cpu_turn\<^sup>*\<^sup>* m n \<Longrightarrow> closed_down m \<Longrightarrow> closed_down n \<and> steps_left n = steps_left m"
proof (induction rule: rtranclp_induct)
  case (step y z)
  then have "closed_down y" "steps_left y = steps_left m" by simp_all
  with step.hyps(2) cpu_turn_phase [OF step.hyps(2)] show ?case
    by (auto simp: closed_down_def steps_left_def elim!: cpu_turnE)
qed simp

lemma disk_turn_left: "disk_turn m n \<Longrightarrow> closed_down m \<Longrightarrow> steps_left n < steps_left m"
proof (elim disk_turnE)
  fix d d'
  assume m: "closed_down m" "diskMonitor m = Some d" "disk_thread d d'" "n = m\<lparr>diskMonitor := Some d'\<rparr>"
  from m(3) closed_disk(1,3) [OF m(1,2)] have "thread_left (DiskPrivate.pc d') < thread_left (DiskPrivate.pc d)"
    by (elim disk_threadE) (auto simp: thread_left_def)
  with m show ?thesis by (simp add: steps_left_def)
qed

lemma destroy_left: "destroy_step m n \<Longrightarrow> closed_down m \<Longrightarrow> steps_left n < steps_left m"
  by (elim destroy_stepE)
    (auto simp: closed_down_def closing_def left_defs disk_join_def disk_free_def split: option.splits)

lemma closing_left: "closing_step m n \<Longrightarrow> closed_down m \<Longrightarrow> steps_left n < steps_left m"
  using disk_turn_left destroy_left by (auto simp: closing_step_def)

lemma closing_run:
  "((cpu_turn\<^sup>*\<^sup>* OO closing_step) ^^ k) m n \<Longrightarrow> closed_down m \<Longrightarrow> k + steps_left n \<le> steps_left m"
proof (induction k arbitrary: n)
  case 0
  then show ?case by simp
next
  case (Suc k)
  then obtain p q where p: "((cpu_turn\<^sup>*\<^sup>* OO closing_step) ^^ k) m p" "cpu_turn\<^sup>*\<^sup>* p q" "closing_step q n"
    by auto
  have "closed_down p"
    using p(1) Suc.prems(2)
    by (induction k arbitrary: p) (auto dest: cpu_turns_phase closing_phase)
  with p(2,3) cpu_turns_phase have "steps_left n < steps_left p" using closing_left by metis
  with Suc.IH [OF p(1) Suc.prems(2)] show ?case by simp
qed

lemma steps_left_bound: "steps_left m \<le> 9"
proof -
  have p: "owner_left (owner m) \<le> 5" by (cases "owner m") (simp_all add: owner_left_def)
  have q: "thread_left q \<le> 4" for q by (cases q) (simp_all add: thread_left_def)
  show ?thesis
  proof (cases "diskMonitor m")
    case None
    then show ?thesis using p by (simp add: steps_left_def)
  next
    case (Some d)
    then show ?thesis using p q [of "DiskPrivate.pc d"] by (simp add: steps_left_def)
  qed
qed

lemma join_progress:
  assumes "DiskPrivate.allocated d" "\<not> ioThreadRunning d" "DiskPrivate.pc d \<noteq> disk_pc.Finished"
  shows "\<exists>d'. disk_thread d d'"
proof (cases "DiskPrivate.pc d")
  case Running_Command
  then show ?thesis by (intro exI) (rule disk_thread.command [OF _ DiskIO_empty])
next
  case Check_Running
  then show ?thesis using disk_thread.check_stop [of d] assms(1,2) by blast
next
  case (Store_Read rw)
  then show ?thesis using disk_thread.store_read [of d rw] assms(1) by blast
next
  case (Store_Write rw)
  then show ?thesis using disk_thread.store_write [of d rw] assms(1) by blast
qed (use assms in simp)

lemma closing_progress:
  assumes "closed_down m" "closing (owner m)"
  shows "\<exists>n. closing_step m n"
proof -
  obtain c d where cd: "cpuMonitor m = Some c" "diskMonitor m = Some d"
    using assms(1) by (rule closed_parts)
  note d = closed_disk(1,2) [OF assms(1) cd(2)]
  show ?thesis
  proof (cases "owner m = Join_Disk \<and> DiskPrivate.pc d \<noteq> disk_pc.Finished")
    case True
    then obtain d' where "disk_thread d d'" using join_progress [OF d(2) d(1)] by blast
    then show ?thesis using disk_goes [OF cd(2)] by (auto simp: closing_step_def)
  next
    case False
    then show ?thesis
      using assms(2) destroy_step.intros cd unfolding closing_def closing_step_def by blast
  qed
qed

text \<open>C21: Once the destructor has stored the disk thread's flag it returns: whatever the processor
  thread does in between, at most nine more steps of the owner and the disk thread are possible (one
  run of \<open>iostat\<close> among them), and one of them is, until the monitor is gone.\<close>

theorem monitor_destructor_returns:
  assumes "monitor_reachable m" "closing (owner m)"
  shows "\<forall>k n. ((cpu_turn\<^sup>*\<^sup>* OO closing_step) ^^ k) m n \<longrightarrow>
      k \<le> 9 \<and> monitor_reachable n \<and> (closing (owner n) \<and> (\<exists>n'. closing_step n n') \<or> owner n = Gone)"
proof -
  have m: "monitor_phase m" "closed_down m"
    using monitor_phase_reachable [OF assms(1)] assms(2) by (simp_all add: closed_down_def)
  have reach: "monitor_reachable n \<and> closed_down n"
    if "((cpu_turn\<^sup>*\<^sup>* OO closing_step) ^^ k) m n" for k n
    using that
  proof (induction k arbitrary: n)
    case (Suc k)
    then obtain p q where p: "monitor_reachable p" "closed_down p" "cpu_turn\<^sup>*\<^sup>* p q" "closing_step q n" by auto
    have "monitor_step\<^sup>*\<^sup>* p q"
      using p(3) by (rule rtranclp_mono [THEN predicate2D, rotated]) (auto simp: monitor_step_def)
    moreover have "monitor_step q n" using p(4) by (auto simp: closing_step_def monitor_step_def)
    ultimately have "monitor_reachable n" using p(1) by (meson rtranclp.rtrancl_into_rtrancl rtranclp_trans)
    with p closing_phase cpu_turns_phase show ?case by blast
  qed (use assms m in simp)
  show ?thesis
  proof (intro allI impI)
    fix k n
    assume run: "((cpu_turn\<^sup>*\<^sup>* OO closing_step) ^^ k) m n"
    have "k \<le> 9" using closing_run [OF run m(2)] steps_left_bound [of m] by simp
    moreover have "monitor_reachable n" "closed_down n" using reach [OF run] by simp_all
    ultimately show "k \<le> 9 \<and> monitor_reachable n \<and> (closing (owner n) \<and> (\<exists>n'. closing_step n n') \<or> owner n = Gone)"
      using closing_progress [of n] by (auto simp: closed_down_def)
  qed
qed

section \<open>A whole life\<close>

abbreviation life :: "owner_pc \<Rightarrow> CPUPrivate \<Rightarrow> bool \<Rightarrow> DiskPrivate \<Rightarrow> Monitor" where
  "life p c b d \<equiv> \<lparr>owner = p, cpuMonitor = Some c, memMonitor = Some b, diskMonitor = Some d\<rparr>"

abbreviation disk_seen :: DiskPrivate where
  "disk_seen \<equiv> (disk_stop DiskPrivate_init)\<lparr>DiskPrivate.pc := disk_pc.Finished\<rparr>"

lemma monitor_step_intros:
  "construct_step m n \<Longrightarrow> monitor_step m n" "destroy_step m n \<Longrightarrow> monitor_step m n"
  "cpu_turn m n \<Longrightarrow> monitor_step m n" "disk_turn m n \<Longrightarrow> monitor_step m n"
  by (simp_all add: monitor_step_def)

lemma life_join: "monitor_reachable (life Join_Disk CPUPrivate_init True (disk_stop DiskPrivate_init))"
proof -
  let ?m1 = "\<lparr>owner = Make_Memory, cpuMonitor = Some CPUPrivate_init, memMonitor = None, diskMonitor = None\<rparr>"
  let ?m2 = "\<lparr>owner = Make_Disk, cpuMonitor = Some CPUPrivate_init, memMonitor = Some True, diskMonitor = None\<rparr>"
  have "monitor_step CreateMonitor ?m1" "monitor_step ?m1 ?m2"
    "monitor_step ?m2 (life In_Use CPUPrivate_init True DiskPrivate_init)"
    using make_cpu [of CreateMonitor] make_memory [of ?m1] make_disk [of ?m2]
    by (simp_all add: CreateMonitor_def monitor_new_defs monitor_step_intros)
  moreover have "monitor_step (life In_Use c b d) (life Stop_Disk c b d)"
    "monitor_step (life Stop_Disk c b d) (life Join_Disk c b (disk_stop d))" for c b d
    using begin_destroy [of "life In_Use c b d"] stop_disk [of "life Stop_Disk c b d" d]
    by (simp_all add: monitor_step_intros)
  ultimately show ?thesis by (meson rtranclp.rtrancl_refl rtranclp.rtrancl_into_rtrancl)
qed

lemma life_gone:
  "monitor_reachable (life Gone (cpu_free (cpu_stop CPUPrivate_init)) False (disk_free (disk_join disk_seen)))"
proof -
  have "disk_thread (disk_stop DiskPrivate_init) disk_seen"
    by (rule disk_thread.check_stop) (simp_all add: DiskPrivate_init_def disk_stop_def)
  then have "monitor_step (life Join_Disk c b (disk_stop DiskPrivate_init)) (life Join_Disk c b disk_seen)" for c b
    using disk_goes [of "life Join_Disk c b (disk_stop DiskPrivate_init)"] by (simp add: monitor_step_intros)
  moreover have "monitor_step (life Join_Disk c b disk_seen) (life Free_Disk c b (disk_join disk_seen))" for c b
    using join_disk [of "life Join_Disk c b disk_seen" disk_seen] by (simp add: monitor_step_intros)
  moreover have "monitor_step (life Free_Disk c b d) (life Free_Memory c b (disk_free d))"
    "monitor_step (life Free_Memory c b d) (life Stop_Cpu c False d)"
    "monitor_step (life Stop_Cpu c b d) (life Free_Cpu (cpu_stop c) b d)"
    "monitor_step (life Free_Cpu c b d) (life Gone (cpu_free c) b d)" for c b d
    using free_disk [of "life Free_Disk c b d" d] free_memory [of "life Free_Memory c b d"]
      stop_cpu [of "life Stop_Cpu c b d" c] free_cpu [of "life Free_Cpu c b d" c]
    by (simp_all add: monitor_step_intros)
  ultimately show ?thesis using life_join by (meson rtranclp.rtrancl_into_rtrancl)
qed

theorem monitor_lifetime_witness:
  "\<exists>m n. monitor_step\<^sup>*\<^sup>* CreateMonitor m \<and> all_freed m \<and> disk_returned m \<and> \<not> cpu_harmed m \<and>
     cpu_turn\<^sup>*\<^sup>* m n \<and> cpu_harmed n"
proof -
  let ?m = "life Gone (cpu_free (cpu_stop CPUPrivate_init)) False (disk_free (disk_join disk_seen))"
  have "\<not> cpu_returned ?m" "\<not> cpu_harmed ?m"
    by (simp_all add: monitor_obs_defs cpu_owner_defs CPUPrivate_init_def)
  with monitor_lifetime [OF life_gone] life_gone show ?thesis by (metis select_convs(1))
qed

theorem monitor_destructor_returns_witness:
  "closing (owner (life Join_Disk CPUPrivate_init True (disk_stop DiskPrivate_init))) \<and>
   (\<exists>n. closing_step (life Join_Disk CPUPrivate_init True (disk_stop DiskPrivate_init)) n)"
proof -
  let ?m = "life Join_Disk CPUPrivate_init True (disk_stop DiskPrivate_init)"
  have c: "closing (owner ?m)" by (simp add: closing_def)
  have "((cpu_turn\<^sup>*\<^sup>* OO closing_step) ^^ 0) ?m ?m" by simp
  with monitor_destructor_returns [OF life_join c] have
    "closing (owner ?m) \<and> (\<exists>n. closing_step ?m n) \<or> owner ?m = Gone" by blast
  with c show ?thesis by simp
qed

end
