(* ===== verification/Live_Host.thy ===== *)
theory Live_Host
  imports Session Monitor_Life
begin

text \<open>
  The server over the running threads: a host whose shared objects are the ones of
  \<open>Monitor_Life\<close>, at some point of their threads' lives and never going back. What the replies say of
  the processor and of the transfer rates is then what the threads have stored by the time of the
  loads: the usage of two consecutive samples, and rates of reports of \<open>iostat\<close>.
\<close>

section \<open>Loads of the shared objects\<close>

text \<open>Each load finds the object in a reachable state, and a later one finds it further on.\<close>

definition live_loads :: "('s \<Rightarrow> 's \<Rightarrow> bool) \<Rightarrow> 's \<Rightarrow> ('w \<Rightarrow> 's \<times> 'w) \<Rightarrow> bool" where
  "live_loads step first load \<longleftrightarrow>
     (\<forall>w. step\<^sup>*\<^sup>* first (fst (load w)) \<and> step\<^sup>*\<^sup>* (fst (load w)) (fst (load (snd (load w)))))"

definition live_host :: "('w, 'x) host_scheme \<Rightarrow> bool" where
  "live_host host \<longleftrightarrow>
     live_loads cpu_step CPUPrivate_init (cpu_object host) \<and>
     live_loads disk_step DiskPrivate_init (disk_object host)"

lemma live_loadsD:
  assumes "live_loads step first load" "load w = (s, w1)" "load w1 = (t, w2)"
  shows "step\<^sup>*\<^sup>* first s" "step\<^sup>*\<^sup>* s t"
  using spec [OF assms(1) [unfolded live_loads_def], of w] assms(2,3) by simp_all

text \<open>What the accessors return, in terms of the two loads they make.\<close>

definition load_twice :: "('w \<Rightarrow> 's \<times> 'w) \<Rightarrow> 'w \<Rightarrow> 's \<times> 's" where
  "load_twice load w = (fst (load w), fst (load (snd (load w))))"

lemma live_usage:
  assumes "live_host host" "cpu_usage_io host w = (Inr usage, w')" "load_twice (cpu_object host) w = (s, t)"
  shows "(\<exists>u. usage_seen s t u \<and> usage = '' '' @ fmt_fixed 2 u) \<and> (\<forall>i\<in>set (samples t). proc_sample i)"
proof -
  have live: "live_loads cpu_step CPUPrivate_init (cpu_object host)" using assms(1) by (simp add: live_host_def)
  obtain w1 w2 where l: "cpu_object host w = (s, w1)" "cpu_object host w1 = (t, w2)"
    using assms(3) by (cases "cpu_object host w"; cases "cpu_object host (snd (cpu_object host w))") (simp add: load_twice_def)
  note reach = live_loadsD [OF live l]
  have "usage = '' '' @ fmt_fixed 2 (GetCPUUSage (cpuUsage s) (cpuUsage t))"
    using assms(2) l
    by (simp add: cpu_usage_io_def bindIO_simps readIO_eq GetCpuUsage_def GetCPUUSage_def split: if_splits)
  moreover have "cpu_reachable t" using reach by (rule rtranclp_trans)
  ultimately show ?thesis using GetCPUUSage_loads [OF reach] samples_genuine by blast
qed

lemma live_rates:
  assumes "live_host host" "disk_rates_io host w = (Inr (r, wr), w')" "load_twice (disk_object host) w = (s, t)"
  shows "read_stored s \<noteq> [] \<and> write_stored t \<noteq> [] \<and>
    r = fst (last (read_stored s)) \<and> wr = snd (last (write_stored t)) \<and> (\<forall>rw\<in>set (reports t). iostat_report rw)"
proof -
  have live: "live_loads disk_step DiskPrivate_init (disk_object host)" using assms(1) by (simp add: live_host_def)
  obtain w1 w2 where l: "disk_object host w = (s, w1)" "disk_object host w1 = (t, w2)"
    using assms(3) by (cases "disk_object host w"; cases "disk_object host (snd (disk_object host w))") (simp add: load_twice_def)
  with assms(2) have "GetDiskIO s t = Inr (r, wr)"
    by (simp add: disk_rates_io_def bindIO_simps readIO_eq liftIO_def)
  moreover note reach = live_loadsD [OF live l]
  moreover have "disk_reachable t" using reach by (rule rtranclp_trans)
  ultimately show ?thesis
    using GetDiskIO_loads [OF reach] disk_rates.genuine_reachable [of t] by (auto split: if_splits)
qed

section \<open>A host over a monitor\<close>

text \<open>\<open>mon w\<close> is the monitor the server has created, in the world \<open>w\<close>: every load reads a member of
  its objects, while the owner is in the loop of \<open>main\<close> and the threads go on.\<close>

definition serves_monitor :: "('w, 'x) host_scheme \<Rightarrow> ('w \<Rightarrow> Monitor) \<Rightarrow> bool" where
  "serves_monitor host mon \<longleftrightarrow>
     (\<forall>w. monitor_reachable (mon w) \<and> owner (mon w) = In_Use \<and>
       cpuMonitor (mon w) = Some (fst (cpu_object host w)) \<and>
       diskMonitor (mon w) = Some (fst (disk_object host w)) \<and>
       monitor_step\<^sup>*\<^sup>* (mon w) (mon (snd (cpu_object host w))) \<and>
       monitor_step\<^sup>*\<^sup>* (mon w) (mon (snd (disk_object host w))))"

lemma serves_monitor_live:
  assumes "serves_monitor host mon"
  shows "live_host host" and "CPUPrivate.allocated (fst (cpu_object host w)) \<and>
    DiskPrivate.allocated (fst (disk_object host w))"
proof -
  have m: "monitor_phase (mon w)" "owner (mon w) = In_Use" "cpuMonitor (mon w) = Some (fst (cpu_object host w))"
      "diskMonitor (mon w) = Some (fst (disk_object host w))"
      "monitor_step\<^sup>*\<^sup>* (mon w) (mon (snd (cpu_object host w)))"
      "monitor_step\<^sup>*\<^sup>* (mon w) (mon (snd (disk_object host w)))" for w
    using spec [OF assms [unfolded serves_monitor_def], of w] monitor_phase_reachable by simp_all
  have now: "cpu_reachable (fst (cpu_object host w)) \<and> CPUPrivate.allocated (fst (cpu_object host w))"
    "disk_reachable (fst (disk_object host w)) \<and> DiskPrivate.allocated (fst (disk_object host w))" for w
    using m(1) [of w] m(2-4) [of w] by (simp_all add: phase_defs)
  have "cpu_step\<^sup>*\<^sup>* (fst (cpu_object host w)) (fst (cpu_object host (snd (cpu_object host w))))" for w
    using monitor_run_parts [OF m(5,1), of w "fst (cpu_object host w)" undefined] m(3) by auto
  moreover have "disk_step\<^sup>*\<^sup>* (fst (disk_object host w)) (fst (disk_object host (snd (disk_object host w))))" for w
    using monitor_run_parts [OF m(6,1), of w undefined "fst (disk_object host w)"] m(4) by auto
  ultimately show "live_host host" using now by (simp add: live_host_def live_loads_def)
  show "CPUPrivate.allocated (fst (cpu_object host w)) \<and> DiskPrivate.allocated (fst (disk_object host w))"
    using now by simp
qed

section \<open>What the server says\<close>

text \<open>A reply to \<open>DiskIO\<close> holds the rates of the reports the thread has stored at the loads, one to
  \<open>RequestBaseInfo\<close> the usage it has stored at the loads; without a disk it is \<open>null\<close>.\<close>

definition live_reply :: "('w, 'x) host_scheme \<Rightarrow> string \<Rightarrow> bytes \<Rightarrow> bool" where
  "live_reply host q r \<longleftrightarrow>
     (q = ''DiskIO'' \<longrightarrow>
        (\<exists>w s t. load_twice (disk_object host) w = (s, t) \<and> read_stored s \<noteq> [] \<and> write_stored t \<noteq> [] \<and>
           (\<forall>rw\<in>set (reports t). iostat_report rw) \<and>
           json_dump (JObject [(''data'', JObject [(''readIo'', JFloat (fst (last (read_stored s)))),
             (''writeIo'', JFloat (snd (last (write_stored t))))])]) = Inr r)) \<and>
     (q = ''RequestBaseInfo'' \<longrightarrow>
        (\<exists>w w'. disks_io host w = (Inr [], w') \<and> json_dump JNull = Inr r) \<or>
        (\<exists>w s t u m model clock. load_twice (cpu_object host) w = (s, t) \<and> usage_seen s t u \<and>
           (\<forall>i\<in>set (samples t). proc_sample i) \<and>
           member_find ''cpu'' m = Some (cpu_entry model clock ('' '' @ fmt_fixed 2 u)) \<and>
           json_dump (JObject m) = Inr r))"

lemma live_rates_reply:
  assumes "live_host host" "DisksIO host w = (Inr j, w')" "json_dump j = Inr r"
  shows "live_reply host ''DiskIO'' r"
proof -
  obtain rd wr w1 where rates: "disk_rates_io host w = (Inr (rd, wr), w1)"
    using assms(2) by (auto simp: DisksIO_def bindIO_Inr)
  obtain s t where "load_twice (disk_object host) w = (s, t)" by (meson surj_pair)
  with live_rates [OF assms(1) rates this] disks_rates_value [OF rates] assms(2,3) show ?thesis
    unfolding live_reply_def by auto
qed

lemma live_base_reply:
  assumes "live_host host" "GetInfoByJson host mon w = (Inr (j, mon'), w')" "json_dump j = Inr r"
  shows "live_reply host ''RequestBaseInfo'' r"
proof -
  from assms(2) obtain model mon1 clock mon2 usage tot unused ratio disks w1 w2 w3 w4 w5 w6 w7 where
    reads: "model_name_io host mon w = (Inr (model, mon1), w1)" "base_clock_io host mon1 w1 = (Inr (clock, mon2), w2)"
      "cpu_usage_io host w2 = (Inr usage, w3)" "memory_total_io host w3 = (Inr tot, w4)"
      "memory_unused_io host w4 = (Inr unused, w5)" "memory_usage_io host w5 = (Inr ratio, w6)"
      "disks_io host w6 = (Inr disks, w7)"
    by (auto simp: GetInfoByJson_def GetCPU_def GetMemory_def GetDisk_def bindIO_Inr Let_def)
  note info = base_info_reply [OF reads]
  show ?thesis
  proof (cases "disks = []")
    case True
    with info assms(2,3) reads(7) have "disks_io host w6 = (Inr [], w7)" "json_dump JNull = Inr r" by simp_all
    then show ?thesis unfolding live_reply_def by blast
  next
    case False
    with info assms(2,3) obtain m where
      m: "json_dump (JObject m) = Inr r" "member_find ''cpu'' m = Some (cpu_entry model clock usage)" by auto
    obtain s t where l: "load_twice (cpu_object host) w2 = (s, t)" by (meson surj_pair)
    from live_usage [OF assms(1) reads(3) l] obtain u where
      "usage_seen s t u" "usage = '' '' @ fmt_fixed 2 u" "\<forall>i\<in>set (samples t). proc_sample i" by blast
    with m l show ?thesis unfolding live_reply_def by blast
  qed
qed

lemma live_reply_for:
  assumes "live_host host" "reply_for host q r"
  shows "live_reply host q r"
proof -
  consider "q = ''DiskIO''" | "q = ''RequestBaseInfo''" | "q \<noteq> ''DiskIO''" "q \<noteq> ''RequestBaseInfo''" by blast
  then show ?thesis
  proof cases
    case 1
    with assms(2) obtain j w w' where "DisksIO host w = (Inr j, w')" "json_dump j = Inr r" by (auto simp: reply_for_def)
    then show ?thesis unfolding 1 by (rule live_rates_reply [OF assms(1)])
  next
    case 2
    with assms(2) obtain mon j mon' w w' where "GetInfoByJson host mon w = (Inr (j, mon'), w')" "json_dump j = Inr r"
      by (auto simp: reply_for_def)
    then show ?thesis unfolding 2 by (rule live_base_reply [OF assms(1)])
  next
    case 3
    then show ?thesis by (simp add: live_reply_def)
  qed
qed

text \<open>C4: On a host whose objects are those of the running threads, whatever the server has run through,
  every reply to \<open>DiskIO\<close> is the text of two rates: the read rate of the last report of \<open>iostat\<close> stored
  at the first load, and the write rate of the last one stored at the second. Every reply to
  \<open>RequestBaseInfo\<close> is the text \<open>C4: null\<close>, when \<open>df\<close> has listed no disk, or else says of the processor, with
  two decimals, 0 before the thread's first round and then the usage from the older to the newer
  sample of the thread's last round over at the load.\<close>

theorem live_replies:
  assumes "histories host sent received" "live_host host"
    and "main host n w = (res, w')" "sent w = []" "received w = []"
  shows "list_all2 (live_reply host) (take (length (sent w')) (received w')) (sent w')"
proof -
  from main_history [OF assms(1,3)] assms(4,5) have
    "list_all2 (reply_for host) (take (length (sent w')) (received w')) (sent w')" by auto
  then show ?thesis by (rule list_all2_mono) (rule live_reply_for [OF assms(2)])
qed

lemma busy_live: "live_host busy_host"
  using seen_once_reachable [OF DiskIO_empty]
  by (simp add: live_host_def live_loads_def busy_host_def queue_host_def still_def libzmq.defs calm_def)

theorem live_replies_witness:
  "\<exists>mon w' q r. main busy_host 1 \<lparr>inbox = [], outbox = [], taken = []\<rparr> = (Inr mon, w') \<and>
     taken w' = [q] \<and> outbox w' = [r] \<and> live_reply busy_host q r"
proof -
  obtain mon w' q r where main: "main busy_host 1 \<lparr>inbox = [], outbox = [], taken = []\<rparr> = (Inr mon, w')"
    and h: "taken w' = [q]" "outbox w' = [r]" by (rule busy_run)
  from live_replies [OF busy_histories busy_live main] h have "live_reply busy_host q r" by simp
  with main h show ?thesis by blast
qed

end
