(* ===== verification/Spec2Isabelle.thy ===== *)
theory Spec2Isabelle
  imports Prelude Decimal Ieee_Double Cstdio Common Sampling Memory_Monitor Cpu_Monitor Disk_Monitor
    Ordered_Map Json_Value Utf8 Json_String Json_Integer Dtoa Cached_Powers Grisu_Exact Json_Dump
    Json_Roundtrip
    Effects Zmq_Api Zmq_Constants Zmq_Message Zmq_Buffer Zmq_Socket Zmq_Options Zmq_Monitor Zmq_Poller
    Zmq_Values Zmq_Multipart Multipart_Codec Multipart_Wire Host Monitor_Json History Server Answers
    Client Session Monitor_Life Live_Host
begin

text \<open>
  A verification library of the RAID monitor: a server that reads the memory, processor and disk
  figures of a Linux host and answers requests for them in JSON over a ZeroMQ socket, its clients,
  and the C++ layer over libzmq that both use.

  \<^bold>\<open>The program and its theories.\<close>

  \<^item> Foundations. \<open>Prelude\<close>: machine integers as words, the type
    \<open>outcome\<close> of code that can fault (an exception, an undefined operation, a loop that
    does not end, each a value of \<open>fault\<close>), and the interface
    \<open>stream_codec\<close>. \<open>Decimal\<close>, \<open>Ieee_Double\<close> (binary64 with
    its rounding, stated as the locale \<open>rounding\<close>), \<open>Cstdio\<close> (C strings,
    \<open>fgets\<close>, the \<open>scanf\<close> conversions with the sizes of their buffers).
    \<open>Effects\<close>: computations over the state of the world, which keep their effects when
    they throw, and the destructors an exception runs.
  \<^item> The monitors. \<open>Memory_Monitor\<close>, \<open>Cpu_Monitor\<close>,
    \<open>Disk_Monitor\<close> (\<open>MemoryMonitor.cpp\<close>, \<open>CPUMonitor.cpp\<close>,
    \<open>DiskMonitor.cpp\<close>, with \<open>Common.h\<close> in \<open>Common\<close>): each is
    a record of the members of its private class and a function per member function; the text of
    \<open>/proc\<close>, \<open>df\<close> and \<open>iostat\<close> is an argument. The two
    sampling threads are step relations over the points of their loops, interleaved with the steps
    of the object's owner; their records also keep the history of what the thread has read
    (\<open>samples\<close>, \<open>reports\<close>), on which no step depends. \<open>Sampling\<close> states what they have in common as locales: the
    life of an object with a thread (\<open>threaded_object\<close>), a destructor that joins it
    (\<open>joined_object\<close>), and where the values in it come from
    (\<open>sampled_object\<close>). \<open>Monitor_Life\<close>: the construction and destruction of
    the three monitors by \<open>Monitor\<close> (\<open>Monitor.h\<close>), with both threads running.
  \<^item> JSON. \<open>Ordered_Map\<close> (\<open>std::map\<close>, stated as the locale
    \<open>ordered_map\<close>), \<open>Json_Value\<close> (values, braces,
    \<open>operator[]\<close>, \<open>push_back\<close>, \<open>merge_patch\<close>), and the
    serializer in \<open>Utf8\<close>, \<open>Json_String\<close>, \<open>Json_Integer\<close>,
    \<open>Dtoa\<close> and \<open>Json_Dump\<close>: of \<open>nlohmann::json\<close>, what the
    program runs. \<open>Cached_Powers\<close> checks the table of powers of ten,
    \<open>Grisu_Exact\<close> proves the conversion of doubles exact, and
    \<open>Json_Roundtrip\<close> has the reader of JSON that the writer is checked against.
  \<^item> The C++ layer of libzmq (\<open>zmq.hpp\<close>, \<open>zmq_addon.hpp\<close>,
    \<open>zmq.h\<close>). \<open>Zmq_Api\<close> and \<open>Zmq_Constants\<close>: the C interface.
    \<open>Zmq_Message\<close>, \<open>Zmq_Buffer\<close>, \<open>Zmq_Socket\<close>,
    \<open>Zmq_Options\<close>, \<open>Zmq_Monitor\<close>: \<open>message_t\<close>, the buffers,
    \<open>context_t\<close> and \<open>socket_t\<close>, the typed options with their table,
    \<open>monitor_t\<close>. \<open>Zmq_Poller\<close>: \<open>poller_t\<close>,
    \<open>active_poller_t\<close> with the handlers as objects that are destroyed with their last
    owner, and the other draft functions. \<open>Zmq_Values\<close>: the operators of the flags, the
    constructors of \<open>socket_ref\<close>, swaps and output. \<open>Zmq_Multipart\<close>: \<open>multipart_t\<close>,
    the multipart functions and the codec of parts, with their theorems in
    \<open>Multipart_Codec\<close> and \<open>Multipart_Wire\<close>.
  \<^item> The programs. \<open>Host\<close>: what they use besides libzmq.
    \<open>Monitor_Json\<close> (\<open>Monitor.cpp\<close>): the replies. \<open>Server\<close>
    (\<open>main.cpp\<close>) and \<open>Client\<close> (\<open>Client.cpp\<close>,
    \<open>raid_monitor_server.h\<close>), over the histories of \<open>History\<close>.
    \<open>Answers\<close>: the server on a host that works. \<open>Session\<close>: the server with
    its clients. \<open>Live_Host\<close>: the server over the running threads.

  \<^bold>\<open>Parameters.\<close> libzmq is not part of the sources: its functions are the record
  \<open>libzmq\<close>, an argument of every wrapper, and the type of the world is arbitrary. What
  a theorem relies on is a named predicate of that record: \<open>sized_messages\<close> (a message
  has the size asked for), \<open>handle_laws\<close> and \<open>keeps_handles\<close> (which
  handles are open), \<open>histories\<close> (what is sent and what is received, as two lists) and \<open>traced\<close>
  (the same as one list of events, in their order), \<open>send_laws\<close>
  and \<open>recv_laws\<close> (the frames on the wire, and that messages are atomic and finite),
  \<open>reads_back\<close> (an option that can be set and read), \<open>closes_messages\<close>,
  \<open>poller_laws\<close> (the registrations of a poller), \<open>willing\<close> (calls that succeed),
  and of the host \<open>readable_host\<close> (its files parse, the names in them are UTF-8 text, and
  the rates of the disk thread, once it has stored any, are binary64 numbers),
  \<open>rates_stored\<close> (it has stored some before any load; no theorem assumes it, but the server
  that has \<open>readable_host\<close> and not this one may read an uninitialised member) and \<open>live_host\<close> (the shared objects are
  those of running threads, which \<open>serves_monitor\<close> gives); \<open>connected\<close> says what a channel
  between server and client keeps. Each holds of a concrete library in the witness of its theorem.
  The record \<open>host\<close> extends it by the files and commands the monitors read, and by the
  log. The virtual functions of \<open>monitor_t\<close> and the output iterators of the templates
  are arguments too.

  \<^bold>\<open>Loops.\<close> Recursion that is structural, or has a measure, is a total function.
  A loop that may not end is a \<open>partial_function\<close>, whose value \<open>None\<close> is
  the fault \<open>Diverges\<close>: closing a context (\<open>term_loop\<close>), receiving a
  message of unknown length (\<open>mp_recv_loop\<close>, \<open>recv_n_loop\<close>), the event
  loop of a monitor (\<open>event_loop\<close>), normalising and generating digits in
  \<open>Dtoa\<close>. That the receiving loops return is proved under the laws above, and that those of
  \<open>Dtoa\<close> do for every finite double without any law; closing a context returns exactly when
  it is not interrupted for ever, and the event loop of a monitor never does. The endless loop of
  the server is taken for any number of passes (\<open>serve n\<close>); the clients' loops have
  their ten passes.

  \<^bold>\<open>The theorems.\<close>

  \<^item> Server, client, replies: one reply per request, in order; each client gets the replies to
    its own requests; on a host that works nothing but a request for rates that are not there yet
    ends the server, while a name that is not UTF-8 does; a client sends and receives in lock step; what the
    replies say of the processor and of the rates is what the threads have stored; which values the replies are, with the cases where they are not what was meant.
  \<^item> Monitors: exact parsing of well-formed input, exact or rounded results, ranges,
    wrap-around; the life time of the objects the threads use, for each monitor and for a whole
    \<open>Monitor\<close>, whose destructor returns, while the thread of the processor can outlive its
    object; and which samples and reports of the threads the accessors return.
  \<^item> JSON: \<open>merge_patch\<close> refines RFC 7396, the UTF-8
    automaton accepts exactly UTF-8, escaping is exact, the text of a float reads back as the same
    double, and what is dumped is JSON text from which a reader gets the value back.
  \<^item> libzmq layer: contents of messages, the repeated termination of a context, handles closed exactly once, monitor events, the life time of the handlers of
    a poller, multipart messages on the wire and in the codec, against the relation
    \<open>frames\<close> of the encoding.

  \<^bold>\<open>Not modelled.\<close> libzmq itself and \<open>zmq_utils.h\<close>, which only
  declare; spdlog (its calls are arguments of the host); of \<open>nlohmann::json\<close> the
  parser, the iterators, JSON pointers, indentation and the binary formats, which the program does
  not use. The branches of \<open>zmq.hpp\<close> for compilers before C++11 and for versions of
  libzmq other than the one of \<open>zmq.h\<close>, and the move of a string into a message without
  a copy beyond what its bytes show. That a thread cannot be created (\<open>std::system_error\<close>
  in a \<open>noexcept\<close> constructor ends the program). Of the processes and threads the scheduling is arbitrary, and
  the memory model is sequentially consistent, as for \<open>std::atomic\<close> with its default
  order.
\<close>

end
